(* ===== verification/Prelude.thy ===== *)
theory Prelude
  imports Main "HOL-Library.Word" "HOL-Library.Signed_Division" "HOL-Library.Monad_Syntax"
begin

text \<open>
  Shared base of the rasOS development.

  The kernel is 32-bit C compiled with \<^verbatim>\<open>i686-elf-gcc -O0\<close>.  An unsigned integer is a
  word of its width, a C \<^verbatim>\<open>int\<close> is an \<open>int\<close> where it cannot overflow and a word read with
  \<open>sint\<close> where the wrap-around matters, a plain \<^verbatim>\<open>char\<close> is a signed byte.  A pointer into
  a buffer is the list of bytes from the pointed-to byte to the end of the object.
  A computation whose C source has no defined outcome at that point (an access outside an
  object, a dereference of NULL) or that never returns has the result \<open>None\<close>.
\<close>

unbundle bit_operations_syntax

section \<open>Machine types\<close>

type_synonym byte = "8 word"
type_synonym u16 = "16 word"
type_synonym u32 = "32 word"
type_synonym addr = "32 word"
type_synonym cbuf = "byte list"
type_synonym ram = "addr \<Rightarrow> byte"

section \<open>Status codes (status.h)\<close>

definition OK :: int where [simp]: "OK = 0"
definition EIO :: int where [simp]: "EIO = 1"
definition EINVARG :: int where [simp]: "EINVARG = 2"
definition ENOMEM :: int where [simp]: "ENOMEM = 3"
definition EBADPATH :: int where [simp]: "EBADPATH = 4"
definition EFSNOTUS :: int where [simp]: "EFSNOTUS = 5"
definition ERDONLY :: int where [simp]: "ERDONLY = 6"
definition EUNIMP :: int where [simp]: "EUNIMP = 7"
definition EISTKN :: int where [simp]: "EISTKN = 8"
definition EINFORMAT :: int where [simp]: "EINFORMAT = 9"

section \<open>Configuration constants (config.h)\<close>

definition RASOS_HEAP_SIZE_BYTES :: u32 where "RASOS_HEAP_SIZE_BYTES = 104857600"
definition RASOS_HEAP_BLOCK_SIZE :: u32 where [simp]: "RASOS_HEAP_BLOCK_SIZE = 4096"
definition RASOS_HEAP_ADDRESS :: addr where "RASOS_HEAP_ADDRESS = 0x01000000"
definition RASOS_HEAP_TABLE_ADDRESS :: addr where "RASOS_HEAP_TABLE_ADDRESS = 0x00007E00"

section \<open>Collections\<close>

named_theorems ram_simps "read-over-write laws of the byte memory"
named_theorems step_defs "definitions unfolded together when a handler is executed"

section \<open>Little-endian 32-bit accesses to the byte memory\<close>

text \<open>
  A \<^verbatim>\<open>uint32_t\<close> at address \<open>a\<close> occupies the bytes \<open>a .. a + 3\<close>, least significant first.
\<close>

definition load32 :: "ram \<Rightarrow> addr \<Rightarrow> u32" where
  "load32 m a = (ucast (m a) :: u32) OR push_bit 8 (ucast (m (a + 1)))
     OR push_bit 16 (ucast (m (a + 2))) OR push_bit 24 (ucast (m (a + 3)))"

definition store32 :: "ram \<Rightarrow> addr \<Rightarrow> u32 \<Rightarrow> ram" where
  "store32 m a v = m(a := ucast v, a + 1 := ucast (drop_bit 8 v),
     a + 2 := ucast (drop_bit 16 v), a + 3 := ucast (drop_bit 24 v))"

lemma bytes_of_u32:
  "(ucast (ucast (v::u32) :: byte) :: u32) OR push_bit 8 (ucast (ucast (drop_bit 8 v) :: byte))
     OR push_bit 16 (ucast (ucast (drop_bit 16 v) :: byte))
     OR push_bit 24 (ucast (ucast (drop_bit 24 v) :: byte)) = v"
proof (rule bit_word_eqI)
  fix n assume "n < LENGTH(32)"
  then consider "n < 8" | "8 \<le> n" "n < 16" | "16 \<le> n" "n < 24" | "24 \<le> n" "n < 32"
    by fastforce
  then show "bit ((ucast (ucast v :: byte) :: u32) OR push_bit 8 (ucast (ucast (drop_bit 8 v) :: byte))
     OR push_bit 16 (ucast (ucast (drop_bit 16 v) :: byte))
     OR push_bit 24 (ucast (ucast (drop_bit 24 v) :: byte))) n = bit v n"
    by cases (auto simp: bit_simps)
qed

lemma load32_store32_same [simp, ram_simps]: "load32 (store32 m a v) a = v"
  by (simp add: load32_def store32_def bytes_of_u32)

section \<open>Pages\<close>

text \<open>
  \<^verbatim>\<open>& 0xfffff000\<close>, the base of the 4096-byte page an address lies in, and the alignment test
  \<^verbatim>\<open>(uint32_t)a % 4096 == 0\<close>.
\<close>

definition page_base :: "addr \<Rightarrow> addr" where
  "page_base a = a AND 0xFFFFF000"
definition page_aligned :: "addr \<Rightarrow> bool" where
  "page_aligned a \<longleftrightarrow> a mod 4096 = 0"

lemma page_aligned_unat: "page_aligned a \<longleftrightarrow> 4096 dvd unat a"
  proof -
  have "unat (a mod 4096) = unat a mod 4096" by (simp add: unat_mod_distrib)
  then show ?thesis by (metis dvd_eq_mod_eq_0 page_aligned_def unat_eq_zero)
qed

lemma unat_less_4G [simp]: "unat (a :: u32) < 4294967296"
  using unsigned_less [of a, where ?'a = nat] by simp

lemma unat_slot:
  assumes "page_aligned b" "i < 1024"
  shows "unat (b + 4 * of_nat i) = unat b + 4 * i"
proof -
  obtain k where k: "unat b = 4096 * k" using assms(1) by (auto simp: page_aligned_unat)
  then have "k < 1048576" using unat_less_4G [of b] by simp
  then have "unat b + 4 * i < 4294967296" using assms(2) k by simp
  moreover have "unat (4 * of_nat i :: u32) = 4 * i"
    using assms by (simp add: unat_word_ariths unat_of_nat)
  ultimately show ?thesis
    by (simp add: unat_word_ariths(1))
qed

lemma page_base_alt: "page_base a = push_bit 12 (drop_bit 12 a)"
proof (rule bit_word_eqI)
  fix n assume "n < LENGTH(32)"
  have e: "(0xFFFFF000 :: u32) = NOT (mask 12)" by (simp add: mask_eq_exp_minus_1)
  show "bit (page_base a) n = bit (push_bit 12 (drop_bit 12 a)) n"
    unfolding page_base_def e using \<open>n < LENGTH(32)\<close> by (auto simp: bit_simps)
qed

lemma unat_page_base: "unat (page_base a) = 4096 * (unat a div 4096)"
proof -
  have "unat (page_base a) = (unat a div 4096 * 4096) mod 2 ^ 32"
    by (simp only: page_base_alt unsigned_push_bit_eq unat_drop_bit_eq)
      (simp add: take_bit_eq_mod push_bit_eq_mult drop_bit_eq_div)
  moreover have "unat a div 4096 * 4096 < 2 ^ 32"
    using unat_less_4G [of a] by (simp add: less_mult_imp_div_less)
  ultimately show ?thesis by simp
qed
lemma page_aligned_page_base [simp]: "page_aligned (page_base a)"
  by (simp add: page_aligned_unat unat_page_base)
lemma page_base_aligned: "page_aligned a \<Longrightarrow> page_base a = a"
  by (metis dvd_mult_div_cancel page_aligned_unat unat_page_base word_unat_eq_iff)
lemma page_base_add:
  assumes "page_aligned a" "unat w < 4096"
  shows "page_base (a OR w) = a"
proof -
  have "drop_bit 12 w = 0"
    by (rule word_unat_eq_iff [THEN iffD2]) (simp only: unat_drop_bit_eq, use assms in \<open>simp add: drop_bit_eq_div\<close>)
  then show ?thesis
    using page_base_aligned [OF assms(1)] by (simp add: page_base_alt drop_bit_or)
qed

lemma page_aligned_add: "page_aligned a \<Longrightarrow> page_aligned b \<Longrightarrow> page_aligned (a + b)"
  by (simp add: page_aligned_unat unat_word_ariths(1) dvd_mod)

lemma page_aligned_next: "page_aligned a \<Longrightarrow> page_aligned (a + 4096)"
  by (rule page_aligned_add) (simp_all add: page_aligned_def)

lemma unat_in_page:
  assumes "page_aligned p" "unat w < 4096"
  shows "unat (p + w) = unat p + unat w"
proof -
  obtain k where k: "unat p = 4096 * k" using assms(1) by (auto simp: page_aligned_unat)
  then have "k < 1048576" using unat_less_4G [of p] by simp
  then have "unat p + unat w < 4294967296" using assms(2) k by simp
  then show ?thesis by (simp add: unat_word_ariths(1))
qed

lemma page_base_in_page:
  assumes "page_aligned p" "unat w < 4096"
  shows "page_base (p + w) = p"
proof -
  obtain k where k: "unat p = 4096 * k" using assms(1) by (auto simp: page_aligned_unat)
  then have "unat (page_base (p + w)) = unat p"
    using assms by (simp add: unat_page_base unat_in_page)
  then show ?thesis by (simp only: word_unat_eq_iff)
qed

lemma aligned4_no_clash:
  assumes "4 dvd unat a" "4 dvd unat b" "a \<noteq> (b::addr)" "i < 4" "j < 4"
  shows "a + of_nat i \<noteq> b + of_nat j"
proof 
  have *: "unat (c + of_nat k :: u32) = unat c + k" if dv: "4 dvd unat c" and kl: "k < 4" for c :: u32 and k
  proof -
    obtain q where q: "unat c = 4 * q" using dv by (auto elim: dvdE)
    then have "q < 1073741824" using unat_less_4G [of c] by simp
    then have "unat c + k < 4294967296" using q kl by simp
    then show ?thesis by (simp add: unat_word_ariths unat_of_nat)
  qed
  assume "a + of_nat i = b + of_nat j"
  then have "unat a + i = unat b + j" using assms *[of a i] * [of b j] by simp
  moreover obtain x y where "unat a = 4 * x" "unat b = 4 * y" using assms by (auto elim!: dvdE)
  ultimately have "4 * x + i = 4 * y + j" by simp
  then have "x = y" using assms(4,5) by presburger
  then have "unat a = unat b" using \<open>unat a = 4 * x\<close> \<open>unat b = 4 * y\<close> by simp
  then show False using assms(3) by (simp only: word_unat_eq_iff)
qed

lemma load32_store32_other [ram_simps]:
  assumes "4 dvd unat a" "4 dvd unat b" "a \<noteq> b"
  shows "load32 (store32 m a v) b = load32 m b"
proof -
  have eq: "store32 m a v (b + of_nat j) = m (b + of_nat j)" if "j < 4" for j
    using aligned4_no_clash [OF assms, of 0 j] aligned4_no_clash [OF assms, of 1 j]
      aligned4_no_clash [OF assms, of 2 j] aligned4_no_clash [OF assms, of 3 j] that
    by (auto simp: store32_def)
  show ?thesis
    using eq [of 0] eq [of 1] eq [of 2] eq [of 3] by (simp add: load32_def)
qed
end
