(* ===== verification/CString.thy ===== *)
theory CString
  imports Prelude
begin

text \<open>
  The freestanding C library of the kernel: \<^verbatim>\<open>src/string/string.c\<close> and
  \<^verbatim>\<open>src/memory/memory.c\<close> over byte buffers.  A buffer argument is the list of the bytes of
  the object from the pointer on, so reading or writing past its end is \<open>None\<close>.  The lemmas
  relate each loop to the C string \<open>cstr\<close> a buffer holds.
\<close>

section \<open>memory.c on buffers\<close>

fun memset :: "cbuf \<Rightarrow> int \<Rightarrow> nat \<Rightarrow> cbuf option" where
  "memset ptr c 0 = Some ptr"
| "memset [] c (Suc n) = None"
| "memset (b # ptr) c (Suc n) = map_option (Cons (word_of_int c)) (memset ptr c n)"

text \<open>Bytes are compared as signed \<^verbatim>\<open>char\<close>; the first difference decides the sign.\<close>

fun memcmp :: "cbuf \<Rightarrow> cbuf \<Rightarrow> int \<Rightarrow> int option" where
  "memcmp (c1 # s1) (c2 # s2) count =
     (if count > 0 then
        if c1 \<noteq> c2 then Some (if sint c1 > sint c2 then -1 else 1)
        else memcmp s1 s2 (count - 1)
      else Some 0)"
| "memcmp [] s2 count = (if count > 0 then None else Some 0)"
| "memcmp (c1 # s1) [] count = (if count > 0 then None else Some 0)"

text \<open>The guard \<^verbatim>\<open>len--\<close> is a test against 0, so a negative length counts down through
  the whole 32-bit range.\<close>

fun memcpy :: "cbuf \<Rightarrow> cbuf \<Rightarrow> u32 \<Rightarrow> cbuf option" where
  "memcpy (d # dest) (s # src) len =
     (if len = 0 then Some (d # dest) else map_option (Cons s) (memcpy dest src (len - 1)))"
| "memcpy [] src len = (if len = 0 then Some [] else None)"
| "memcpy (d # dest) [] len = (if len = 0 then Some (d # dest) else None)"

section \<open>string.c\<close>

fun strlen :: "cbuf \<Rightarrow> nat option" where
  "strlen [] = None"
| "strlen (c # str) = (if c \<noteq> 0 then map_option Suc (strlen str) else Some 0)"

definition is_digit :: "byte \<Rightarrow> bool" where
  "is_digit ch \<longleftrightarrow> sint ch \<ge> 48 \<and> sint ch \<le> 57"

definition tolower :: "byte \<Rightarrow> byte" where
  "tolower ch = (if sint ch \<ge> 65 \<and> sint ch \<le> 90 then ch + 32 else ch)"

fun strcpy :: "cbuf \<Rightarrow> cbuf \<Rightarrow> cbuf option" where
  "strcpy dest [] = None"
| "strcpy [] (s # src) = None"
| "strcpy (d # dest) (s # src) =
     (if s \<noteq> 0 then map_option (Cons s) (strcpy dest src) else Some (0 # dest))"

fun strncmp :: "cbuf \<Rightarrow> cbuf \<Rightarrow> int \<Rightarrow> int option" where
  "strncmp (u1 # str1) (u2 # str2) n =
     (if n > 0 then
        if u1 \<noteq> u2 then Some (uint u1 - uint u2)
        else if u1 = 0 then Some 0
        else strncmp str1 str2 (n - 1)
      else Some 0)"
| "strncmp [] str2 n = (if n > 0 then None else Some 0)"
| "strncmp (u1 # str1) [] n = (if n > 0 then None else Some 0)"

fun strnlen_loop :: "cbuf \<Rightarrow> int \<Rightarrow> int \<Rightarrow> byte \<Rightarrow> int option" where
  "strnlen_loop [] i mx t = (if i < mx then None else Some i)"
| "strnlen_loop (c # str) i mx t =
     (if i < mx then if c = 0 \<or> c = t then Some i else strnlen_loop str (i + 1) mx t
      else Some i)"

definition strnlen_terminator :: "cbuf \<Rightarrow> int \<Rightarrow> byte \<Rightarrow> int option" where
  "strnlen_terminator str mx terminator = strnlen_loop str 0 mx terminator"

fun istrncmp :: "cbuf \<Rightarrow> cbuf \<Rightarrow> int \<Rightarrow> int option" where
  "istrncmp (u1 # s1) (u2 # s2) n =
     (if n > 0 then
        if u1 \<noteq> u2 \<and> tolower u1 \<noteq> tolower u2 then Some (uint u1 - uint u2)
        else if u1 = 0 then Some 0
        else istrncmp s1 s2 (n - 1)
      else Some 0)"
| "istrncmp [] s2 n = (if n > 0 then None else Some 0)"
| "istrncmp (u1 # s1) [] n = (if n > 0 then None else Some 0)"

text \<open>The loop of \<^verbatim>\<open>strncpy\<close> copies at most \<open>n = count - 1\<close> bytes, then ends the string.\<close>

fun strncpy_loop :: "cbuf \<Rightarrow> cbuf \<Rightarrow> nat \<Rightarrow> cbuf option" where
  "strncpy_loop [] src n = None"
| "strncpy_loop (d # dest) src 0 = Some (0 # dest)"
| "strncpy_loop (d # dest) [] (Suc n) = None"
| "strncpy_loop (d # dest) (s # src) (Suc n) =
     (if s = 0 then Some (0 # dest) else map_option (Cons s) (strncpy_loop dest src n))"

definition strncpy :: "cbuf \<Rightarrow> cbuf \<Rightarrow> int \<Rightarrow> cbuf option" where
  "strncpy dest src count = strncpy_loop dest src (nat (count - 1))"

section \<open>The C string a buffer holds\<close>

definition cstr :: "cbuf \<Rightarrow> cbuf" where
  "cstr s = takeWhile (\<lambda>c. c \<noteq> 0) s"

lemma cstr_simps [simp]:
  "cstr [] = []"
  "cstr (0 # s) = []"
  "c \<noteq> 0 \<Longrightarrow> cstr (c # s) = c # cstr s"
  by (simp_all add: cstr_def)

lemma cstr_nonzero: "c \<in> set (cstr s) \<Longrightarrow> c \<noteq> 0"
  by (auto simp: cstr_def dest: set_takeWhileD)

lemma cstr_terminated: "cstr (xs @ 0 # ys) = cstr xs"
  by (induction xs) (auto simp: cstr_def)

lemma cstr_append: "0 \<notin> set xs \<Longrightarrow> cstr (xs @ ys) = xs @ cstr ys"
  by (induction xs) (auto simp: cstr_def)

lemma strlen_eq: "strlen s = (if 0 \<in> set s then Some (length (cstr s)) else None)"
  by (induction s) (auto simp: cstr_def)

lemma cstr_split: "0 \<in> set s \<Longrightarrow> s = cstr s @ 0 # drop (Suc (length (cstr s))) s"
  by (induction s) (auto simp: cstr_def)

lemma memset_eq:
  "n \<le> length ptr \<Longrightarrow>
     memset ptr c n = Some (replicate n (word_of_int c) @ drop n ptr)"
  by (induction ptr c n rule: memset.induct) auto

lemma memset_overflow: "length ptr < n \<Longrightarrow> memset ptr c n = None"
  by (induction ptr c n rule: memset.induct) auto

lemma memcmp_zero_iff:
  "nat n \<le> length s1 \<Longrightarrow> nat n \<le> length s2 \<Longrightarrow>
     memcmp s1 s2 n = Some 0 \<longleftrightarrow> take (nat n) s1 = take (nat n) s2"
proof (induction s1 s2 n rule: memcmp.induct)
  case (1 c1 s1 c2 s2 count)
  show ?case
  proof (cases "count > 0")
    case True
    then have "nat count = Suc (nat (count - 1))" by simp
    with 1 True show ?thesis by auto
  qed simp
qed (auto split: if_splits)

lemma memcpy_eq:
  "unat len \<le> length dest \<Longrightarrow> unat len \<le> length src \<Longrightarrow>
     memcpy dest src len = Some (take (unat len) src @ drop (unat len) dest)"
proof (induction dest src len rule: memcpy.induct)
  case (1 d dest s src len)
  show ?case
  proof (cases "len = 0")
    case False
    then have "unat len = Suc (unat (len - 1))" by (simp add: unat_minus_one unat_gt_0)
    with 1 False show ?thesis by simp
  qed simp
qed (auto simp: unat_eq_zero)

lemma memcpy_overflow:
  "length dest < unat len \<or> length src < unat len \<Longrightarrow> memcpy dest src len = None"
proof (induction dest src len rule: memcpy.induct)
  case (1 d dest s src len)
  then have "len \<noteq> 0" by auto
  then have "unat len = Suc (unat (len - 1))" by (simp add: unat_minus_one unat_gt_0)
  with 1 \<open>len \<noteq> 0\<close> show ?case by simp
qed auto

lemma strcpy_eq:
  "0 \<in> set src \<Longrightarrow> length (cstr src) < length dest \<Longrightarrow>
     strcpy dest src = Some (cstr src @ 0 # drop (Suc (length (cstr src))) dest)"
  by (induction dest src rule: strcpy.induct) (auto simp: cstr_def)

lemma tolower_eq_0 [simp]: "tolower c = 0 \<longleftrightarrow> c = 0" "0 = tolower c \<longleftrightarrow> c = 0"
proof -
  have "c + 32 = 0 \<Longrightarrow> sint c = -32"
    by (simp add: add_eq_0_iff2)
  then have "tolower c = 0 \<longleftrightarrow> c = 0" by (auto simp: tolower_def)
  then show "tolower c = 0 \<longleftrightarrow> c = 0" "0 = tolower c \<longleftrightarrow> c = 0" by auto
qed

lemma tolower_0 [simp]: "tolower 0 = 0"
  by (simp add: tolower_def)

text \<open>Equality tests: the two strings agree up to \<open>n\<close> bytes, or up to their common end.\<close>

lemma strncmp_zero_iff:
  "0 \<in> set s1 \<Longrightarrow> 0 \<in> set s2 \<Longrightarrow>
     strncmp s1 s2 n = Some 0 \<longleftrightarrow> take (nat n) (cstr s1) = take (nat n) (cstr s2)"
proof (induction s1 s2 n rule: strncmp.induct)
  case (1 u1 s1 u2 s2 n)
  show ?case
  proof (cases "n > 0")
    case True
    then have n: "nat n = Suc (nat (n - 1))" by simp
    show ?thesis
      using 1 True by (cases "u1 = 0"; cases "u2 = 0") (auto simp: n uint_0_iff simp flip: word_uint_eq_iff)
  qed simp
qed auto

lemma istrncmp_zero_iff:
  assumes "0 \<in> set s1" "0 \<in> set s2"
  shows "istrncmp s1 s2 n = Some 0 \<longleftrightarrow>
     map tolower (take (nat n) (cstr s1)) = map tolower (take (nat n) (cstr s2))"
  using assms
proof (induction s1 s2 n rule: istrncmp.induct)
  case (1 u1 s1 u2 s2 n)
  show ?case
  proof (cases "n > 0")
    case True
    then have n: "nat n = Suc (nat (n - 1))" by simp
    show ?thesis
      using 1 True by (cases "u1 = 0"; cases "u2 = 0") (auto simp: n uint_0_iff simp flip: word_uint_eq_iff)
  qed simp
qed auto

lemma strncpy_loop_eq:
  "n < length dest \<Longrightarrow> 0 \<in> set src \<or> n \<le> length src \<Longrightarrow>
     strncpy_loop dest src n =
       Some (take n (cstr src) @ 0 # drop (Suc (min n (length (cstr src)))) dest)"
  by (induction dest src n rule: strncpy_loop.induct) (auto simp: cstr_def)

lemma strnlen_loop_eq:
  "0 \<in> set s \<or> mx - i \<le> int (length s) \<Longrightarrow> i \<le> mx \<Longrightarrow>
     strnlen_loop s i mx t =
       Some (i + int (length (takeWhile (\<lambda>c. c \<noteq> 0 \<and> c \<noteq> t) (take (nat (mx - i)) s))))"
proof (induction s arbitrary: i)
  case (Cons c s)
  show ?case
  proof (cases "i < mx")
    case True
    then have "nat (mx - i) = Suc (nat (mx - (i + 1)))" by simp
    then show ?thesis using Cons True by (auto split: if_splits)
  qed (use Cons.prems in auto)
qed auto

end
