(* ===== verification/Heap.thy ===== *)
theory Heap
  imports Prelude
begin

text \<open>
  The block allocator \<^verbatim>\<open>src/memory/heap/heap.c\<close>: a table with one byte per 4096-byte block,
  first-fit search, and the marks of an allocation's blocks.  The table is the list
  \<open>ht_entries\<close> of the \<open>ht_total\<close> bytes at \<open>ht_addr\<close>; writing outside of it is \<open>None\<close>.
\<close>

section \<open>State and constants (heap.h)\<close>

record heap_table =
  ht_addr :: addr
  ht_entries :: "byte list"
  ht_total :: nat

record heap =
  hp_table :: heap_table
  hp_start :: addr

definition HEAP_BLOCK_ENTRY_FREE :: byte where [simp]: "HEAP_BLOCK_ENTRY_FREE = 0x00"
definition HEAP_BLOCK_ENTRY_TAKEN :: byte where [simp]: "HEAP_BLOCK_ENTRY_TAKEN = 0x01"
definition HEAP_BLOCK_HAS_NEXT :: byte where [simp]: "HEAP_BLOCK_HAS_NEXT = 0x80"
definition HEAP_BLOCK_IS_FIRST :: byte where [simp]: "HEAP_BLOCK_IS_FIRST = 0x40"

abbreviation entries_of :: "heap \<Rightarrow> byte list" where
  "entries_of h \<equiv> ht_entries (hp_table h)"

definition set_entries :: "heap \<Rightarrow> byte list \<Rightarrow> heap" where
  "set_entries h es = h\<lparr>hp_table := (hp_table h)\<lparr>ht_entries := es\<rparr>\<rparr>"

section \<open>Operations (heap.c)\<close>

definition is_block_taken :: "byte \<Rightarrow> bool" where
  "is_block_taken entry \<longleftrightarrow> entry AND 0x01 \<noteq> 0"

definition is_block_next_exists :: "byte \<Rightarrow> bool" where
  "is_block_next_exists entry \<longleftrightarrow> entry AND 0x80 \<noteq> 0"

definition heap_address_to_block :: "heap \<Rightarrow> addr \<Rightarrow> int" where
  "heap_address_to_block h address = sint (address - hp_start h) sdiv 4096"

definition heap_block_to_address :: "heap \<Rightarrow> int \<Rightarrow> addr" where
  "heap_block_to_address h block = hp_start h + word_of_int (block * 4096)"

definition heap_create :: "heap \<Rightarrow> addr \<Rightarrow> addr \<Rightarrow> u32 \<Rightarrow> int \<times> heap" where
  "heap_create h table_start_addr heap_start_addr heap_size =
     (if heap_start_addr mod RASOS_HEAP_BLOCK_SIZE \<noteq> 0 then (- EINVARG, h)
      else if heap_size mod RASOS_HEAP_BLOCK_SIZE \<noteq> 0 then (- EINVARG, h)
      else let n_blocks = unat (heap_size div RASOS_HEAP_BLOCK_SIZE) in
        (0, h\<lparr>hp_table := \<lparr>ht_addr = table_start_addr,
                ht_entries = replicate n_blocks HEAP_BLOCK_ENTRY_FREE, ht_total = n_blocks\<rparr>,
              hp_start := heap_start_addr\<rparr>))"

definition heap_size_ceiling :: "u32 \<Rightarrow> u32" where
  "heap_size_ceiling heap_size =
     (if heap_size mod RASOS_HEAP_BLOCK_SIZE = 0 then heap_size
      else (heap_size - heap_size mod RASOS_HEAP_BLOCK_SIZE) + RASOS_HEAP_BLOCK_SIZE)"

text \<open>The search loop, from block \<open>i\<close> on the rest of the table.\<close>

fun get_start_loop :: "byte list \<Rightarrow> u32 \<Rightarrow> int \<Rightarrow> int \<Rightarrow> int \<Rightarrow> int" where
  "get_start_loop [] total_blocks i block_count block_start_index = - ENOMEM"
| "get_start_loop (e # es) total_blocks i block_count block_start_index =
     (if is_block_taken e then get_start_loop es total_blocks (i + 1) 0 (- 1)
      else
        let block_start_index' = (if block_start_index = - 1 then i else block_start_index);
            block_count' = block_count + 1
        in if block_count' = uint total_blocks then block_start_index'
           else get_start_loop es total_blocks (i + 1) block_count' block_start_index')"

definition heap_get_start_block :: "heap \<Rightarrow> u32 \<Rightarrow> int" where
  "heap_get_start_block h total_blocks =
     get_start_loop (take (ht_total (hp_table h)) (entries_of h)) total_blocks 0 0 (- 1)"

text \<open>The marking loop writes \<open>entry\<close> at \<open>i\<close> and computes the next block's entry.\<close>

function mark_taken_loop :: "byte list \<Rightarrow> int \<Rightarrow> int \<Rightarrow> byte \<Rightarrow> byte list option" where
  "mark_taken_loop es i end_block entry =
     (if i \<le> end_block then
        if 0 \<le> i \<and> i < int (length es) then
          mark_taken_loop (es[nat i := entry]) (i + 1) end_block
            (if i \<noteq> end_block - 1 then HEAP_BLOCK_ENTRY_TAKEN OR HEAP_BLOCK_HAS_NEXT
             else HEAP_BLOCK_ENTRY_TAKEN)
        else None
      else Some es)"
  by pat_completeness auto
termination
  by (relation "measure (\<lambda>(es, i, e, entry). nat (e + 1 - i))") auto

declare mark_taken_loop.simps [simp del]

definition heap_mark_blocks_taken :: "heap \<Rightarrow> int \<Rightarrow> int \<Rightarrow> heap option" where
  "heap_mark_blocks_taken h start_block total_blocks =
     (let end_block = start_block + total_blocks - 1;
          entry = HEAP_BLOCK_ENTRY_TAKEN OR HEAP_BLOCK_IS_FIRST;
          entry = (if total_blocks > 1 then entry OR HEAP_BLOCK_HAS_NEXT else entry)
      in map_option (set_entries h)
           (mark_taken_loop (entries_of h) start_block end_block entry))"

definition heap_malloc_blocks :: "heap \<Rightarrow> u32 \<Rightarrow> (addr \<times> heap) option" where
  "heap_malloc_blocks h total_blocks =
     (let start_block = heap_get_start_block h total_blocks in
      if start_block < 0 then Some (0, h)
      else map_option (\<lambda>h'. (heap_block_to_address h' start_block, h'))
             (heap_mark_blocks_taken h start_block (uint total_blocks)))"

definition heap_malloc :: "heap \<Rightarrow> u32 \<Rightarrow> (addr \<times> heap) option" where
  "heap_malloc h n =
     (let aligned_size = heap_size_ceiling n;
          total_blocks = aligned_size div RASOS_HEAP_BLOCK_SIZE
      in heap_malloc_blocks h total_blocks)"

text \<open>
  The freeing loop stores FREE and then tests the entry it has just stored, as the source
  does.
\<close>

function mark_free_loop :: "byte list \<Rightarrow> int \<Rightarrow> int \<Rightarrow> byte list option" where
  "mark_free_loop es i tot =
     (if i < tot then
        if 0 \<le> i \<and> i < int (length es) then
          let es' = es[nat i := HEAP_BLOCK_ENTRY_FREE] in
          if \<not> is_block_next_exists (es' ! nat i) then Some es'
          else mark_free_loop es' (i + 1) tot
        else None
      else Some es)"
  by pat_completeness auto
termination
  by (relation "measure (\<lambda>(es, i, tot). nat (tot - i))") auto

declare mark_free_loop.simps [simp del]

definition heap_mark_blocks_free :: "heap \<Rightarrow> int \<Rightarrow> heap option" where
  "heap_mark_blocks_free h starting_block =
     map_option (set_entries h)
       (mark_free_loop (entries_of h) starting_block (int (ht_total (hp_table h))))"

definition heap_free :: "heap \<Rightarrow> addr \<Rightarrow> heap option" where
  "heap_free h ptr = heap_mark_blocks_free h (heap_address_to_block h ptr)"

lemma set_entries_simps [simp]:
  "entries_of (set_entries h es) = es"
  "ht_total (hp_table (set_entries h es)) = ht_total (hp_table h)"
  "hp_start (set_entries h es) = hp_start h"
  "set_entries (set_entries h es) fs = set_entries h fs"
  "set_entries h (entries_of h) = h"
  by (simp_all add: set_entries_def)

section \<open>Reference: first fit over the table\<close>

definition free_run :: "byte list \<Rightarrow> nat \<Rightarrow> nat \<Rightarrow> bool" where
  "free_run es s n \<longleftrightarrow> s + n \<le> length es \<and> (\<forall>j<n. \<not> is_block_taken (es ! (s + j)))"

definition first_fit :: "byte list \<Rightarrow> nat \<Rightarrow> nat option" where
  "first_fit es n = (if n = 0 then None else find (\<lambda>s. free_run es s n) [0..<length es])"

lemma first_fit_Some_iff:
  "first_fit es n = Some s \<longleftrightarrow> 0 < n \<and> free_run es s n \<and> (\<forall>t < s. \<not> free_run es t n)"
proof -
  have "s < length es" if "0 < n" "free_run es s n" using that by (auto simp: free_run_def)
  then show ?thesis
    by (auto simp: first_fit_def find_Some_iff)
qed

lemma first_fit_None_iff: "first_fit es n = None \<longleftrightarrow> n = 0 \<or> (\<forall>s. \<not> free_run es s n)"
proof -
  have "s < length es" if "0 < n" "free_run es s n" for s using that by (auto simp: free_run_def)
  then show ?thesis
    by (auto simp: first_fit_def find_None_iff)
qed

lemma free_run_snoc_taken:
  "is_block_taken e \<Longrightarrow> 0 < n \<Longrightarrow> free_run (pre @ e # es) s n \<Longrightarrow>
     s + n \<le> Suc (length pre) \<Longrightarrow> s + n \<le> length pre"
proof (rule ccontr)
  assume a: "is_block_taken e" "0 < n" "free_run (pre @ e # es) s n"
    and "s + n \<le> Suc (length pre)" "\<not> s + n \<le> length pre"
  then have "s + (n - 1) = length pre" by simp
  with a have "\<not> is_block_taken ((pre @ e # es) ! length pre)"
    by (metis diff_less free_run_def zero_less_one)
  then show False using a by simp
qed


text \<open>
  The search loop in the middle of the table: \<open>pre\<close> is scanned, its last \<open>cnt\<close> entries
  are free and the one before them is taken, and no run of \<open>n\<close> blocks lies inside \<open>pre\<close>.
\<close>

lemma get_start_loop_spec:
  assumes "uint nb = int n" "0 < n" "cnt < n" "cnt \<le> length pre"
    and "free_run (pre @ es) (length pre - cnt) cnt"
    and "cnt < length pre \<Longrightarrow> is_block_taken (pre ! (length pre - cnt - 1))"
    and "\<And>s. s + n \<le> length pre \<Longrightarrow> \<not> free_run (pre @ es) s n"
    and "st = (if cnt = 0 then - 1 else int (length pre) - int cnt)"
  shows "get_start_loop es nb (int (length pre)) (int cnt) st =
     (case first_fit (pre @ es) n of None \<Rightarrow> - ENOMEM | Some s \<Rightarrow> int s)"
  using assms
proof (induction es arbitrary: pre cnt st)
  case Nil
  then have "first_fit (pre @ []) n = None"
    by (auto simp: first_fit_None_iff free_run_def)
  then show ?case by simp
next
  case (Cons e es)
  let ?pre = "pre @ [e]"
  show ?case
  proof (cases "is_block_taken e")
    case True
    have "get_start_loop es nb (int (length ?pre)) (int 0) (- 1) =
       (case first_fit (?pre @ es) n of None \<Rightarrow> - ENOMEM | Some s \<Rightarrow> int s)"
    proof (rule Cons.IH)
      show "\<not> free_run (?pre @ es) s n" if "s + n \<le> length ?pre" for s
        using Cons.prems(2,7) free_run_snoc_taken [OF True, of n pre es s] that by auto
    qed (use Cons.prems True in \<open>auto simp: free_run_def\<close>)
    with True show ?thesis by (simp add: ac_simps)
  next
    case False
    have run: "free_run (?pre @ es) (length pre - cnt) (Suc cnt)"
      using Cons.prems(4,5) False by (auto simp: free_run_def less_Suc_eq)
    have earlier: "\<not> free_run (?pre @ es) s n"
      if "s + n \<le> Suc (length pre)" "s < length pre - cnt" for s
    proof
      assume r: "free_run (?pre @ es) s n"
      have lt: "cnt < length pre" "length pre - Suc cnt < length pre" using that by simp_all
      then have t: "is_block_taken ((?pre @ es) ! (length pre - cnt - 1))"
        using Cons.prems(6) by (simp add: nth_append)
      show False
      proof (cases "s + n \<le> length pre")
        case True
        with Cons.prems(7) r show False by simp
      next
        case False
        with that Cons.prems(3) lt(1) have "length pre - cnt - 1 - s < n" "s \<le> length pre - cnt - 1"
          by simp_all
        with r t show False by (metis free_run_def le_add_diff_inverse)
      qed
    qed
    show ?thesis
    proof (cases "Suc cnt = n")
      case True
      have "first_fit (?pre @ es) n = Some (length pre - cnt)"
        unfolding first_fit_Some_iff
        using run earlier True Cons.prems(2,4) by auto
      with False True Cons.prems(1,4,8) show ?thesis by (auto simp: Let_def of_nat_diff)
    next
      case ne: False
      have "get_start_loop es nb (int (length ?pre)) (int (Suc cnt)) (int (length ?pre) - int (Suc cnt)) =
       (case first_fit (?pre @ es) n of None \<Rightarrow> - ENOMEM | Some s \<Rightarrow> int s)"
      proof (rule Cons.IH)
        show "free_run (?pre @ es) (length ?pre - Suc cnt) (Suc cnt)" using run by simp
        show "is_block_taken (?pre ! (length ?pre - Suc cnt - 1))" if "Suc cnt < length ?pre"
        proof -
          have "length pre - Suc cnt < length pre" "cnt < length pre" using that by auto
          with Cons.prems(6) show ?thesis by (simp add: nth_append)
        qed
        show "\<not> free_run (?pre @ es) s n" if "s + n \<le> length ?pre" for s
          using earlier [of s] that ne Cons.prems(3) by simp
      qed (use Cons.prems ne in auto)
      with False ne Cons.prems(1,4,8) show ?thesis
        by (auto simp: Let_def algebra_simps)
    qed
  qed
qed

lemma get_start_loop_zero: "uint nb = 0 \<Longrightarrow> 0 \<le> cnt \<Longrightarrow> get_start_loop es nb i cnt st = - ENOMEM"
  by (induction es nb i cnt st rule: get_start_loop.induct) (auto simp: Let_def)

lemma heap_get_start_block_eq:
  assumes "ht_total (hp_table h) = length (entries_of h)"
  shows "heap_get_start_block h nb =
     (case first_fit (entries_of h) (unat nb) of None \<Rightarrow> - ENOMEM | Some s \<Rightarrow> int s)"
proof (cases "nb = 0")
  case True
  then show ?thesis by (simp add: heap_get_start_block_def get_start_loop_zero first_fit_def)
next
  case False
  then show ?thesis
    using get_start_loop_spec [of nb "unat nb" 0 "[]" "entries_of h" "- 1"] assms
    by (simp add: heap_get_start_block_def free_run_def unat_gt_0 unat_eq_zero)
qed

section \<open>The marks of an allocation\<close>

text \<open>The entry of the \<open>j\<close>-th of \<open>n\<close> blocks, and the table with a run of them marked.\<close>

definition block_mark :: "nat \<Rightarrow> nat \<Rightarrow> byte" where
  "block_mark n j = HEAP_BLOCK_ENTRY_TAKEN
     OR (if j = 0 then HEAP_BLOCK_IS_FIRST else 0) OR (if Suc j < n then HEAP_BLOCK_HAS_NEXT else 0)"

definition mark_run :: "byte list \<Rightarrow> nat \<Rightarrow> nat \<Rightarrow> byte list" where
  "mark_run es s n = map (\<lambda>j. if s \<le> j \<and> j < s + n then block_mark n (j - s) else es ! j) [0..<length es]"

lemma is_block_taken_mark [simp]: "is_block_taken (block_mark n j)"
  by (simp add: is_block_taken_def block_mark_def)

lemma length_mark_run [simp]: "length (mark_run es s n) = length es"
  by (simp add: mark_run_def)

lemma nth_mark_run:
  "j < length es \<Longrightarrow> mark_run es s n ! j =
     (if s \<le> j \<and> j < s + n then block_mark n (j - s) else es ! j)"
  by (simp add: mark_run_def)

lemma mark_taken_loop_spec:
  assumes "i \<le> Suc e" "e < length es"
  shows "\<exists>fs. mark_taken_loop es (int i) (int e) entry = Some fs \<and> length fs = length es \<and>
     (\<forall>j < length es. fs ! j =
        (if i = j \<and> i \<le> e then entry
         else if i < j \<and> j \<le> e then 0x01 OR (if j \<noteq> e then 0x80 else 0) else es ! j))"
  using assms
proof (induction "Suc e - i" arbitrary: es i entry)
  case 0
  then show ?case by (auto simp: mark_taken_loop.simps)
next
  case (Suc d)
  let ?next = "if int i \<noteq> int e - 1 then HEAP_BLOCK_ENTRY_TAKEN OR HEAP_BLOCK_HAS_NEXT
             else HEAP_BLOCK_ENTRY_TAKEN"
  from Suc.hyps(2) Suc.prems have ie: "i \<le> e" "i < length es" by simp_all
  have "\<exists>fs. mark_taken_loop (es[i := entry]) (int (Suc i)) (int e) ?next = Some fs \<and>
     length fs = length (es[i := entry]) \<and> (\<forall>j < length (es[i := entry]). fs ! j =
        (if Suc i = j \<and> Suc i \<le> e then ?next
         else if Suc i < j \<and> j \<le> e then 0x01 OR (if j \<noteq> e then 0x80 else 0) else es[i := entry] ! j))"
    by (rule Suc.hyps(1)) (use Suc.hyps(2) Suc.prems ie in auto)
  then obtain fs where fs: "mark_taken_loop (es[i := entry]) (int i + 1) (int e) ?next = Some fs"
    "length fs = length es"
    and nth: "\<And>j. j < length es \<Longrightarrow> fs ! j =
        (if Suc i = j \<and> Suc i \<le> e then ?next
         else if Suc i < j \<and> j \<le> e then 0x01 OR (if j \<noteq> e then 0x80 else 0) else es[i := entry] ! j)"
    by (auto simp: algebra_simps)
  have "fs ! j = (if i = j \<and> i \<le> e then entry
         else if i < j \<and> j \<le> e then 0x01 OR (if j \<noteq> e then 0x80 else 0) else es ! j)"
    if "j < length es" for j
    using nth [OF that] ie by (auto simp: nth_list_update)
  with fs ie show ?case
    by (subst mark_taken_loop.simps) simp
qed

lemma heap_mark_blocks_taken_eq:
  assumes "0 < n" "s + n \<le> length (entries_of h)"
  shows "heap_mark_blocks_taken h (int s) (int n) = Some (set_entries h (mark_run (entries_of h) s n))"
proof -
  let ?es = "entries_of h"
  let ?f = "HEAP_BLOCK_ENTRY_TAKEN OR HEAP_BLOCK_IS_FIRST"
  let ?e = "if int n > 1 then ?f OR HEAP_BLOCK_HAS_NEXT else ?f"
  have e: "s \<le> Suc (s + n - 1)" "s + n - 1 < length ?es" using assms by simp_all
  obtain fs where fs: "mark_taken_loop ?es (int s) (int (s + n - 1)) ?e = Some fs"
    "length fs = length ?es"
    and nth: "\<And>j. j < length ?es \<Longrightarrow> fs ! j =
        (if s = j \<and> s \<le> s + n - 1 then ?e
         else if s < j \<and> j \<le> s + n - 1 then 0x01 OR (if j \<noteq> s + n - 1 then 0x80 else 0) else ?es ! j)"
    using mark_taken_loop_spec [OF e, of ?e] by blast
  have "fs = mark_run ?es s n"
  proof (rule nth_equalityI)
    fix j assume "j < length fs"
    with fs(2) have j: "j < length ?es" by simp
    show "fs ! j = mark_run ?es s n ! j"
      unfolding nth [OF j] nth_mark_run [OF j] using assms(1) by (auto simp: block_mark_def)
  qed (simp add: fs)
  with fs(1) have "mark_taken_loop ?es (int s) (int (s + n - 1)) ?e = Some (mark_run ?es s n)"
    by (simp only:)
  moreover have "int s + int n - 1 = int (s + n - 1)" using assms(1) by simp
  ultimately show ?thesis
    unfolding heap_mark_blocks_taken_def Let_def by (simp only: option.map)
qed


section \<open>Well-formed heaps\<close>

text \<open>
  The table has its \<open>ht_total\<close> bytes and the area it manages starts at a non-zero block
  boundary and ends below 2 GiB, so the signed difference of \<^verbatim>\<open>heap_address_to_block\<close> is exact.
\<close>

definition heap_wf :: "heap \<Rightarrow> bool" where
  "heap_wf h \<longleftrightarrow> ht_total (hp_table h) = length (entries_of h) \<and> page_aligned (hp_start h)
     \<and> 0 < unat (hp_start h) \<and> unat (hp_start h) + 4096 * length (entries_of h) \<le> 2147483648"

definition block_addr :: "heap \<Rightarrow> nat \<Rightarrow> addr" where
  "block_addr h s = hp_start h + 4096 * of_nat s"

lemma heap_wf_set_entries [simp]:
  "length es = length (entries_of h) \<Longrightarrow> heap_wf (set_entries h es) = heap_wf h"
  by (simp add: heap_wf_def)

lemma block_addr_set_entries [simp]: "block_addr (set_entries h es) = block_addr h"
  by (simp add: block_addr_def fun_eq_iff)

lemma heap_block_to_address_eq: "heap_block_to_address h (int s) = block_addr h s"
  by (simp add: heap_block_to_address_def block_addr_def ac_simps)

lemma unat_block_addr:
  assumes "heap_wf h" "s \<le> length (entries_of h)"
  shows "unat (block_addr h s) = unat (hp_start h) + 4096 * s"
proof -
  have b: "unat (hp_start h) + 4096 * s < 4294967296"
    using assms by (auto simp: heap_wf_def)
  then have "unat (4096 * of_nat s :: u32) = 4096 * s"
    by (simp add: unat_word_ariths unat_of_nat)
  with b show ?thesis
    by (simp add: block_addr_def unat_word_ariths(1))
qed

lemma page_aligned_block_addr: "heap_wf h \<Longrightarrow> s \<le> length (entries_of h) \<Longrightarrow> page_aligned (block_addr h s)"
  by (simp add: page_aligned_unat unat_block_addr) (simp add: heap_wf_def page_aligned_unat)

lemma block_addr_nonzero: "heap_wf h \<Longrightarrow> s \<le> length (entries_of h) \<Longrightarrow> block_addr h s \<noteq> 0"
  using unat_block_addr [of h s] by (auto simp: heap_wf_def)

lemma block_addr_inject:
  assumes "heap_wf h" "s \<le> length (entries_of h)" "t \<le> length (entries_of h)"
  shows "block_addr h s = block_addr h t \<longleftrightarrow> s = t"
proof
  assume "block_addr h s = block_addr h t"
  then have "unat (block_addr h s) = unat (block_addr h t)" by (simp only:)
  then have "unat (hp_start h) + 4096 * s = unat (hp_start h) + 4096 * t"
    by (simp only: unat_block_addr [OF assms(1,2)] unat_block_addr [OF assms(1,3)])
  then show "s = t" by simp
qed simp

lemma heap_address_to_block_eq:
  assumes "heap_wf h" "s < length (entries_of h)"
  shows "heap_address_to_block h (block_addr h s) = int s"
proof -
  have "4096 * s < 2147483648" using assms by (auto simp: heap_wf_def)
  then have "unat (4096 * of_nat s :: u32) = 4096 * s"
    by (simp add: unat_word_ariths unat_of_nat)
  then have "uint (4096 * of_nat s :: u32) = 4096 * int s"
    by (simp only: uint_nat of_nat_mult of_nat_numeral)
  with \<open>4096 * s < 2147483648\<close> have "sint (4096 * of_nat s :: u32) = 4096 * int s"
    by (simp add: sint_uint signed_take_bit_int_eq_self)
  then show ?thesis
    by (simp add: heap_address_to_block_def block_addr_def signed_divide_int_def sgn_if)
qed

section \<open>Sizes\<close>

definition nblocks :: "u32 \<Rightarrow> nat" where
  "nblocks n = unat (heap_size_ceiling n div RASOS_HEAP_BLOCK_SIZE)"

text \<open>Rounding up; a size within 4095 bytes of 4 GiB wraps to 0.\<close>

lemma nblocks_eq:
  "nblocks n = (if unat n \<le> 4294963200 then (unat n + 4095) div 4096 else 0)"
proof -
  let ?k = "unat n"
  have m: "unat (n mod 4096) = ?k mod 4096" by (simp add: unat_mod_distrib)
  have d: "unat (n - n mod 4096) = ?k - ?k mod 4096"
    using m by (simp add: unat_sub word_le_nat_alt m del: unat_mod_distrib)
  have p: "unat (n - n mod 4096 + 4096) = (?k - ?k mod 4096 + 4096) mod 4294967296"
    by (simp add: unat_word_ariths(1) d)
  have z: "n mod 4096 = 0 \<longleftrightarrow> ?k mod 4096 = 0"
    using m by (metis unat_eq_zero)
  have c: "unat (heap_size_ceiling n) =
      (if ?k mod 4096 = 0 then ?k else (?k - ?k mod 4096 + 4096) mod 4294967296)"
    by (simp add: heap_size_ceiling_def z p)
  have "nblocks n = unat (heap_size_ceiling n) div 4096"
    by (simp add: nblocks_def unat_div_distrib)
  moreover obtain q r where qr: "?k = 4096 * q + r" "r < 4096"
    by (metis mod_less_divisor mult_div_mod_eq zero_less_numeral)
  moreover have "?k < 4294967296" by simp
  then have "q < 1048576" using qr by simp
  moreover have "(4096 * q + 4096) mod 4294967296 div 4096 = (if q < 1048575 then Suc q else 0)"
    using \<open>q < 1048576\<close> by (cases "q = 1048575") auto
  ultimately show ?thesis unfolding c by (auto simp: div_mult_self3)
qed

section \<open>What malloc and free compute\<close>

lemma heap_malloc_eq:
  assumes "heap_wf h"
  shows "heap_malloc h n =
     (case first_fit (entries_of h) (nblocks n) of
        None \<Rightarrow> Some (0, h)
      | Some s \<Rightarrow> Some (block_addr h s, set_entries h (mark_run (entries_of h) s (nblocks n))))"
proof -
  let ?nb = "heap_size_ceiling n div 4096"
  have nb: "nblocks n = unat ?nb" by (simp add: nblocks_def)
  have start: "heap_get_start_block h ?nb =
     (case first_fit (entries_of h) (nblocks n) of None \<Rightarrow> - ENOMEM | Some s \<Rightarrow> int s)"
    using assms by (simp only: heap_get_start_block_eq heap_wf_def nb)
  show ?thesis
  proof (cases "first_fit (entries_of h) (nblocks n)")
    case None
    then show ?thesis by (simp add: heap_malloc_def heap_malloc_blocks_def start)
  next
    case (Some s)
    then have "0 < nblocks n" "s + nblocks n \<le> length (entries_of h)"
      by (auto simp: first_fit_Some_iff free_run_def)
    then have "heap_mark_blocks_taken h (int s) (uint ?nb) =
        Some (set_entries h (mark_run (entries_of h) s (nblocks n)))"
      by (simp only: uint_nat flip: nb) (rule heap_mark_blocks_taken_eq)
    then show ?thesis
      using Some
      by (simp add: heap_malloc_def heap_malloc_blocks_def start heap_block_to_address_eq)
  qed
qed

text \<open>
  The entry tested by the freeing loop is the one just set to FREE, so the loop stops after
  its first store.
\<close>

lemma mark_free_loop_eq:
  "mark_free_loop es i tot =
     (if i < tot then if 0 \<le> i \<and> i < int (length es) then Some (es[nat i := 0]) else None
      else Some es)"
  by (subst mark_free_loop.simps) (auto simp: Let_def is_block_next_exists_def)

lemma heap_free_eq:
  assumes "heap_wf h" "s < length (entries_of h)"
  shows "heap_free h (block_addr h s) = Some (set_entries h ((entries_of h)[s := 0]))"
  using assms
  by (simp add: heap_free_def heap_mark_blocks_free_def heap_address_to_block_eq mark_free_loop_eq)
     (simp add: heap_wf_def)

lemma heap_malloc_wf: "heap_wf h \<Longrightarrow> heap_malloc h n = Some (p, h') \<Longrightarrow> heap_wf h'"
  by (auto simp: heap_malloc_eq split: option.splits)

lemma heap_free_wf: "heap_wf h \<Longrightarrow> heap_free h p = Some h' \<Longrightarrow> heap_wf h'"
  by (auto simp: heap_free_def heap_mark_blocks_free_def mark_free_loop_eq split: if_splits)

section \<open>Blocks in use\<close>

definition taken_blocks :: "heap \<Rightarrow> nat set" where
  "taken_blocks h = {s. s < length (entries_of h) \<and> is_block_taken (entries_of h ! s)}"

definition free_count :: "heap \<Rightarrow> nat" where
  "free_count h = length (filter (\<lambda>e. \<not> is_block_taken e) (entries_of h))"

lemma finite_taken_blocks [simp]: "finite (taken_blocks h)"
  by (simp add: taken_blocks_def)

lemma is_block_taken_0 [simp]: "\<not> is_block_taken 0"
  by (simp add: is_block_taken_def)

lemma taken_blocks_mark_run:
  "s + n \<le> length (entries_of h) \<Longrightarrow>
     taken_blocks (set_entries h (mark_run (entries_of h) s n)) = taken_blocks h \<union> {s..<s + n}"
  by (auto simp: taken_blocks_def nth_mark_run)

lemma taken_blocks_release:
  "taken_blocks (set_entries h ((entries_of h)[s := 0])) = taken_blocks h - {s}"
  by (cases "s < length (entries_of h)")
     (auto simp: taken_blocks_def nth_list_update list_update_beyond split: if_splits)

lemma free_run_disjoint: "free_run (entries_of h) s n \<Longrightarrow> taken_blocks h \<inter> {s..<s + n} = {}"
  by (auto simp: taken_blocks_def free_run_def) (metis add_diff_inverse_nat less_diff_conv2 linorder_not_less nat_add_left_cancel_less)

lemma free_count_card: "free_count h + card (taken_blocks h) = length (entries_of h)"
proof -
  have "free_count h = card {i. i < length (entries_of h) \<and> \<not> is_block_taken (entries_of h ! i)}"
    by (simp add: free_count_def length_filter_conv_card)
  moreover have "{..<length (entries_of h)} =
      {i. i < length (entries_of h) \<and> \<not> is_block_taken (entries_of h ! i)} \<union> taken_blocks h"
    by (auto simp: taken_blocks_def)
  then have "card {..<length (entries_of h)} =
      card ({i. i < length (entries_of h) \<and> \<not> is_block_taken (entries_of h ! i)} \<union> taken_blocks h)"
    by simp
  ultimately show ?thesis
    by (subst (asm) card_Un_disjoint) (auto simp: taken_blocks_def)
qed

text \<open>A request of at most one block is served whenever a block is free.\<close>

lemma first_fit_one:
  "first_fit (entries_of h) (Suc 0) = None \<longleftrightarrow> free_count h = 0"
  by (auto simp: first_fit_None_iff free_run_def free_count_def filter_empty_conv all_set_conv_all_nth
      Suc_le_eq)


section \<open>Abstract specification: the live allocations\<close>

text \<open>
  \<open>live s = Some n\<close> says that the \<open>n\<close> blocks from \<open>s\<close> on were handed out and not
  freed.  The table represents it when these runs lie inside the table, are marked taken and
  do not overlap; blocks outside of every run may still be marked taken.
\<close>

type_synonym live_map = "nat \<rightharpoonup> nat"

definition heap_rep :: "heap \<Rightarrow> live_map \<Rightarrow> bool" where
  "heap_rep h live \<longleftrightarrow> heap_wf h
     \<and> (\<forall>s n. live s = Some n \<longrightarrow> 0 < n \<and> s + n \<le> length (entries_of h) \<and> {s..<s + n} \<subseteq> taken_blocks h)
     \<and> (\<forall>s n t k. live s = Some n \<longrightarrow> live t = Some k \<longrightarrow> s \<noteq> t \<longrightarrow> {s..<s + n} \<inter> {t..<t + k} = {})"

lemma heap_rep_wf: "heap_rep h live \<Longrightarrow> heap_wf h"
  by (simp add: heap_rep_def)

lemma heap_rep_run:
  "heap_rep h live \<Longrightarrow> live s = Some n \<Longrightarrow>
     0 < n \<and> s + n \<le> length (entries_of h) \<and> {s..<s + n} \<subseteq> taken_blocks h"
  by (auto simp: heap_rep_def)

lemma heap_rep_disjoint:
  "heap_rep h live \<Longrightarrow> live s = Some n \<Longrightarrow> live t = Some k \<Longrightarrow> s \<noteq> t \<Longrightarrow>
     {s..<s + n} \<inter> {t..<t + k} = {}"
  unfolding heap_rep_def by blast

lemma heap_rep_malloc:
  assumes rep: "heap_rep h live" and fit: "first_fit (entries_of h) n = Some s"
  shows "heap_rep (set_entries h (mark_run (entries_of h) s n)) (live(s \<mapsto> n))"
proof -
  let ?h' = "set_entries h (mark_run (entries_of h) s n)"
  from fit have n: "0 < n" "s + n \<le> length (entries_of h)" and free: "free_run (entries_of h) s n"
    by (auto simp: first_fit_Some_iff free_run_def)
  have tb: "taken_blocks ?h' = taken_blocks h \<union> {s..<s + n}"
    using n(2) by (rule taken_blocks_mark_run)
  have fresh: "{s..<s + n} \<inter> {t..<t + k} = {}" if "live t = Some k" for t k
    using heap_rep_run [OF rep that] free_run_disjoint [OF free] by blast
  show ?thesis
    unfolding heap_rep_def
  proof (intro conjI allI impI)
    show "heap_wf ?h'" using heap_rep_wf [OF rep] by simp
  next
    fix t k assume "(live(s \<mapsto> n)) t = Some k"
    then show "0 < k" "t + k \<le> length (entries_of ?h')" "{t..<t + k} \<subseteq> taken_blocks ?h'"
      using n heap_rep_run [OF rep, of t k] by (auto simp: tb split: if_splits)
  next
    fix t k u l assume "(live(s \<mapsto> n)) t = Some k" "(live(s \<mapsto> n)) u = Some l" "t \<noteq> u"
    then show "{t..<t + k} \<inter> {u..<u + l} = {}"
      using fresh [of t k] fresh [of u l] heap_rep_disjoint [OF rep, of t k u l]
      by (simp split: if_splits) (metis Int_commute)
  qed
qed

lemma heap_rep_free:
  assumes rep: "heap_rep h live" and s: "live s = Some n"
  shows "heap_rep (set_entries h ((entries_of h)[s := 0])) (live(s := None))"
proof -
  let ?h' = "set_entries h ((entries_of h)[s := 0])"
  have keep: "{t..<t + k} \<subseteq> taken_blocks ?h'" if "live t = Some k" "t \<noteq> s" for t k
    using heap_rep_run [OF rep that(1)] heap_rep_run [OF rep s] heap_rep_disjoint [OF rep that(1) s that(2)]
    by (auto simp: taken_blocks_release)
  show ?thesis
    unfolding heap_rep_def
  proof (intro conjI allI impI)
    show "heap_wf ?h'" using heap_rep_wf [OF rep] by simp
  next
    fix t k assume "(live(s := None)) t = Some k"
    then show "0 < k" "t + k \<le> length (entries_of ?h')" "{t..<t + k} \<subseteq> taken_blocks ?h'"
      using heap_rep_run [OF rep, of t k] keep [of t k] by (auto split: if_splits)
  next
    fix t k u l assume "(live(s := None)) t = Some k" "(live(s := None)) u = Some l" "t \<noteq> u"
    then show "{t..<t + k} \<inter> {u..<u + l} = {}"
      using heap_rep_disjoint [OF rep, of t k u l] by (auto split: if_splits)
  qed
qed

section \<open>Every sequence of calls\<close>

text \<open>
  The states a client can bring the heap into: creation, any \<^verbatim>\<open>heap_malloc\<close>, and
  \<^verbatim>\<open>heap_free\<close> of a pointer that is live.  The map records what was handed out.
\<close>

inductive heap_step :: "heap \<times> live_map \<Rightarrow> heap \<times> live_map \<Rightarrow> bool" where
  malloc_ok: "heap_malloc h n = Some (block_addr h s, h') \<Longrightarrow> s < length (entries_of h) \<Longrightarrow>
     heap_step (h, live) (h', live(s \<mapsto> nblocks n))"
| malloc_fail: "heap_malloc h n = Some (0, h') \<Longrightarrow> heap_step (h, live) (h', live)"
| free: "live s = Some n \<Longrightarrow> heap_free h (block_addr h s) = Some h' \<Longrightarrow>
     heap_step (h, live) (h', live(s := None))"

inductive heap_reach :: "heap \<Rightarrow> heap \<times> live_map \<Rightarrow> bool" for h0 where
  start: "heap_reach h0 (h0, Map.empty)"
| step: "heap_reach h0 c \<Longrightarrow> heap_step c c' \<Longrightarrow> heap_reach h0 c'"

inductive_cases heap_stepE: "heap_step (h, live) c"

lemma heap_malloc_cases:
  assumes "heap_wf h" "heap_malloc h n = Some (p, h')"
  obtains (fail) "first_fit (entries_of h) (nblocks n) = None" "p = 0" "h' = h"
  | (ok) s where "first_fit (entries_of h) (nblocks n) = Some s" "p = block_addr h s" "p \<noteq> 0"
      "s + nblocks n \<le> length (entries_of h)" "0 < nblocks n"
      "h' = set_entries h (mark_run (entries_of h) s (nblocks n))"
proof (cases "first_fit (entries_of h) (nblocks n)")
  case None
  then have "p = 0" "h' = h" using assms(2) by (simp_all add: heap_malloc_eq [OF assms(1)])
  then show thesis by (rule fail [OF None])
next
  case (Some s)
  then have s: "0 < nblocks n" "s + nblocks n \<le> length (entries_of h)"
    by (auto simp: first_fit_Some_iff free_run_def)
  have p: "p = block_addr h s" "h' = set_entries h (mark_run (entries_of h) s (nblocks n))"
    using assms(2) by (simp_all add: heap_malloc_eq [OF assms(1)] Some)
  have "p \<noteq> 0" using block_addr_nonzero [OF assms(1), of s] s p(1) by simp
  then show thesis by (rule ok [OF Some p(1) _ s(2) s(1) p(2)])
qed

lemma heap_step_rep:
  assumes "heap_step (h, live) (h', live')" and rep: "heap_rep h live"
  shows "heap_rep h' live'"
proof -
  note wf = heap_rep_wf [OF rep]
  from assms(1) show ?thesis
  proof (cases rule: heap_step.cases)
    case (malloc_ok n s)
    from wf malloc_ok(2) show ?thesis
    proof (cases rule: heap_malloc_cases)
      case fail
      then show ?thesis using block_addr_nonzero [OF wf, of s] malloc_ok(3) by simp
    next
      case (ok t)
      then have "t = s" using block_addr_inject [OF wf, of s t] malloc_ok(3) by simp
      with ok(1,6) malloc_ok(1) show ?thesis using heap_rep_malloc [OF rep] by simp
    qed
  next
    case (malloc_fail n)
    from wf malloc_fail(2) show ?thesis
      by (cases rule: heap_malloc_cases) (use rep malloc_fail(1) in simp_all)
  next
    case (free s n)
    then have "s < length (entries_of h)" using heap_rep_run [OF rep] by fastforce
    with free wf show ?thesis using heap_rep_free [OF rep free(2)] by (simp add: heap_free_eq)
  qed
qed

lemma heap_rep_empty: "heap_wf h \<Longrightarrow> heap_rep h Map.empty"
  by (simp add: heap_rep_def)

lemma heap_reach_rep: "heap_reach h0 c \<Longrightarrow> heap_wf h0 \<Longrightarrow> heap_rep (fst c) (snd c)"
proof (induction rule: heap_reach.induct)
  case (step c c')
  then show ?case using heap_step_rep [of "fst c" "snd c" "fst c'" "snd c'"] by simp
qed (simp add: heap_rep_empty)

section \<open>What freeing a large allocation gives back\<close>

text \<open>Of the \<open>nblocks n\<close> blocks of an allocation only the first becomes free again.\<close>

lemma heap_malloc_free_blocks:
  assumes "heap_wf h" "heap_malloc h n = Some (p, h1)" "p \<noteq> 0"
  obtains h2 where "heap_free h1 p = Some h2" "free_count h2 + nblocks n = free_count h + 1"
  using assms(1,2)
proof (cases rule: heap_malloc_cases)
  case (ok s)
  let ?n = "nblocks n"
  have s: "s < length (entries_of h1)" "heap_wf h1" using ok assms(1) by auto
  have p: "p = block_addr h1 s" using ok by simp
  let ?h2 = "set_entries h1 ((entries_of h1)[s := 0])"
  have t1: "taken_blocks h1 = taken_blocks h \<union> {s..<s + ?n}" using ok taken_blocks_mark_run by simp
  have dis: "{s..<s + ?n} \<inter> taken_blocks h = {}"
    using ok(1) free_run_disjoint [of h s ?n] by (auto simp: first_fit_Some_iff)
  have t2: "taken_blocks ?h2 = (taken_blocks h \<union> {s..<s + ?n}) - {s}" using taken_blocks_release [of h1 s] t1 by simp
  have "card (taken_blocks h \<union> {s..<s + ?n}) = card (taken_blocks h) + ?n"
    using dis by (subst card_Un_disjoint) auto
  then have "card (taken_blocks ?h2) + 1 = card (taken_blocks h) + ?n"
    unfolding t2 using ok(5) by (subst card_Diff_singleton) auto
  moreover have "length (entries_of ?h2) = length (entries_of h)" using ok by simp
  ultimately have "free_count ?h2 + ?n = free_count h + 1"
    using free_count_card [of ?h2] free_count_card [of h] by simp
  moreover have "heap_free h1 p = Some ?h2" unfolding p by (rule heap_free_eq [OF s(2,1)])
  ultimately show thesis using that by blast
qed (use assms(3) in simp)

end
