(* ===== verification/KHeap.thy ===== *)
theory KHeap
  imports Heap
begin

text \<open>
  The kernel heap \<^verbatim>\<open>src/memory/heap/kheap.c\<close>: the allocator of \<open>Heap\<close> on the fixed area of
  \<^verbatim>\<open>config.h\<close> together with the physical memory that \<^verbatim>\<open>kzalloc\<close> clears.  The interface the
  other components use is the locale \<open>page_allocator\<close>, for requests of at most one block;
  it is interpreted on \<open>kzalloc\<close> and \<open>kfree\<close> as \<open>kpage\<close>.
\<close>

record kmem =
  kernel_heap :: heap
  phys :: ram

section \<open>Operations (kheap.c)\<close>

text \<open>\<^verbatim>\<open>memset\<close> (memory.c) on physical memory, byte by byte upwards.\<close>

primrec ram_memset :: "ram \<Rightarrow> addr \<Rightarrow> byte \<Rightarrow> nat \<Rightarrow> ram" where
  "ram_memset m ptr c 0 = m"
| "ram_memset m ptr c (Suc n) = ram_memset (m(ptr := c)) (ptr + 1) c n"

text \<open>The text printed on failure, and the kernel memory.\<close>

definition kheap_init :: "kmem \<Rightarrow> string \<times> kmem" where
  "kheap_init k =
     (let (res, h) = heap_create (kernel_heap k) RASOS_HEAP_TABLE_ADDRESS RASOS_HEAP_ADDRESS
                       RASOS_HEAP_SIZE_BYTES
      in (if res < 0 then ''Failed to create heap'' @ [CHR 0x0A] else '''',
          k\<lparr>kernel_heap := h\<rparr>))"

definition kmalloc :: "kmem \<Rightarrow> u32 \<Rightarrow> (addr \<times> kmem) option" where
  "kmalloc k n = map_option (\<lambda>(p, h). (p, k\<lparr>kernel_heap := h\<rparr>)) (heap_malloc (kernel_heap k) n)"

definition kzalloc :: "kmem \<Rightarrow> u32 \<Rightarrow> (addr \<times> kmem) option" where
  "kzalloc k n = do {
     (ptr, k) \<leftarrow> kmalloc k n;
     if ptr = 0 then Some (0, k)
     else Some (ptr, k\<lparr>phys := ram_memset (phys k) ptr 0 (unat n)\<rparr>)
   }"

definition kfree :: "kmem \<Rightarrow> addr \<Rightarrow> kmem option" where
  "kfree k ptr = map_option (\<lambda>h. k\<lparr>kernel_heap := h\<rparr>) (heap_free (kernel_heap k) ptr)"

lemma ram_memset_apply:
  "ram_memset m p c n a = (if unat (a - p) < n then c else m a)"
proof (induction n arbitrary: m p)
  case (Suc n)
  show ?case
  proof (cases "a = p")
    case False
    then have "unat (a - (p + 1)) = unat (a - p) - 1" "0 < unat (a - p)"
      by (simp_all add: unat_minus_one unat_gt_0 flip: diff_diff_eq)
    with Suc False show ?thesis by (auto simp: less_Suc_eq)
  qed (use Suc in simp)
qed simp

section \<open>The allocator contract of the kernel's small objects\<close>

text \<open>
  Requests of at most one block: \<open>used\<close> are the block addresses handed out (or leaked),
  \<open>avail\<close> how many blocks are free.
\<close>

definition page_request :: "u32 \<Rightarrow> bool" where
  "page_request n \<longleftrightarrow> 0 < unat n \<and> unat n \<le> 4096"

lemma page_request_small [simp]:
  "page_request 4" "page_request 8" "page_request 128" "page_request 4096"
  by (simp_all add: page_request_def)

lemmas page_request_8 = page_request_small(2) and page_request_128 = page_request_small(3)
  and page_request_4096 = page_request_small(4)

locale page_allocator =
  fixes alloc :: "'k \<Rightarrow> u32 \<Rightarrow> (addr \<times> 'k) option"
    and release :: "'k \<Rightarrow> addr \<Rightarrow> 'k option"
    and ok :: "'k \<Rightarrow> bool"
    and used :: "'k \<Rightarrow> addr set"
    and avail :: "'k \<Rightarrow> nat"
  assumes alloc_page: "ok k \<Longrightarrow> page_request n \<Longrightarrow> 0 < avail k \<Longrightarrow>
      \<exists>p k'. alloc k n = Some (p, k') \<and> ok k' \<and> p \<noteq> 0 \<and> page_aligned p \<and> p \<notin> used k
        \<and> used k' = insert p (used k) \<and> Suc (avail k') = avail k"
    and alloc_full: "ok k \<Longrightarrow> page_request n \<Longrightarrow> avail k = 0 \<Longrightarrow> alloc k n = Some (0, k)"
    and release_page: "ok k \<Longrightarrow> p \<in> used k \<Longrightarrow>
      \<exists>k'. release k p = Some k' \<and> ok k' \<and> used k' = used k - {p} \<and> avail k' = Suc (avail k)"
begin

text \<open>A temporary object: allocated and released at once, nothing remains.\<close>

lemma alloc_release:
  assumes "ok k" "page_request n" "0 < avail k" "alloc k n = Some (p, k')"
  shows "\<exists>k''. release k' p = Some k'' \<and> ok k'' \<and> used k'' = used k \<and> avail k'' = avail k"
proof -
  from alloc_page [OF assms(1-3)] assms(4)
  have a: "ok k'" "p \<notin> used k" "used k' = insert p (used k)" "Suc (avail k') = avail k" by auto
  then obtain k'' where "release k' p = Some k''" "ok k''" "used k'' = used k' - {p}"
    "avail k'' = Suc (avail k')"
    using release_page [of k' p] by auto
  with a show ?thesis by auto
qed

text \<open>Objects already held stay held, and the new one is none of them.\<close>

lemma alloc_fresh:
  assumes "ok k" "page_request n" "alloc k n = Some (p, k')" "p \<noteq> 0" "q \<in> used k"
  shows "q \<in> used k'" "q \<noteq> p"
proof -
  have "0 < avail k" using alloc_full [OF assms(1,2)] assms(3,4) by fastforce
  from alloc_page [OF assms(1,2) this] assms(3,5) show "q \<in> used k'" "q \<noteq> p" by auto
qed

text \<open>The outcome of any small request, by whether a block is free.\<close>

lemma alloc_cases:
  assumes "ok k" "page_request n"
  obtains (full) "avail k = 0" "alloc k n = Some (0, k)"
  | (page) p k' where "0 < avail k" "alloc k n = Some (p, k')" "ok k'" "p \<noteq> 0" "page_aligned p"
      "p \<notin> used k" "used k' = insert p (used k)" "Suc (avail k') = avail k"
proof (cases "avail k = 0")
  case True
  with alloc_full [OF assms] full show thesis by blast
next
  case False
  then have "0 < avail k" by simp
  with alloc_page [OF assms this] page show thesis by blast
qed

end

section \<open>The kernel heap satisfies the contract\<close>

text \<open>The heap lies where \<^verbatim>\<open>kheap_init\<close> puts it.\<close>

definition kheap_ok :: "kmem \<Rightarrow> bool" where
  "kheap_ok k \<longleftrightarrow> heap_wf (kernel_heap k) \<and> hp_start (kernel_heap k) = RASOS_HEAP_ADDRESS
     \<and> length (entries_of (kernel_heap k)) = 25600"

definition kheap_used :: "kmem \<Rightarrow> addr set" where
  "kheap_used k = block_addr (kernel_heap k) ` taken_blocks (kernel_heap k)"

definition kheap_avail :: "kmem \<Rightarrow> nat" where
  "kheap_avail k = free_count (kernel_heap k)"

lemma nblocks_page: "page_request n \<Longrightarrow> nblocks n = 1"
  by (auto simp: nblocks_eq page_request_def intro!: div_nat_eqI)

lemma kheap_simps [simp]:
  "kernel_heap (k\<lparr>kernel_heap := h\<rparr>) = h" "kheap_ok (k\<lparr>phys := m\<rparr>) = kheap_ok k"
  "kheap_used (k\<lparr>phys := m\<rparr>) = kheap_used k" "kheap_avail (k\<lparr>phys := m\<rparr>) = kheap_avail k"
  by (simp_all add: kheap_ok_def kheap_used_def kheap_avail_def)

lemma free_count_change:
  assumes "length (entries_of g) = length (entries_of h)" "card (taken_blocks g) = Suc (card (taken_blocks h))"
  shows "Suc (free_count g) = free_count h"
  using free_count_card [of g] free_count_card [of h] assms by simp

lemma block_addr_used:
  assumes "heap_wf h" "s < length (entries_of h)"
  shows "block_addr h s \<in> block_addr h ` taken_blocks h \<longleftrightarrow> s \<in> taken_blocks h"
proof -
  have "t = s" if "block_addr h s = block_addr h t" "t \<in> taken_blocks h" for t
    using block_addr_inject [OF assms(1), of s t] that assms by (auto simp: taken_blocks_def)
  then show ?thesis by auto
qed

text \<open>Allocating and releasing one block, on the heap.\<close>

lemma heap_malloc_page:
  assumes wf: "heap_wf h" and n: "page_request n" and "0 < free_count h"
  shows "\<exists>s h'. heap_malloc h n = Some (block_addr h s, h') \<and> heap_wf h' \<and> s < length (entries_of h)
     \<and> s \<notin> taken_blocks h \<and> taken_blocks h' = insert s (taken_blocks h)
     \<and> Suc (free_count h') = free_count h \<and> block_addr h' = block_addr h
     \<and> hp_start h' = hp_start h \<and> length (entries_of h') = length (entries_of h)"
proof -
  from assms(3) obtain s where s: "first_fit (entries_of h) (Suc 0) = Some s"
    using first_fit_one [of h] by fastforce
  then have lt: "s < length (entries_of h)" and fr: "free_run (entries_of h) s (Suc 0)"
    by (auto simp: first_fit_Some_iff free_run_def)
  let ?h' = "set_entries h (mark_run (entries_of h) s (Suc 0))"
  have t: "s \<notin> taken_blocks h" using free_run_disjoint [OF fr] by auto
  have tb: "taken_blocks ?h' = insert s (taken_blocks h)"
    using taken_blocks_mark_run [of s "Suc 0" h] lt by auto
  have "Suc (free_count ?h') = free_count h"
    by (rule free_count_change) (use t in \<open>simp_all add: tb\<close>)
  moreover have "heap_malloc h n = Some (block_addr h s, ?h')"
    by (simp add: heap_malloc_eq [OF wf] nblocks_page [OF n] s)
  ultimately show ?thesis using wf lt t tb by auto
qed

lemma heap_free_page:
  assumes wf: "heap_wf h" and s: "s \<in> taken_blocks h"
  shows "\<exists>h'. heap_free h (block_addr h s) = Some h' \<and> heap_wf h' \<and> taken_blocks h' = taken_blocks h - {s}
     \<and> free_count h' = Suc (free_count h) \<and> block_addr h' = block_addr h
     \<and> hp_start h' = hp_start h \<and> length (entries_of h') = length (entries_of h)"
proof -
  have lt: "s < length (entries_of h)" using s by (simp add: taken_blocks_def)
  let ?h' = "set_entries h ((entries_of h)[s := 0])"
  have tb: "taken_blocks ?h' = taken_blocks h - {s}" by (rule taken_blocks_release)
  have "Suc (free_count h) = free_count ?h'"
    by (rule free_count_change) (use card_Suc_Diff1 [OF finite_taken_blocks s] in \<open>simp_all add: tb\<close>)
  then show ?thesis using wf tb heap_free_eq [OF wf lt] by auto
qed

interpretation kpage: page_allocator kzalloc kfree kheap_ok kheap_used kheap_avail
proof unfold_locales
  fix k n assume k: "kheap_ok k" and n: "page_request n" and "0 < kheap_avail k"
  then obtain s h' where h: "heap_malloc (kernel_heap k) n = Some (block_addr (kernel_heap k) s, h')"
    "heap_wf h'" "s < length (entries_of (kernel_heap k))" "s \<notin> taken_blocks (kernel_heap k)"
    "taken_blocks h' = insert s (taken_blocks (kernel_heap k))"
    "Suc (free_count h') = free_count (kernel_heap k)" "block_addr h' = block_addr (kernel_heap k)"
    "hp_start h' = hp_start (kernel_heap k)" "length (entries_of h') = length (entries_of (kernel_heap k))"
    using heap_malloc_page by (fastforce simp: kheap_ok_def kheap_avail_def)
  let ?p = "block_addr (kernel_heap k) s"
  have p: "?p \<noteq> 0" "page_aligned ?p"
    using k h(3) by (auto simp: kheap_ok_def block_addr_nonzero page_aligned_block_addr)
  have "?p \<notin> kheap_used k"
    using k h(3,4) by (simp add: kheap_used_def block_addr_used kheap_ok_def)
  with h p k show "\<exists>p k'. kzalloc k n = Some (p, k') \<and> kheap_ok k' \<and> p \<noteq> 0 \<and> page_aligned p \<and> p \<notin> kheap_used k
        \<and> kheap_used k' = insert p (kheap_used k) \<and> Suc (kheap_avail k') = kheap_avail k"
    by (simp add: kzalloc_def kmalloc_def kheap_ok_def kheap_used_def kheap_avail_def)
next
  fix k n assume "kheap_ok k" "page_request n" "kheap_avail k = 0"
  then show "kzalloc k n = Some (0, k)"
    by (simp add: kzalloc_def kmalloc_def kheap_ok_def kheap_avail_def heap_malloc_eq nblocks_page
        flip: first_fit_one)
next
  fix k p assume k: "kheap_ok k" "p \<in> kheap_used k"
  then obtain s where s: "s \<in> taken_blocks (kernel_heap k)" "p = block_addr (kernel_heap k) s"
    by (auto simp: kheap_used_def)
  have lt: "s < length (entries_of (kernel_heap k))" using s by (simp add: taken_blocks_def)
  from heap_free_page [of "kernel_heap k" s] k s obtain h' where
    h: "heap_free (kernel_heap k) p = Some h'" "heap_wf h'"
    "taken_blocks h' = taken_blocks (kernel_heap k) - {s}"
    "free_count h' = Suc (free_count (kernel_heap k))" "block_addr h' = block_addr (kernel_heap k)"
    "hp_start h' = hp_start (kernel_heap k)" "length (entries_of h') = length (entries_of (kernel_heap k))"
    by (auto simp: kheap_ok_def)
  have "inj_on (block_addr (kernel_heap k)) (taken_blocks (kernel_heap k))"
    using k(1) by (auto simp: inj_on_def kheap_ok_def taken_blocks_def block_addr_inject)
  then have "block_addr (kernel_heap k) ` (taken_blocks (kernel_heap k) - {s})
      = kheap_used k - {p}"
    using s by (simp add: kheap_used_def inj_on_image_set_diff)
  with h k show "\<exists>k'. kfree k p = Some k' \<and> kheap_ok k' \<and> kheap_used k' = kheap_used k - {p}
      \<and> kheap_avail k' = Suc (kheap_avail k)"
    by (simp add: kfree_def kheap_ok_def kheap_used_def kheap_avail_def)
qed

text \<open>What the two calls do to physical memory.\<close>

lemma kzalloc_phys:
  "kzalloc k n = Some (p, k') \<Longrightarrow>
     phys k' a = (if p \<noteq> 0 \<and> unat (a - p) < unat n then 0 else phys k a)"
  by (auto simp: kzalloc_def kmalloc_def ram_memset_apply split: if_splits option.splits bind_splits)

lemma kfree_phys: "kfree k p = Some k' \<Longrightarrow> phys k' = phys k"
  by (auto simp: kfree_def)

section \<open>Allocations of several blocks\<close>

definition heap_blk :: "nat \<Rightarrow> addr" where
  "heap_blk i = RASOS_HEAP_ADDRESS + 4096 * of_nat i"

lemma unat_heap_blk:
  assumes "i \<le> 25600"
  shows "unat (heap_blk i) = 16777216 + 4096 * i"
proof -
  have "unat (4096 * of_nat i :: u32) = 4096 * i"
    using assms by (simp add: unat_word_ariths unat_of_nat)
  then show ?thesis
    using assms by (simp add: heap_blk_def RASOS_HEAP_ADDRESS_def unat_word_ariths(1))
qed

lemma heap_blk_inject:
  assumes "i \<le> 25600" "j \<le> 25600"
  shows "heap_blk i = heap_blk j \<longleftrightarrow> i = j"
proof
  assume "heap_blk i = heap_blk j"
  then have "unat (heap_blk i) = unat (heap_blk j)" by (simp only:)
  then show "i = j" by (simp only: unat_heap_blk [OF assms(1)] unat_heap_blk [OF assms(2)])
qed simp

lemma heap_blk_nonzero: "i \<le> 25600 \<Longrightarrow> heap_blk i \<noteq> 0"
  using unat_heap_blk [of i] by (metis add_is_0 unat_0 zero_neq_numeral)

lemma page_aligned_heap_blk: "i \<le> 25600 \<Longrightarrow> page_aligned (heap_blk i)"
  by (simp add: page_aligned_unat unat_heap_blk)

lemma block_addr_blk: "kheap_ok k \<Longrightarrow> block_addr (kernel_heap k) = heap_blk"
  by (simp add: fun_eq_iff block_addr_def heap_blk_def kheap_ok_def)

lemma kheap_used_blk: "kheap_ok k \<Longrightarrow> kheap_used k = heap_blk ` taken_blocks (kernel_heap k)"
  by (simp add: kheap_used_def block_addr_blk)

lemma taken_blocks_less: "kheap_ok k \<Longrightarrow> taken_blocks (kernel_heap k) \<subseteq> {..<25600}"
  by (auto simp: taken_blocks_def kheap_ok_def)

lemma kheap_used_range:
  assumes "kheap_ok k" "p \<in> kheap_used k"
  shows "page_aligned p" "p \<noteq> 0" "16777216 \<le> unat p" "unat p < 121634816"
proof -
  obtain i where "p = heap_blk i" "i < 25600"
    using assms taken_blocks_less [OF assms(1)] by (auto simp: kheap_used_blk)
  then show "page_aligned p" "p \<noteq> 0" "16777216 \<le> unat p" "unat p < 121634816"
    using page_aligned_heap_blk [of i] heap_blk_nonzero [of i] by (simp_all add: unat_heap_blk)
qed

lemma card_kheap_used:
  assumes "kheap_ok k"
  shows "card (kheap_used k) + kheap_avail k = 25600" "finite (kheap_used k)"
proof -
  have "inj_on heap_blk (taken_blocks (kernel_heap k))"
  proof (rule inj_onI)
    fix i j assume ij: "i \<in> taken_blocks (kernel_heap k)" "j \<in> taken_blocks (kernel_heap k)" "heap_blk i = heap_blk j"
    then have "i < 25600" "j < 25600" using taken_blocks_less [OF assms] by auto
    then show "i = j" using ij(3) heap_blk_inject [of i j] by simp
  qed
  then have "card (kheap_used k) = card (taken_blocks (kernel_heap k))"
    by (simp add: kheap_used_blk [OF assms] card_image)
  then show "card (kheap_used k) + kheap_avail k = 25600"
    using free_count_card [of "kernel_heap k"] assms by (simp add: kheap_avail_def kheap_ok_def)
  show "finite (kheap_used k)" by (simp add: kheap_used_def)
qed

text \<open>A run of \<open>n\<close> free blocks from block \<open>a\<close> on.\<close>

definition free_blocks :: "kmem \<Rightarrow> nat \<Rightarrow> nat \<Rightarrow> bool" where
  "free_blocks k a n \<longleftrightarrow> a + n \<le> 25600 \<and> (\<forall>i<n. heap_blk (a + i) \<notin> kheap_used k)"

lemma free_blocks_part: "free_blocks k a n \<Longrightarrow> m \<le> n \<Longrightarrow> free_blocks k a m"
  by (auto simp: free_blocks_def)

lemma heap_blk_used:
  assumes "kheap_ok k" "i < 25600"
  shows "heap_blk i \<in> kheap_used k \<longleftrightarrow> is_block_taken (entries_of (kernel_heap k) ! i)"
proof -
  have "heap_blk i \<in> kheap_used k \<longleftrightarrow> i \<in> taken_blocks (kernel_heap k)"
    using block_addr_used [of "kernel_heap k" i] assms by (simp add: kheap_used_blk block_addr_blk kheap_ok_def)
  then show ?thesis using assms by (simp add: taken_blocks_def kheap_ok_def)
qed

lemma free_blocks_run:
  assumes "kheap_ok k"
  shows "free_blocks k a n \<longleftrightarrow> free_run (entries_of (kernel_heap k)) a n"
proof -
  have "length (entries_of (kernel_heap k)) = 25600" using assms by (simp add: kheap_ok_def)
  moreover have "(\<forall>i<n. heap_blk (a + i) \<notin> kheap_used k) \<longleftrightarrow>
      (\<forall>i<n. \<not> is_block_taken (entries_of (kernel_heap k) ! (a + i)))" if "a + n \<le> 25600"
  proof -
    have "heap_blk (a + i) \<in> kheap_used k \<longleftrightarrow> is_block_taken (entries_of (kernel_heap k) ! (a + i))" if "i < n" for i
    proof -
      have "a + i < 25600" using that \<open>a + n \<le> 25600\<close> by simp
      then show ?thesis by (rule heap_blk_used [OF assms])
    qed
    then show ?thesis by auto
  qed
  ultimately show ?thesis unfolding free_blocks_def free_run_def by metis
qed

lemma kzalloc_first:
  assumes k: "kheap_ok k" and n: "0 < nblocks n" and run: "free_blocks k a (nblocks n)"
  obtains s k' where "kzalloc k n = Some (heap_blk s, k')" "kheap_ok k'" "free_blocks k s (nblocks n)"
    "kheap_used k' = kheap_used k \<union> heap_blk ` {s..<s + nblocks n}" "kheap_avail k' + nblocks n = kheap_avail k" "s \<le> a"
proof -
  let ?h = "kernel_heap k" and ?n = "nblocks n"
  have wf: "heap_wf ?h" and len: "length (entries_of ?h) = 25600" using k by (simp_all add: kheap_ok_def)
  have ra: "free_run (entries_of ?h) a ?n" using run by (simp add: free_blocks_run [OF k])
  then obtain s where s: "first_fit (entries_of ?h) ?n = Some s"
    using n by (cases "first_fit (entries_of ?h) ?n") (auto simp: first_fit_None_iff)
  then have fr: "free_run (entries_of ?h) s ?n" by (simp add: first_fit_Some_iff)
  then have le: "s + ?n \<le> 25600" by (simp add: free_run_def len)
  let ?h' = "set_entries ?h (mark_run (entries_of ?h) s ?n)"
  let ?k' = "\<lparr>kernel_heap = ?h', phys = ram_memset (phys k) (heap_blk s) 0 (unat n)\<rparr>"
  have "heap_malloc ?h n = Some (heap_blk s, ?h')"
    using heap_malloc_eq [OF wf, of n] s block_addr_blk [OF k] by simp
  moreover have "heap_blk s \<noteq> 0" using le by (simp add: heap_blk_nonzero)
  ultimately obtain k' where z: "kzalloc k n = Some (heap_blk s, k')" "kernel_heap k' = ?h'"
    by (simp add: kzalloc_def kmalloc_def)
  have ok: "kheap_ok k'" using k z(2) by (simp add: kheap_ok_def)
  have tb: "taken_blocks ?h' = taken_blocks ?h \<union> {s..<s + ?n}" using le len by (simp add: taken_blocks_mark_run)
  have used: "kheap_used k' = kheap_used k \<union> heap_blk ` {s..<s + ?n}"
    by (simp add: kheap_used_blk [OF ok] kheap_used_blk [OF k] z(2) tb image_Un)
  have "card (taken_blocks ?h') = card (taken_blocks ?h) + ?n"
    unfolding tb using free_run_disjoint [OF fr] by (simp add: card_Un_disjoint)
  then have "kheap_avail k' + ?n = kheap_avail k"
    using free_count_card [of ?h] free_count_card [of ?h'] by (simp add: kheap_avail_def z(2))
  moreover have "s \<le> a" using s ra by (meson first_fit_Some_iff not_le)
  ultimately show thesis using that [OF z(1) ok _ used] fr by (simp add: free_blocks_run [OF k])
qed

lemma kzalloc_run:
  assumes "kheap_ok k" "0 < nblocks n" "free_blocks k a (nblocks n)"
  obtains s k' where "kzalloc k n = Some (heap_blk s, k')" "kheap_ok k'" "free_blocks k s (nblocks n)"
    "kheap_used k' = kheap_used k \<union> heap_blk ` {s..<s + nblocks n}" "kheap_avail k' + nblocks n = kheap_avail k"
  by (rule kzalloc_first [OF assms]) (rule that)

text \<open>First fit takes its blocks no later than the start of a run that is long enough: the rest of the run stays.\<close>

lemma free_blocks_rest:
  assumes "free_blocks k a (n + m)" "kheap_used k' = kheap_used k \<union> heap_blk ` {s..<s + n}" "s \<le> a" "a + n + m \<le> 25600"
  shows "free_blocks k' (a + n) m"
proof -
  have "heap_blk (a + n + i) \<notin> kheap_used k'" if i: "i < m" for i
  proof -
    have "n + i < n + m" using i by simp
    then have "heap_blk (a + (n + i)) \<notin> kheap_used k" using assms(1) unfolding free_blocks_def by blast
    then have "heap_blk (a + n + i) \<notin> kheap_used k" unfolding add.assoc .
    moreover have "heap_blk (a + n + i) \<noteq> heap_blk j" if "j \<in> {s..<s + n}" for j
      using that assms(3,4) i heap_blk_inject [of "a + n + i" j] by simp
    ultimately show ?thesis using assms(2) by blast
  qed
  then show ?thesis using assms(4) by (simp add: free_blocks_def)
qed

lemma kzalloc_rest:
  assumes "kheap_ok k" "page_request n" "free_blocks k a (Suc m)" "kzalloc k n = Some (p, k')"
  shows "kheap_ok k'" "free_blocks k' (Suc a) m"
proof -
  have n: "nblocks n = 1" using assms(2) by (rule nblocks_page)
  then have a: "free_blocks k a (nblocks n)" using free_blocks_part [OF assms(3)] by simp
  obtain s k1 where s: "kzalloc k n = Some (heap_blk s, k1)" "kheap_ok k1" "kheap_used k1 = kheap_used k \<union> heap_blk ` {s..<s + 1}" "s \<le> a"
    by (rule kzalloc_first [OF assms(1) _ a]) (use n in simp_all)
  have "a + 1 + m \<le> 25600" "free_blocks k a (1 + m)" using assms(3) by (simp_all add: free_blocks_def)
  from free_blocks_rest [OF this(2) s(3,4) this(1)] show "free_blocks k' (Suc a) m" using s(1) assms(4) by simp
  show "kheap_ok k'" using s(1,2) assms(4) by simp
qed

text \<open>
  After at most \<open>c\<close> blocks more are taken, a run that was \<open>c + 1\<close> times as long as needed still has
  one of its parts whole.
\<close>

lemma free_blocks_remain:
  assumes k: "kheap_ok k" "kheap_ok k'" "kheap_used k \<subseteq> kheap_used k'" "kheap_avail k \<le> kheap_avail k' + c"
    and run: "free_blocks k a (Suc c * n)"
  obtains b where "free_blocks k' b n"
proof (rule ccontr)
  assume "\<not> thesis"
  then have no: "\<not> free_blocks k' b n" for b using that by blast
  let ?X = "kheap_used k' - kheap_used k"
  have "card ?X = card (kheap_used k') - card (kheap_used k)"
    by (rule card_Diff_subset) (use card_kheap_used(2) [OF k(1)] k(3) in auto)
  then have X: "card ?X \<le> c" "finite ?X"
    using card_kheap_used [OF k(1)] card_kheap_used [OF k(2)] k(4) by simp_all
  have "\<exists>i. i < n \<and> heap_blk (a + j * n + i) \<in> ?X" if j: "j \<le> c" for j
  proof -
    have jn: "j * n \<le> c * n" using j by (rule mult_le_mono1)
    have "a + (n + c * n) \<le> 25600" using run by (simp add: free_blocks_def)
    then have le: "a + j * n + n \<le> 25600" using jn by linarith
    have in_run: "j * n + i < Suc c * n" if "i < n" for i
    proof -
      have "j * n + i < c * n + n" using jn that by linarith
      then show ?thesis by simp
    qed
    obtain i where i: "i < n" "heap_blk (a + j * n + i) \<in> kheap_used k'"
      using no [of "a + j * n"] le by (auto simp: free_blocks_def)
    have "heap_blk (a + (j * n + i)) \<notin> kheap_used k"
      using run in_run [OF i(1)] unfolding free_blocks_def by blast
    then show ?thesis using i by (auto simp: add.assoc)
  qed
  then obtain f where f: "\<And>j. j \<le> c \<Longrightarrow> f j < n \<and> heap_blk (a + j * n + f j) \<in> ?X" by metis
  have "inj_on (\<lambda>j. heap_blk (a + j * n + f j)) {..c}"
  proof (rule inj_onI)
    fix i j assume ij: "i \<in> {..c}" "j \<in> {..c}" "heap_blk (a + i * n + f i) = heap_blk (a + j * n + f j)"
    have le: "a + i * n + f i \<le> 25600" if "i \<le> c" for i
    proof -
      have "i * n \<le> c * n" using that by (rule mult_le_mono1)
      moreover have "f i < n" using f [OF that] by simp
      moreover have "a + (n + c * n) \<le> 25600" using run by (simp add: free_blocks_def)
      ultimately show ?thesis by linarith
    qed
    have "i * n + f i = j * n + f j" using ij le heap_blk_inject by simp
    then have "(i * n + f i) div n = (j * n + f j) div n" by simp
    then show "i = j" using f [of i] f [of j] ij(1,2) by simp
  qed
  then have "card {..c} \<le> card ?X" by (rule card_inj_on_le) (use f X(2) in auto)
  then show False using X(1) by simp
qed

section \<open>The heap the kernel boots with\<close>

lemma kheap_init_eq:
  "kheap_init k = ('''', k\<lparr>kernel_heap := \<lparr>hp_table = \<lparr>ht_addr = 0x7E00,
     ht_entries = replicate 25600 0, ht_total = 25600\<rparr>, hp_start = 0x01000000\<rparr>\<rparr>)"
  by (simp add: kheap_init_def heap_create_def RASOS_HEAP_ADDRESS_def RASOS_HEAP_SIZE_BYTES_def
      RASOS_HEAP_TABLE_ADDRESS_def Let_def)

definition boot_kmem :: "ram \<Rightarrow> kmem" where
  "boot_kmem m = snd (kheap_init \<lparr>kernel_heap = \<lparr>hp_table = \<lparr>ht_addr = 0, ht_entries = [], ht_total = 0\<rparr>,
     hp_start = 0\<rparr>, phys = m\<rparr>)"

lemma boot_kmem_ok [simp]:
  "kheap_ok (boot_kmem m)" "kheap_used (boot_kmem m) = {}" "kheap_avail (boot_kmem m) = 25600"
  by (simp_all add: boot_kmem_def kheap_init_eq kheap_ok_def heap_wf_def page_aligned_def
      RASOS_HEAP_ADDRESS_def kheap_used_def kheap_avail_def free_count_def taken_blocks_def)

end
