(* ===== verification/PathParser.thy ===== *)
theory PathParser
  imports CString KHeap
begin

text \<open>
  The path parser \<^verbatim>\<open>src/fs/pparser.c\<close>: \<^verbatim>\<open>0:/dir/file\<close> to a drive number and a list of
  names.  The linked list of \<^verbatim>\<open>struct path_part\<close> is an Isabelle list of its nodes, each with
  the heap addresses of the node and of its name buffer, so that allocation, leaks and
  \<^verbatim>\<open>pathparser_free\<close> act on the kernel heap as in the code.
\<close>

section \<open>Data (pparser.h, kernel.h)\<close>

definition RASOS_PATH_MAX_LEN :: nat where [simp]: "RASOS_PATH_MAX_LEN = 128"

record path_part =
  pp_addr :: addr
  part_addr :: addr
  part :: cbuf

record path_root =
  pr_addr :: addr
  drive_number :: int
  first_parts :: "path_part list"

section \<open>Operations (pparser.c)\<close>

definition is_valid_path :: "cbuf \<Rightarrow> bool option" where
  "is_valid_path path = do {
     len \<leftarrow> strlen path;
     if len > RASOS_PATH_MAX_LEN \<or> len < 3 then Some False
     else if \<not> is_digit (path ! 0) then Some False
     else do {
       c \<leftarrow> memcmp (drop 1 path) [58, 47, 0] 2;
       if c \<noteq> 0 then Some False else Some True
     }
   }"

text \<open>The result and the repositioned path.\<close>

definition get_drive_from_path :: "cbuf \<Rightarrow> (int \<times> cbuf) option" where
  "get_drive_from_path path = do {
     valid \<leftarrow> is_valid_path path;
     if \<not> valid then Some (- EBADPATH, path)
     else Some (sint (path ! 0) - 48, drop 3 path)
   }"

definition create_root :: "kmem \<Rightarrow> int \<Rightarrow> (path_root \<times> kmem) option" where
  "create_root k drive = do {
     (path_r, k) \<leftarrow> kzalloc k 8;
     if path_r = 0 then None
     else Some (\<lparr>pr_addr = path_r, drive_number = drive, first_parts = []\<rparr>, k)
   }"

text \<open>The copying loop: the rest of the path, the buffer and \<open>i\<close> when it stops.\<close>

fun part_loop :: "cbuf \<Rightarrow> cbuf \<Rightarrow> nat \<Rightarrow> (cbuf \<times> cbuf \<times> nat) option" where
  "part_loop [] buf i = None"
| "part_loop (c # path) buf i =
     (if c \<noteq> 47 \<and> c \<noteq> 0 then
        if i < length buf then part_loop path (buf[i := c]) (i + 1) else None
      else Some (c # path, buf, i))"

definition get_next_path_part :: "kmem \<Rightarrow> cbuf \<Rightarrow> ((addr \<times> cbuf) option \<times> cbuf \<times> kmem) option" where
  "get_next_path_part k path = do {
     (result_path_part, k) \<leftarrow> kzalloc k (of_nat RASOS_PATH_MAX_LEN);
     (path, buf, i) \<leftarrow> part_loop path
       (if result_path_part = 0 then [] else replicate RASOS_PATH_MAX_LEN 0) 0;
     let path = (if path ! 0 = 47 then drop 1 path else path);
     if i = 0 then do {
       k \<leftarrow> kfree k result_path_part;
       Some (None, path, k)
     }
     else Some (Some (result_path_part, buf), path, k)
   }"

definition parse_path_part :: "kmem \<Rightarrow> cbuf \<Rightarrow> (path_part option \<times> cbuf \<times> kmem) option" where
  "parse_path_part k path = do {
     (path_part_name, path, k) \<leftarrow> get_next_path_part k path;
     case path_part_name of
       None \<Rightarrow> Some (None, path, k)
     | Some (name_addr, name) \<Rightarrow> do {
         (part, k) \<leftarrow> kzalloc k 8;
         if part = 0 then None
         else Some (Some \<lparr>pp_addr = part, part_addr = name_addr, part = name\<rparr>, path, k)
       }
   }"

lemma part_loop_shorter:
  "part_loop path buf i = Some (path', buf', i') \<Longrightarrow>
     length path' + i' = length path + i \<and> path' \<noteq> [] \<and> i \<le> i'"
  by (induction path buf i rule: part_loop.induct) (auto split: if_splits)

lemma parse_path_part_shorter:
  assumes "parse_path_part k path = Some (Some p, path', k')"
  shows "length path' < length path"
proof -
  from assms obtain k1 name where "get_next_path_part k path = Some (Some name, path', k1)"
    by (auto simp: parse_path_part_def split: bind_splits option.splits prod.splits if_splits)
  then show ?thesis
    by (auto simp: get_next_path_part_def Let_def split: bind_splits if_splits prod.splits
        dest!: part_loop_shorter)
qed

text \<open>The \<^verbatim>\<open>while (part)\<close> loop of \<^verbatim>\<open>pathparser_parse\<close>; \<open>parts\<close> is the list linked so far.\<close>

function parse_parts :: "kmem \<Rightarrow> cbuf \<Rightarrow> path_part list \<Rightarrow> (path_part list \<times> cbuf \<times> kmem) option" where
  "parse_parts k path parts =
     (case parse_path_part k path of
        None \<Rightarrow> None
      | Some (None, path', k') \<Rightarrow> Some (parts, path', k')
      | Some (Some p, path', k') \<Rightarrow> parse_parts k' path' (parts @ [p]))"
  by pat_completeness auto
termination
  by (relation "measure (\<lambda>(k, path, parts). length path)") (auto dest: parse_path_part_shorter)

declare parse_parts.simps [simp del]

definition pathparser_parse :: "kmem \<Rightarrow> cbuf \<Rightarrow> (path_root option \<times> kmem) option" where
  "pathparser_parse k path = do {
     len \<leftarrow> strlen path;
     if len > RASOS_PATH_MAX_LEN then Some (None, k)
     else do {
       (drive, tmp_path) \<leftarrow> get_drive_from_path path;
       if drive < 0 then Some (None, k)
       else do {
         (path_root, k) \<leftarrow> create_root k drive;
         (first_part, tmp_path, k) \<leftarrow> parse_path_part k tmp_path;
         case first_part of
           None \<Rightarrow> Some (None, k)
         | Some p \<Rightarrow> do {
             (parts, tmp_path, k) \<leftarrow> parse_parts k tmp_path [p];
             Some (Some (path_root\<lparr>first_parts := parts\<rparr>), k)
           }
       }
     }
   }"

primrec free_parts :: "kmem \<Rightarrow> path_part list \<Rightarrow> kmem option" where
  "free_parts k [] = Some k"
| "free_parts k (p # parts) = do {
     k \<leftarrow> kfree k (part_addr p);
     k \<leftarrow> kfree k (pp_addr p);
     free_parts k parts
   }"

definition pathparser_free :: "kmem \<Rightarrow> path_root \<Rightarrow> kmem option" where
  "pathparser_free k root = do {
     k \<leftarrow> free_parts k (first_parts root);
     kfree k (pr_addr root)
   }"

section \<open>Reference: the names of a path\<close>

text \<open>
  The names between the slashes, up to the first empty one.
\<close>

function components :: "cbuf \<Rightarrow> cbuf list" where
  "components s =
     (let c = takeWhile (\<lambda>x. x \<noteq> 47) s in
      if c = [] then [] else c # components (drop 1 (dropWhile (\<lambda>x. x \<noteq> 47) s)))"
  by pat_completeness auto
termination
proof (relation "measure length")
  fix s c :: cbuf
  assume "c = takeWhile (\<lambda>x. x \<noteq> 47) s" "c \<noteq> []"
  then have "length s = length c + length (dropWhile (\<lambda>x. x \<noteq> 47) s)"
    by (metis length_append takeWhile_dropWhile_id)
  moreover have "0 < length c" using \<open>c \<noteq> []\<close> by simp
  ultimately have "length (dropWhile (\<lambda>x. x \<noteq> 47) s) - 1 < length s" by linarith
  then show "(drop 1 (dropWhile (\<lambda>x. x \<noteq> 47) s), s) \<in> measure length" by simp
qed simp

declare components.simps [simp del]

lemma part_loop_eq:
  assumes "0 \<notin> set s" "i + length (takeWhile (\<lambda>x. x \<noteq> 47) s) \<le> length buf"
  shows "part_loop (s @ 0 # rest) buf i =
     Some (dropWhile (\<lambda>x. x \<noteq> 47) s @ 0 # rest,
           take i buf @ takeWhile (\<lambda>x. x \<noteq> 47) s @ drop (i + length (takeWhile (\<lambda>x. x \<noteq> 47) s)) buf,
           i + length (takeWhile (\<lambda>x. x \<noteq> 47) s))"
  using assms
proof (induction s arbitrary: buf i)
  case (Cons c s)
  then show ?case
    by (cases "c = 47")
       (auto simp: take_Suc_conv_app_nth upd_conv_take_nth_drop take_update_swap drop_update_swap ac_simps)
qed simp


abbreviation head_name :: "cbuf \<Rightarrow> cbuf" where
  "head_name s \<equiv> takeWhile (\<lambda>x. x \<noteq> 47) s"

abbreviation tail_path :: "cbuf \<Rightarrow> cbuf" where
  "tail_path s \<equiv> drop 1 (dropWhile (\<lambda>x. x \<noteq> 47) s)"

text \<open>The 128-byte buffer with a name in it.\<close>

definition name_buffer :: "cbuf \<Rightarrow> cbuf" where
  "name_buffer c = c @ replicate (128 - length c) 0"

lemma tail_path_subset: "0 \<notin> set s \<Longrightarrow> 0 \<notin> set (tail_path s)"
  by (meson in_set_dropD set_dropWhileD)

lemma skip_slash:
  "(let path = dropWhile (\<lambda>x. x \<noteq> 47) s @ 0 # r in if path ! 0 = 47 then drop 1 path else path)
     = tail_path s @ 0 # r"
proof (cases "dropWhile (\<lambda>x. x \<noteq> 47) s")
  case Nil
  show ?thesis unfolding Nil by simp
next
  case (Cons c t)
  then have "c = 47" by (metis (mono_tags) dropWhile_eq_Cons_conv)
  show ?thesis unfolding Cons by (simp add: \<open>c = 47\<close>)
qed

lemma get_next_path_part_ok:
  assumes k: "kheap_ok k" "0 < kheap_avail k" and s: "0 \<notin> set s" "length (head_name s) \<le> 128"
  obtains (none) k' where "head_name s = []"
      "get_next_path_part k (s @ 0 # r) = Some (None, tail_path s @ 0 # r, k')"
      "kheap_ok k'" "kheap_used k' = kheap_used k" "kheap_avail k' = kheap_avail k"
  | (some) p k' where "head_name s \<noteq> []"
      "get_next_path_part k (s @ 0 # r) =
         Some (Some (p, name_buffer (head_name s)), tail_path s @ 0 # r, k')"
      "kheap_ok k'" "p \<notin> kheap_used k" "kheap_used k' = insert p (kheap_used k)"
      "Suc (kheap_avail k') = kheap_avail k"
proof -
  from kpage.alloc_page [OF k(1) page_request_128 k(2)] obtain p k1 where
    p: "kzalloc k 128 = Some (p, k1)" "kheap_ok k1" "p \<noteq> 0" "p \<notin> kheap_used k"
    "kheap_used k1 = insert p (kheap_used k)" "Suc (kheap_avail k1) = kheap_avail k" by blast
  have loop: "part_loop (s @ 0 # r) (replicate 128 0) 0 =
     Some (dropWhile (\<lambda>x. x \<noteq> 47) s @ 0 # r, name_buffer (head_name s), length (head_name s))"
    using part_loop_eq [OF s(1), of 0 "replicate 128 0" r] s(2) by (simp add: name_buffer_def)
  show thesis
  proof (cases "head_name s = []")
    case True
    from kpage.alloc_release [OF k(1) page_request_128 k(2) p(1)] obtain k2 where
      k2: "kfree k1 p = Some k2" "kheap_ok k2" "kheap_used k2 = kheap_used k" "kheap_avail k2 = kheap_avail k"
      by blast
    have "get_next_path_part k (s @ 0 # r) = Some (None, tail_path s @ 0 # r, k2)"
      using p(1,3) k2(1) loop True skip_slash [of s r] by (simp add: get_next_path_part_def Let_def)
    from none [OF True this k2(2-4)] show thesis .
  next
    case False
    have "get_next_path_part k (s @ 0 # r) =
        Some (Some (p, name_buffer (head_name s)), tail_path s @ 0 # r, k1)"
      using p(1,3) loop False skip_slash [of s r] by (simp add: get_next_path_part_def Let_def)
    from some [OF False this p(2,4-6)] show thesis .
  qed
qed

text \<open>The heap blocks of a list of nodes.\<close>

definition part_pages :: "path_part list \<Rightarrow> addr list" where
  "part_pages parts = concat (map (\<lambda>p. [part_addr p, pp_addr p]) parts)"

lemma part_pages_simps [simp]:
  "part_pages [] = []" "part_pages (p # ps) = part_addr p # pp_addr p # part_pages ps"
  "part_pages (ps @ qs) = part_pages ps @ part_pages qs"
  by (simp_all add: part_pages_def)

lemma length_part_pages [simp]: "length (part_pages ps) = 2 * length ps"
  by (induction ps) auto

lemma parse_path_part_ok:
  assumes k: "kheap_ok k" "1 < kheap_avail k" and s: "0 \<notin> set s" "length (head_name s) \<le> 128"
  obtains (none) k' where "head_name s = []"
      "parse_path_part k (s @ 0 # r) = Some (None, tail_path s @ 0 # r, k')"
      "kheap_ok k'" "kheap_used k' = kheap_used k" "kheap_avail k' = kheap_avail k"
  | (some) p k' where "head_name s \<noteq> []"
      "parse_path_part k (s @ 0 # r) = Some (Some p, tail_path s @ 0 # r, k')"
      "part p = name_buffer (head_name s)" "kheap_ok k'"
      "set (part_pages [p]) \<inter> kheap_used k = {}" "distinct (part_pages [p])"
      "kheap_used k' = kheap_used k \<union> set (part_pages [p])" "kheap_avail k' + 2 = kheap_avail k"
proof -
  have "0 < kheap_avail k" using k(2) by simp
  from k(1) this s show thesis
  proof (cases rule: get_next_path_part_ok [where r = r])
    case (none k')
    then have "parse_path_part k (s @ 0 # r) = Some (None, tail_path s @ 0 # r, k')"
      by (simp add: parse_path_part_def)
    from that(1) [OF none(1) this none(3-5)] show thesis .
  next
    case (some q k1)
    have "0 < kheap_avail k1" using some(6) k(2) by simp
    from kpage.alloc_page [OF some(3) page_request_8 this] obtain a k2 where
      a: "kzalloc k1 8 = Some (a, k2)" "kheap_ok k2" "a \<noteq> 0" "a \<notin> kheap_used k1"
      "kheap_used k2 = insert a (kheap_used k1)" "Suc (kheap_avail k2) = kheap_avail k1" by blast
    let ?p = "\<lparr>pp_addr = a, part_addr = q, part = name_buffer (head_name s)\<rparr>"
    have "parse_path_part k (s @ 0 # r) = Some (Some ?p, tail_path s @ 0 # r, k2)"
      using some(2) a(1,3) by (simp add: parse_path_part_def)
    from that(2) [OF some(1) this _ a(2)] show thesis
      using a(4-6) some(4-6) by auto
  qed
qed


text \<open>What holding the nodes \<open>ps\<close> beyond the blocks of \<open>k\<close> means for the heap.\<close>

definition holds_parts :: "kmem \<Rightarrow> path_part list \<Rightarrow> kmem \<Rightarrow> bool" where
  "holds_parts k ps k' \<longleftrightarrow> kheap_ok k' \<and> distinct (part_pages ps)
     \<and> set (part_pages ps) \<inter> kheap_used k = {}
     \<and> kheap_used k' = kheap_used k \<union> set (part_pages ps)
     \<and> kheap_avail k' + 2 * length ps = kheap_avail k"

lemma length_head_name: "length (head_name s) \<le> length s"
  by (simp add: length_takeWhile_le)

lemma length_tail_path: "length (tail_path s) \<le> length s"
  using length_dropWhile_le [of "\<lambda>x. x \<noteq> 47" s] by simp

lemma parse_parts_ok:
  assumes "kheap_ok k" "0 \<notin> set s" "length s \<le> 128" "2 * length (components s) + 1 < kheap_avail k"
  shows "\<exists>ps rest k'. parse_parts k (s @ 0 # r) parts = Some (parts @ ps, rest, k')
     \<and> map part ps = map name_buffer (components s) \<and> holds_parts k ps k'"
  using assms
proof (induction s arbitrary: k parts rule: components.induct)
  case (1 s)
  have hd: "length (head_name s) \<le> 128" using length_head_name [of s] "1.prems"(3) by simp
  have "1 < kheap_avail k" using "1.prems"(4) by simp
  from "1.prems"(1) this "1.prems"(2) hd show ?case
  proof (cases rule: parse_path_part_ok [where r = r])
    case (none k')
    then show ?thesis
      using "1.prems"(1) by (subst parse_parts.simps) (auto simp: components.simps [of s] holds_parts_def)
  next
    case (some p k1)
    have c: "components s = head_name s # components (tail_path s)"
      using some(1) by (simp add: components.simps [of s] Let_def)
    have "2 * length (components (tail_path s)) + 1 < kheap_avail k1"
      using "1.prems"(4) some(8) c by simp
    with "1.IH" [OF refl some(1) some(4) tail_path_subset [OF "1.prems"(2)]]
      length_tail_path [of s] "1.prems"(3)
    obtain ps rest k2 where ps: "parse_parts k1 (tail_path s @ 0 # r) (parts @ [p]) = Some ((parts @ [p]) @ ps, rest, k2)"
      "map part ps = map name_buffer (components (tail_path s))" "holds_parts k1 ps k2"
      by (meson order_trans)
    have "parse_parts k (s @ 0 # r) parts = Some (parts @ (p # ps), rest, k2)"
      by (subst parse_parts.simps) (use ps(1) in \<open>simp add: some(2)\<close>)
    moreover have "holds_parts k (p # ps) k2"
      using ps(3) some(5-8) unfolding holds_parts_def by auto
    moreover have "map part (p # ps) = map name_buffer (components s)"
      unfolding c using ps(2) some(3) by simp
    ultimately show ?thesis by blast
  qed
qed

lemma free_parts_ok:
  assumes "kheap_ok k" "distinct (part_pages ps)" "set (part_pages ps) \<subseteq> kheap_used k"
  shows "\<exists>k'. free_parts k ps = Some k' \<and> kheap_ok k' \<and> kheap_used k' = kheap_used k - set (part_pages ps)
     \<and> kheap_avail k' = kheap_avail k + 2 * length ps"
  using assms
proof (induction ps arbitrary: k)
  case (Cons p ps)
  from Cons.prems(3) have u: "part_addr p \<in> kheap_used k" by simp
  from kpage.release_page [OF Cons.prems(1) u] obtain k1 where k1: "kfree k (part_addr p) = Some k1"
    "kheap_ok k1" "kheap_used k1 = kheap_used k - {part_addr p}" "kheap_avail k1 = Suc (kheap_avail k)" by blast
  have "pp_addr p \<in> kheap_used k1" using k1(3) Cons.prems(2,3) by auto
  from kpage.release_page [OF k1(2) this] obtain k2 where k2: "kfree k1 (pp_addr p) = Some k2"
    "kheap_ok k2" "kheap_used k2 = kheap_used k1 - {pp_addr p}" "kheap_avail k2 = Suc (kheap_avail k1)" by blast
  have "set (part_pages ps) \<subseteq> kheap_used k2" using k2(3) k1(3) Cons.prems(2,3) by auto
  with Cons.IH [OF k2(2)] Cons.prems(2) obtain k3 where "free_parts k2 ps = Some k3" "kheap_ok k3"
    "kheap_used k3 = kheap_used k2 - set (part_pages ps)" "kheap_avail k3 = kheap_avail k2 + 2 * length ps" by auto
  then show ?case using k1 k2 by auto
qed simp

section \<open>The whole parser\<close>

definition valid_path :: "cbuf \<Rightarrow> bool" where
  "valid_path s \<longleftrightarrow> 3 \<le> length s \<and> length s \<le> 128 \<and> is_digit (s ! 0) \<and> s ! 1 = 58 \<and> s ! 2 = 47"

lemma strlen_cstring: "0 \<notin> set s \<Longrightarrow> strlen (s @ 0 # r) = Some (length s)"
  by (induction s) auto

lemma is_valid_path_eq:
  assumes "0 \<notin> set s"
  shows "is_valid_path (s @ 0 # r) = Some (valid_path s)"
proof (cases "3 \<le> length s")
  case True
  then obtain a b c t where s: "s = a # b # c # t"
    by (metis Suc_le_length_iff numeral_3_eq_3)
  have "memcmp (b # c # t @ 0 # r) [58, 47, 0] 2 = Some 0 \<longleftrightarrow> b = 58 \<and> c = 47"
    by (subst memcmp_zero_iff) (auto simp: numeral_2_eq_2)
  moreover have "memcmp (b # c # t @ 0 # r) [58, 47, 0] 2 \<noteq> None" by (cases t) auto
  ultimately show ?thesis
    using True strlen_cstring [OF assms, of r]
    by (auto simp: is_valid_path_def valid_path_def s)
qed (use strlen_cstring [OF assms, of r] in \<open>auto simp: is_valid_path_def valid_path_def\<close>)

lemma get_drive_from_path_eq:
  assumes "0 \<notin> set s"
  shows "get_drive_from_path (s @ 0 # r) =
     (if valid_path s then Some (sint (s ! 0) - 48, drop 3 s @ 0 # r) else Some (- EBADPATH, s @ 0 # r))"
  using assms by (auto simp: get_drive_from_path_def is_valid_path_eq valid_path_def nth_append)

text \<open>The heap blocks of a parsed path.\<close>

definition root_pages :: "path_root \<Rightarrow> addr list" where
  "root_pages root = pr_addr root # part_pages (first_parts root)"

definition holds_root :: "kmem \<Rightarrow> path_root \<Rightarrow> kmem \<Rightarrow> bool" where
  "holds_root k root k' \<longleftrightarrow> kheap_ok k' \<and> distinct (root_pages root)
     \<and> set (root_pages root) \<inter> kheap_used k = {}
     \<and> kheap_used k' = kheap_used k \<union> set (root_pages root)
     \<and> kheap_avail k' + (1 + 2 * length (first_parts root)) = kheap_avail k"

lemma pathparser_parse_ok:
  assumes k: "kheap_ok k" "2 * length (components (drop 3 s)) + 3 < kheap_avail k" and s: "0 \<notin> set s"
  shows "\<exists>res k'. pathparser_parse k (s @ 0 # r) = Some (res, k') \<and>
     (if \<not> valid_path s then res = None \<and> k' = k
      else if components (drop 3 s) = [] then res = None \<and> kheap_ok k' \<and> Suc (kheap_avail k') = kheap_avail k
      else \<exists>root. res = Some root \<and> drive_number root = sint (s ! 0) - 48
        \<and> map part (first_parts root) = map name_buffer (components (drop 3 s)) \<and> holds_root k root k')"
proof (cases "valid_path s")
  case False
  then show ?thesis
    using s by (auto simp: pathparser_parse_def strlen_cstring get_drive_from_path_eq valid_path_def)
next
  case True
  let ?t = "drop 3 s"
  have len: "length s \<le> 128" and dig: "0 \<le> sint (s ! 0) - 48" using True by (auto simp: valid_path_def is_digit_def)
  have t: "0 \<notin> set ?t" "length ?t \<le> 128" using s len by (auto dest: in_set_dropD)
  have "0 < kheap_avail k" using k(2) by simp
  from kpage.alloc_page [OF k(1) page_request_8 this] obtain q k1 where
    q: "kzalloc k 8 = Some (q, k1)" "kheap_ok k1" "q \<noteq> 0" "q \<notin> kheap_used k"
    "kheap_used k1 = insert q (kheap_used k)" "Suc (kheap_avail k1) = kheap_avail k" by blast
  let ?root = "\<lparr>pr_addr = q, drive_number = sint (s ! 0) - 48, first_parts = []\<rparr>"
  have root: "create_root k (sint (s ! 0) - 48) = Some (?root, k1)"
    using q(1,3) by (simp add: create_root_def)
  have hd: "length (head_name ?t) \<le> 128" using length_head_name [of ?t] t(2) by simp
  have "1 < kheap_avail k1" using q(6) k(2) by simp
  from q(2) this t(1) hd show ?thesis
  proof (cases rule: parse_path_part_ok [where r = r])
    case (none k2)
    then have "components ?t = []" by (simp add: components.simps [of ?t])
    moreover have "pathparser_parse k (s @ 0 # r) = Some (None, k2)"
      using True s len dig root none(2) by (simp add: pathparser_parse_def strlen_cstring get_drive_from_path_eq)
    ultimately show ?thesis using True none q(6) by simp
  next
    case (some p k2)
    have c: "components ?t = head_name ?t # components (tail_path ?t)"
      using some(1) by (simp add: components.simps [of ?t] Let_def)
    have "2 * length (components (tail_path ?t)) + 1 < kheap_avail k2"
      using k(2) q(6) some(8) c by simp
    with parse_parts_ok [OF some(4) tail_path_subset [OF t(1)], of r "[p]"] length_tail_path [of ?t] t(2)
    obtain ps rest k3 where ps: "parse_parts k2 (tail_path ?t @ 0 # r) [p] = Some ([p] @ ps, rest, k3)"
      "map part ps = map name_buffer (components (tail_path ?t))" "holds_parts k2 ps k3"
      by (meson order_trans)
    have parse: "pathparser_parse k (s @ 0 # r) = Some (Some (?root\<lparr>first_parts := p # ps\<rparr>), k3)"
      using True s len dig root some(2) ps(1)
      by (simp add: pathparser_parse_def strlen_cstring get_drive_from_path_eq)
    have "holds_root k (?root\<lparr>first_parts := p # ps\<rparr>) k3"
      using ps(3) some(5-8) q(4-6) unfolding holds_root_def holds_parts_def root_pages_def by auto
    with True c parse ps(2) some(3) show ?thesis by simp
  qed
qed

lemma pathparser_free_ok:
  assumes "holds_root k root k'"
  shows "\<exists>k''. pathparser_free k' root = Some k'' \<and> kheap_ok k'' \<and> kheap_used k'' = kheap_used k
     \<and> kheap_avail k'' = kheap_avail k"
proof -
  have h: "kheap_ok k'" "distinct (root_pages root)" "set (root_pages root) \<inter> kheap_used k = {}"
    "kheap_used k' = kheap_used k \<union> set (root_pages root)"
    "kheap_avail k' + (1 + 2 * length (first_parts root)) = kheap_avail k"
    using assms by (auto simp: holds_root_def)
  obtain k1 where k1: "free_parts k' (first_parts root) = Some k1" "kheap_ok k1"
    "kheap_used k1 = kheap_used k' - set (part_pages (first_parts root))"
    "kheap_avail k1 = kheap_avail k' + 2 * length (first_parts root)"
    using free_parts_ok [OF h(1), of "first_parts root"] h(2,4) by (auto simp: root_pages_def)
  have "pr_addr root \<in> kheap_used k1" using k1(3) h(2,4) by (simp add: root_pages_def)
  from kpage.release_page [OF k1(2) this] obtain k2 where "kfree k1 (pr_addr root) = Some k2" "kheap_ok k2"
    "kheap_used k2 = kheap_used k1 - {pr_addr root}" "kheap_avail k2 = Suc (kheap_avail k1)" by blast
  then show ?thesis
    using k1 h by (auto simp: pathparser_free_def root_pages_def)
qed

end
