(* ===== verification/Disk.thy ===== *)
theory Disk
  imports KHeap
begin

text \<open>
  The ATA disk (\<^verbatim>\<open>src/disk/disk.c\<close>) and the byte streams over it (\<^verbatim>\<open>src/disk/streamer.c\<close>).
  The machine's port instructions (\<^verbatim>\<open>io.asm\<close>) act on a device of arbitrary state \<open>'d\<close> that is
  a parameter \<open>io\<close> of every operation; \<open>drive_serves\<close> is the documented behaviour of a
  drive in PIO mode that holds the sectors \<open>img\<close>.
\<close>

section \<open>Ports and the disk\<close>

record 'd ports =
  outb :: "u16 \<Rightarrow> byte \<Rightarrow> 'd \<Rightarrow> 'd"
  insb :: "u16 \<Rightarrow> 'd \<Rightarrow> byte \<times> 'd"
  insw :: "u16 \<Rightarrow> 'd \<Rightarrow> u16 \<times> 'd"

definition RASOS_SECTOR_SIZE :: int where [simp]: "RASOS_SECTOR_SIZE = 512"
definition RASOS_DISK_TYPE_REAL :: u32 where [simp]: "RASOS_DISK_TYPE_REAL = 0"

text \<open>A \<^verbatim>\<open>struct disk*\<close>: NULL, the address of the one global \<^verbatim>\<open>disk\<close>, or something else.\<close>

datatype disk_ref = NullDisk | TheDisk | OtherDisk addr

text \<open>
  \<^verbatim>\<open>struct disk\<close>; the only object a filesystem pointer of the kernel can point to is
  \<^verbatim>\<open>fat16_fs\<close>.
\<close>

datatype filesystem = Fat16_fs

record disk =
  disk_type :: u32
  sector_size :: int
  disk_id :: int
  disk_filesystem :: "filesystem option"
  fs_private :: addr

section \<open>disk.c\<close>

text \<open>The six port writes that start a 28-bit PIO read.\<close>

definition issue_read :: "'d ports \<Rightarrow> u32 \<Rightarrow> int \<Rightarrow> 'd \<Rightarrow> 'd" where
  "issue_read io lba tot d =
     (let d = outb io 0x1F6 (ucast (drop_bit 24 lba OR 0xE0)) d;
          d = outb io 0x1F2 (word_of_int tot) d;
          d = outb io 0x1F3 (ucast (lba AND 0xFF)) d;
          d = outb io 0x1F4 (ucast (drop_bit 8 lba)) d;
          d = outb io 0x1F5 (ucast (drop_bit 16 lba)) d
      in outb io 0x1F7 0x20 d)"

text \<open>The busy-wait on the DRQ bit; \<open>None\<close> when the drive never raises it.\<close>

partial_function (option) wait_drq :: "'d ports \<Rightarrow> 'd \<Rightarrow> 'd option" where
  "wait_drq io d =
     (let (c, d') = insb io 0x1F7 d in
      if c AND 0x08 \<noteq> 0 then Some d' else wait_drq io d')"

text \<open>One sector: 256 words from the data port, stored little-endian.\<close>

primrec read_words :: "'d ports \<Rightarrow> nat \<Rightarrow> 'd \<Rightarrow> cbuf \<times> 'd" where
  "read_words io 0 d = ([], d)"
| "read_words io (Suc n) d =
     (let (w, d) = insw io 0x1F0 d;
          (bs, d) = read_words io n d
      in (ucast w # ucast (drop_bit 8 w) # bs, d))"

primrec read_sectors :: "'d ports \<Rightarrow> nat \<Rightarrow> 'd \<Rightarrow> (cbuf \<times> 'd) option" where
  "read_sectors io 0 d = Some ([], d)"
| "read_sectors io (Suc n) d = do {
     d \<leftarrow> wait_drq io d;
     let (bs, d) = read_words io 256 d;
     (rest, d) \<leftarrow> read_sectors io n d;
     Some (bs @ rest, d)
   }"

text \<open>The bytes go to the front of the caller's buffer, which must hold them.\<close>

definition disk_read_sector :: "'d ports \<Rightarrow> u32 \<Rightarrow> int \<Rightarrow> cbuf \<Rightarrow> 'd \<Rightarrow> (int \<times> cbuf \<times> 'd) option" where
  "disk_read_sector io lba tot buffer d = do {
     (bs, d) \<leftarrow> read_sectors io (nat tot) (issue_read io lba tot d);
     if length bs \<le> length buffer then Some (0, bs @ drop (length bs) buffer, d) else None
   }"

definition disk_get :: "int \<Rightarrow> disk_ref" where
  "disk_get index = (if index \<noteq> 0 then NullDisk else TheDisk)"

definition disk_read_block ::
  "'d ports \<Rightarrow> disk_ref \<Rightarrow> u32 \<Rightarrow> int \<Rightarrow> cbuf \<Rightarrow> 'd \<Rightarrow> (int \<times> cbuf \<times> 'd) option" where
  "disk_read_block io in_disk lba tot buffer d =
     (if in_disk \<noteq> TheDisk then Some (- EIO, buffer, d)
      else disk_read_sector io lba tot buffer d)"

section \<open>streamer.c\<close>

record disk_stream =
  pos :: int
  sdisk :: disk_ref

definition diskstreamer_new :: "kmem \<Rightarrow> int \<Rightarrow> ((addr \<times> disk_stream) option \<times> kmem) option" where
  "diskstreamer_new k disk_number =
     (let disk = disk_get disk_number in
      if disk = NullDisk then Some (None, k)
      else do {
        (streamer, k) \<leftarrow> kzalloc k 8;
        if streamer = 0 then None
        else Some (Some (streamer, \<lparr>pos = 0, sdisk = disk\<rparr>), k)
      })"

definition diskstreamer_seek :: "disk_stream \<Rightarrow> int \<Rightarrow> int \<times> disk_stream" where
  "diskstreamer_seek stream p = (0, stream\<lparr>pos := p\<rparr>)"

text \<open>The copy of \<open>n\<close> bytes from \<^verbatim>\<open>buf[offset]\<close> on; \<open>None\<close> outside of the buffer.\<close>

definition copy_out :: "cbuf \<Rightarrow> int \<Rightarrow> int \<Rightarrow> cbuf option" where
  "copy_out buf offset n =
     (if n \<le> 0 then Some []
      else if 0 \<le> offset \<and> offset + n \<le> int (length buf) then Some (take (nat n) (drop (nat offset) buf))
      else None)"

lemma smod_512_less: "(p::int) smod 512 < 512"
  using smod_int_range [of 512 p] smod_int_compares [of p 512] by auto

text \<open>The result, the bytes written to \<^verbatim>\<open>out\<close>, the stream and the device.\<close>

function diskstreamer_read ::
  "'d ports \<Rightarrow> disk_stream \<Rightarrow> int \<Rightarrow> 'd \<Rightarrow> (int \<times> cbuf \<times> disk_stream \<times> 'd) option" where
  "diskstreamer_read io stream tot d =
     (let sector = pos stream sdiv RASOS_SECTOR_SIZE;
          offset = pos stream smod RASOS_SECTOR_SIZE;
          is_overflow = offset + tot \<ge> RASOS_SECTOR_SIZE;
          bytes_in_current_sector = (if is_overflow then RASOS_SECTOR_SIZE - offset else tot)
      in case disk_read_block io (sdisk stream) (word_of_int sector) 1 (replicate 512 0) d of
           None \<Rightarrow> None
         | Some (res, buf, d) \<Rightarrow>
             if res < 0 then Some (res, [], stream, d)
             else (case copy_out buf offset bytes_in_current_sector of
               None \<Rightarrow> None
             | Some bs \<Rightarrow>
                 let stream = stream\<lparr>pos := pos stream + bytes_in_current_sector\<rparr> in
                 if is_overflow then
                   (case diskstreamer_read io stream (tot - bytes_in_current_sector) d of
                      None \<Rightarrow> None
                    | Some (res, rest, stream, d) \<Rightarrow> Some (res, bs @ rest, stream, d))
                 else Some (res, bs, stream, d)))"
  by pat_completeness auto

termination
proof (relation "measure (\<lambda>(io, stream, tot, d). nat tot)", goal_cases)
  case 1
  show ?case by simp
next
  case (2 io stream tot d)
  then show ?case using smod_512_less [of "pos stream"] by auto
qed

declare diskstreamer_read.simps [simp del]

definition diskstreamer_close :: "kmem \<Rightarrow> addr \<Rightarrow> kmem option" where
  "diskstreamer_close k stream = kfree k stream"

section \<open>What a drive in PIO mode does\<close>

text \<open>
  \<open>pend d\<close> is the list of words the drive still has to deliver in state \<open>d\<close>, \<open>img\<close> the words of
  each sector.  A read command of \<open>n\<close> sectors makes their words pending; while words of a whole
  number of sectors are pending the status port eventually shows DRQ; the data port delivers
  the pending words in order.
\<close>

definition drive_serves :: "'d ports \<Rightarrow> (nat \<Rightarrow> u16 list) \<Rightarrow> ('d \<Rightarrow> u16 list) \<Rightarrow> bool" where
  "drive_serves io img pend \<longleftrightarrow>
     (\<forall>s. length (img s) = 256) \<and>
     (\<forall>d lba n. 0 < n \<longrightarrow> n < 256 \<longrightarrow> lba + n \<le> 2 ^ 28 \<longrightarrow>
        pend (issue_read io (word_of_nat lba) (int n) d) = concat (map img [lba..<lba + n])) \<and>
     (\<forall>d. pend d \<noteq> [] \<longrightarrow> 256 dvd length (pend d) \<longrightarrow>
        (\<exists>d'. wait_drq io d = Some d' \<and> pend d' = pend d)) \<and>
     (\<forall>d w ws. pend d = w # ws \<longrightarrow> (\<exists>d'. insw io 0x1F0 d = (w, d') \<and> pend d' = ws))"

lemma drive_servesD:
  assumes "drive_serves io img pend"
  shows "length (img s) = 256"
    and "0 < n \<Longrightarrow> n < 256 \<Longrightarrow> lba + n \<le> 2 ^ 28 \<Longrightarrow>
        pend (issue_read io (word_of_nat lba) (int n) d) = concat (map img [lba..<lba + n])"
    and "pend d \<noteq> [] \<Longrightarrow> 256 dvd length (pend d) \<Longrightarrow>
        \<exists>d'. wait_drq io d = Some d' \<and> pend d' = pend d"
    and "pend d = w # ws \<Longrightarrow> \<exists>d'. insw io 0x1F0 d = (w, d') \<and> pend d' = ws"
  using assms unfolding drive_serves_def by blast+

definition le_bytes :: "u16 list \<Rightarrow> cbuf" where
  "le_bytes ws = concat (map (\<lambda>w. [ucast w, ucast (drop_bit 8 w)]) ws)"

lemma le_bytes_simps [simp]:
  "le_bytes [] = []" "le_bytes (w # ws) = ucast w # ucast (drop_bit 8 w) # le_bytes ws"
  "le_bytes (xs @ ys) = le_bytes xs @ le_bytes ys"
  by (simp_all add: le_bytes_def)

lemma length_le_bytes [simp]: "length (le_bytes ws) = 2 * length ws"
  by (induction ws) simp_all

lemma read_words_pend:
  assumes "drive_serves io img pend" "pend d = ws @ rest" "length ws = n"
  shows "\<exists>d'. read_words io n d = (le_bytes ws, d') \<and> pend d' = rest"
  using assms(2,3)
proof (induction n arbitrary: d ws)
  case (Suc n)
  then obtain w ws' where w: "ws = w # ws'" by (cases ws) auto
  obtain d1 where d1: "insw io 0x1F0 d = (w, d1)" "pend d1 = ws' @ rest"
    using drive_servesD(4) [OF assms(1), of d w "ws' @ rest"] Suc.prems w by auto
  then obtain d2 where "read_words io n d1 = (le_bytes ws', d2)" "pend d2 = rest"
    using Suc.IH [OF d1(2)] Suc.prems w by auto
  then show ?case using d1 w by simp
qed simp

lemma read_sectors_pend:
  assumes "drive_serves io img pend" "pend d = concat (map img ss)"
  shows "\<exists>d'. read_sectors io (length ss) d = Some (le_bytes (concat (map img ss)), d') \<and> pend d' = []"
  using assms(2)
proof (induction ss arbitrary: d)
  case (Cons s ss)
  have len: "length (img t) = 256" for t using assms(1) by (rule drive_servesD)
  have "length (concat (map img ts)) = 256 * length ts" for ts
    by (induction ts) (simp_all add: len)
  then have l: "length (pend d) = 256 * length (s # ss)" unfolding Cons.prems .
  then have "256 dvd length (pend d)" by (rule ssubst) simp
  moreover have "pend d \<noteq> []" using l by auto
  ultimately obtain d1 where d1: "wait_drq io d = Some d1" "pend d1 = img s @ concat (map img ss)"
    using drive_servesD(3) [OF assms(1), of d] Cons.prems by auto
  obtain d2 where d2: "read_words io 256 d1 = (le_bytes (img s), d2)" "pend d2 = concat (map img ss)"
    using read_words_pend [OF assms(1) d1(2) len] by auto
  obtain d3 where "read_sectors io (length ss) d2 = Some (le_bytes (concat (map img ss)), d3)" "pend d3 = []"
    using Cons.IH [OF d2(2)] by auto
  then show ?case using d1 d2 by simp
qed simp

text \<open>The drive after \<open>n\<close> polls of its status register, and whether the next poll shows the DRQ bit.\<close>

primrec polled :: "'d ports \<Rightarrow> nat \<Rightarrow> 'd \<Rightarrow> 'd" where
  "polled io 0 d = d"
| "polled io (Suc n) d = polled io n (snd (insb io 0x1F7 d))"

definition raises_drq :: "'d ports \<Rightarrow> 'd \<Rightarrow> bool" where
  "raises_drq io d \<longleftrightarrow> fst (insb io 0x1F7 d) AND 0x08 \<noteq> 0"

lemma wait_drq_step:
  "wait_drq io d = (if raises_drq io d then Some (snd (insb io 0x1F7 d)) else wait_drq io (snd (insb io 0x1F7 d)))"
  by (subst wait_drq.simps) (simp add: raises_drq_def split: prod.split)

lemma wait_drq_polls:
  assumes "wait_drq io d = Some d'"
  shows "\<exists>n. raises_drq io (polled io n d)"
proof (rule wait_drq.raw_induct [where P = "\<lambda>io d d'. \<exists>n. raises_drq io (polled io n d)", OF _ assms])
  fix f and io :: "'d ports" and d d'
  assume IH: "\<And>io d d'. f io d = Some d' \<Longrightarrow> \<exists>n. raises_drq io (polled io n d)"
    and run: "(let (c, d') = insb io 0x1F7 d in if c AND 0x08 \<noteq> 0 then Some d' else f io d') = Some d'"
  obtain c d1 where i: "insb io 0x1F7 d = (c, d1)" by fastforce
  show "\<exists>n. raises_drq io (polled io n d)"
  proof (cases "c AND 0x08 \<noteq> 0")
    case True
    then show ?thesis using i by (intro exI [of _ 0]) (simp add: raises_drq_def)
  next
    case False
    then have "f io d1 = Some d'" using run i by simp
    then obtain n where "raises_drq io (polled io n d1)" using IH by blast
    then show ?thesis using i by (intro exI [of _ "Suc n"]) simp
  qed
qed

lemma wait_drq_returns: "(\<exists>d'. wait_drq io d = Some d') \<longleftrightarrow> (\<exists>n. raises_drq io (polled io n d))"
proof
  assume "\<exists>n. raises_drq io (polled io n d)"
  then obtain n where "raises_drq io (polled io n d)" by blast
  then show "\<exists>d'. wait_drq io d = Some d'"
    by (induction n arbitrary: d) (subst wait_drq_step, simp)+
qed (blast dest: wait_drq_polls)

lemma length_read_words [simp]: "length (fst (read_words io n d)) = 2 * n"
  by (induction n arbitrary: d) (simp_all add: split_def Let_def)

lemma disk_read_sector_ok:
  assumes "drive_serves io img pend" "0 < n" "n < 256" "lba + n \<le> 2 ^ 28" "512 * n \<le> length buffer"
  shows "\<exists>d'. disk_read_sector io (word_of_nat lba) (int n) buffer d =
    Some (0, le_bytes (concat (map img [lba..<lba + n])) @ drop (512 * n) buffer, d')"
proof -
  let ?ss = "[lba..<lba + n]"
  have "length (concat (map img ss)) = 256 * length ss" for ss
    by (induction ss) (simp_all add: drive_servesD(1) [OF assms(1)])
  then have "length (concat (map img ?ss)) = 256 * n" by (simp del: upt_Suc)
  moreover obtain d' where "read_sectors io (length ?ss) (issue_read io (word_of_nat lba) (int n) d)
      = Some (le_bytes (concat (map img ?ss)), d')"
    using read_sectors_pend [OF assms(1) drive_servesD(2) [OF assms(1-4)], of d] by auto
  ultimately show ?thesis using assms(5) by (simp add: disk_read_sector_def)
qed

section \<open>The stream reads the bytes of the image\<close>

definition img_byte :: "(nat \<Rightarrow> u16 list) \<Rightarrow> nat \<Rightarrow> byte" where
  "img_byte img p = le_bytes (img (p div 512)) ! (p mod 512)"
definition img_bytes :: "(nat \<Rightarrow> u16 list) \<Rightarrow> nat \<Rightarrow> nat \<Rightarrow> cbuf" where
  "img_bytes img p n = map (img_byte img) [p..<p + n]"

lemma length_img_bytes [simp]: "length (img_bytes img p n) = n"
  by (simp add: img_bytes_def)
lemma img_bytes_0 [simp]: "img_bytes img p 0 = []"
  by (simp add: img_bytes_def)
lemma img_bytes_append: "img_bytes img p (m + n) = img_bytes img p m @ img_bytes img (p + m) n"
  using upt_add_eq_append [of p "p + m" n] by (simp add: img_bytes_def add.assoc)

lemma img_bytes_in_sector:
  assumes "length (img (p div 512)) = 256" "p mod 512 + n \<le> 512"
  shows "img_bytes img p n = take n (drop (p mod 512) (le_bytes (img (p div 512))))"
proof (rule nth_equalityI)
  show "length (img_bytes img p n) = length (take n (drop (p mod 512) (le_bytes (img (p div 512)))))"
    using assms by simp
  fix i assume i: "i < length (img_bytes img p n)"
  then have r: "p mod 512 + i < 512" using assms(2) by simp
  have "p + i = 512 * (p div 512) + (p mod 512 + i)" by simp
  then have "(p + i) div 512 = p div 512" "(p + i) mod 512 = p mod 512 + i"
    using div_mult_self4 [of 512 "p div 512" "p mod 512 + i"] mod_mult_self4 [of 512 "p div 512" "p mod 512 + i"] r
    by (metis add.right_neutral div_less mod_less zero_neq_numeral)+
  then show "img_bytes img p n ! i = take n (drop (p mod 512) (le_bytes (img (p div 512)))) ! i"
    using i assms by (simp add: img_bytes_def img_byte_def)
qed

lemma sdivmod_512: "0 \<le> p \<Longrightarrow> p sdiv 512 = int (nat p div 512)" "0 \<le> p \<Longrightarrow> p smod 512 = int (nat p mod 512)"
  for p :: int
  by (auto simp: signed_divide_int_def signed_modulo_int_def zdiv_int zmod_int sgn_if)

lemma stream_sector:
  assumes "drive_serves io img pend" "sdisk s = TheDisk" "0 \<le> pos s" "pos s < 2 ^ 31"
  shows "\<exists>d'. disk_read_block io (sdisk s) (word_of_int (pos s sdiv 512)) 1 (replicate 512 0) d =
    Some (0, le_bytes (img (nat (pos s) div 512)), d')"
proof -
  have "nat (pos s) div 512 + 1 \<le> 2 ^ 28" using assms(3,4) by auto
  then show ?thesis
    using disk_read_sector_ok [OF assms(1), of 1 "nat (pos s) div 512" "replicate 512 0" d] assms(2,3)
    by (simp add: disk_read_block_def sdivmod_512)
qed

lemma diskstreamer_read_ok:
  assumes "drive_serves io img pend" "sdisk s = TheDisk" "0 \<le> pos s" "0 \<le> n" "pos s + n < 2 ^ 31"
  shows "\<exists>d'. diskstreamer_read io s n d =
    Some (0, img_bytes img (nat (pos s)) (nat n), s\<lparr>pos := pos s + n\<rparr>, d')"
  using assms(2-5)
proof (induction "nat n" arbitrary: s n d rule: less_induct)
  case less
  let ?p = "nat (pos s)"
  let ?o = "?p mod 512"
  have len: "length (img k) = 256" for k using assms(1) by (rule drive_servesD)
  obtain d1 where d1: "disk_read_block io (sdisk s) (word_of_int (pos s sdiv 512)) 1 (replicate 512 0) d =
    Some (0, le_bytes (img (?p div 512)), d1)"
    using stream_sector [OF assms(1) less.prems(1,2)] less.prems by fastforce
  show ?case
  proof (cases "int ?o + n \<ge> 512")
    case False
    have "copy_out (le_bytes (img (?p div 512))) (int ?o) n = Some (img_bytes img ?p (nat n))"
      using False less.prems len by (auto simp: copy_out_def img_bytes_in_sector)
    then show ?thesis
      using d1 False less.prems
      by (subst diskstreamer_read.simps) (simp add: sdivmod_512 Let_def)
  next
    case True
    let ?m = "512 - ?o"
    let ?s = "s\<lparr>pos := pos s + int ?m\<rparr>"
    have o: "?o < 512" by simp
    have cp: "copy_out (le_bytes (img (?p div 512))) (int ?o) (512 - int ?o) = Some (img_bytes img ?p ?m)"
      using len o by (auto simp: copy_out_def img_bytes_in_sector nat_diff_distrib)
    obtain d2 where d2: "diskstreamer_read io ?s (n - int ?m) d1 =
      Some (0, img_bytes img (nat (pos ?s)) (nat (n - int ?m)), ?s\<lparr>pos := pos ?s + (n - int ?m)\<rparr>, d2)"
      using less.hyps [of "n - int ?m" ?s d1] less.prems True o by auto
    have "nat n = ?m + nat (n - int ?m)" "nat (pos ?s) = ?p + ?m" using True less.prems o by auto
    then have "img_bytes img ?p (nat n) = img_bytes img ?p ?m @ img_bytes img (nat (pos ?s)) (nat (n - int ?m))"
      using img_bytes_append [of img ?p ?m] by simp
    then show ?thesis
      using d1 d2 cp True less.prems o
      by (subst diskstreamer_read.simps) (simp add: sdivmod_512 of_nat_diff Let_def)
  qed
qed

end
