(* ===== verification/Fat16.thy ===== *)
theory Fat16
  imports CString PathParser Disk
begin

text \<open>
  The FAT16 driver (\<^verbatim>\<open>src/fs/fat/fat16.c\<close>), first half: the on-disk and in-memory data, the
  state, the volume geometry, the file allocation table and the reading of cluster chains.

  Every object the driver allocates lives in a typed store of \<open>fs_state\<close> keyed by its heap
  address; \<open>fs_free\<close> removes it, so that a use after free or of NULL is \<open>None\<close>.  Directory
  items are kept as the bytes of their array: a pointer to an item is the list of the bytes from
  the item to the end of the array.
\<close>

section \<open>Data\<close>

definition RASOS_FAT16_SIGNATURE :: byte where [simp]: "RASOS_FAT16_SIGNATURE = 0x29"
definition RASOS_FAT16_FAT_ENTRY_SIZE :: int where [simp]: "RASOS_FAT16_FAT_ENTRY_SIZE = 2"
definition RASOS_FAT16_BAD_SECTOR :: int where [simp]: "RASOS_FAT16_BAD_SECTOR = 0xFF7"
definition FAT_ITEM_TYPE_DIRECTORY :: u32 where [simp]: "FAT_ITEM_TYPE_DIRECTORY = 0"
definition FAT_ITEM_TYPE_FILE :: u32 where [simp]: "FAT_ITEM_TYPE_FILE = 1"
definition FAT_FILE_READ_ONLY :: byte where [simp]: "FAT_FILE_READ_ONLY = 0x01"
definition FAT_FILE_SUBDIRECTORY :: byte where [simp]: "FAT_FILE_SUBDIRECTORY = 0x10"

record fat_header_extended =
  drive_no :: byte
  win_nt_bit :: byte
  signature :: byte
  volume_id :: u32
  volume_id_string :: cbuf
  system_id_string :: cbuf

record fat_header =
  short_jmp_ins :: cbuf
  oem_identifier :: cbuf
  bytes_per_sector :: u16
  sectors_per_cluster :: byte
  reserved_sectors :: u16
  fat_copies :: byte
  root_dir_entries :: u16
  number_of_sectors :: u16
  media_type :: byte
  sectors_per_fat :: u16
  sectors_per_track :: u16
  number_of_heads :: u16
  hidden_setors :: u32
  sectors_big :: u32

record fat_h =
  primary_header :: fat_header
  extended_header :: fat_header_extended

record fat_directory_item =
  filename :: cbuf
  ext :: cbuf
  attribute :: byte
  item_reserved :: byte
  creation_time_tenths_of_a_sec :: byte
  creation_time :: u16
  creation_date :: u16
  last_access :: u16
  high_16_bits_first_cluster :: u16
  last_mod_time :: u16
  last_mod_date :: u16
  low_16_bits_first_cluster :: u16
  filesize :: u32

record fat_directory =
  dir_item :: addr
  dir_total :: int
  sector_pos :: int
  ending_sector_pos :: int

text \<open>The union of the two pointers of \<^verbatim>\<open>struct fat_item\<close> is one address.\<close>

record fat_item =
  item_ptr :: addr
  item_type :: u32

record fat_file_descriptor =
  desc_item :: addr
  desc_pos :: u32

record fat_private =
  header :: fat_h
  root_directory :: fat_directory
  cluster_read_stream :: addr
  fat_read_stream :: addr
  directory_stream :: addr

text \<open>The packed structs as the compiler reads them from bytes.\<close>

definition le16 :: "cbuf \<Rightarrow> nat \<Rightarrow> u16" where
  "le16 b i = ucast (b ! i) OR push_bit 8 (ucast (b ! (i + 1)))"
definition le32 :: "cbuf \<Rightarrow> nat \<Rightarrow> u32" where
  "le32 b i = ucast (le16 b i) OR push_bit 16 (ucast (le16 b (i + 2)))"

definition fat_h_of_bytes :: "cbuf \<Rightarrow> fat_h" where
  "fat_h_of_bytes b = \<lparr>
     primary_header = \<lparr>
       short_jmp_ins = take 3 b, oem_identifier = take 8 (drop 3 b), bytes_per_sector = le16 b 11,
       sectors_per_cluster = b ! 13, reserved_sectors = le16 b 14, fat_copies = b ! 16,
       root_dir_entries = le16 b 17, number_of_sectors = le16 b 19, media_type = b ! 21,
       sectors_per_fat = le16 b 22, sectors_per_track = le16 b 24, number_of_heads = le16 b 26,
       hidden_setors = le32 b 28, sectors_big = le32 b 32\<rparr>,
     extended_header = \<lparr>
       drive_no = b ! 36, win_nt_bit = b ! 37, signature = b ! 38, volume_id = le32 b 39,
       volume_id_string = take 11 (drop 43 b), system_id_string = take 8 (drop 54 b)\<rparr>\<rparr>"

definition item_of_bytes :: "cbuf \<Rightarrow> fat_directory_item" where
  "item_of_bytes b = \<lparr>
     filename = take 8 b, ext = take 3 (drop 8 b), attribute = b ! 11, item_reserved = b ! 12,
     creation_time_tenths_of_a_sec = b ! 13, creation_time = le16 b 14, creation_date = le16 b 16,
     last_access = le16 b 18, high_16_bits_first_cluster = le16 b 20, last_mod_time = le16 b 22,
     last_mod_date = le16 b 24, low_16_bits_first_cluster = le16 b 26, filesize = le32 b 28\<rparr>"

text \<open>A pointer to element \<open>i\<close> of an array of directory items.\<close>

definition item_at :: "cbuf \<Rightarrow> int \<Rightarrow> cbuf option" where
  "item_at arr i =
     (if 0 \<le> i \<and> 32 * (nat i + 1) \<le> length arr then Some (drop (32 * nat i) arr) else None)"

section \<open>State\<close>

record 'd fs_state =
  fs_kmem :: kmem
  fs_dev :: 'd
  the_disk :: disk
  streams :: "addr \<Rightarrow> disk_stream option"
  item_arrays :: "addr \<Rightarrow> cbuf option"
  directories :: "addr \<Rightarrow> fat_directory option"
  fat_items :: "addr \<Rightarrow> fat_item option"
  descriptors :: "addr \<Rightarrow> fat_file_descriptor option"
  privates :: "addr \<Rightarrow> fat_private option"

definition fs_zalloc :: "'d fs_state \<Rightarrow> u32 \<Rightarrow> (addr \<times> 'd fs_state) option" where
  "fs_zalloc st n = do { (p, k) \<leftarrow> kzalloc (fs_kmem st) n; Some (p, st\<lparr>fs_kmem := k\<rparr>) }"

definition fs_free :: "'d fs_state \<Rightarrow> addr \<Rightarrow> 'd fs_state option" where
  "fs_free st p = do {
     k \<leftarrow> kfree (fs_kmem st) p;
     Some (st\<lparr>fs_kmem := k, streams := (streams st)(p := None), item_arrays := (item_arrays st)(p := None),
       directories := (directories st)(p := None), fat_items := (fat_items st)(p := None),
       descriptors := (descriptors st)(p := None), privates := (privates st)(p := None)\<rparr>)
   }"

text \<open>The streamer calls through a stream pointer.\<close>

definition stream_new :: "'d fs_state \<Rightarrow> int \<Rightarrow> (addr \<times> 'd fs_state) option" where
  "stream_new st disk_number = do {
     (r, k) \<leftarrow> diskstreamer_new (fs_kmem st) disk_number;
     Some (case r of
       None \<Rightarrow> (0, st\<lparr>fs_kmem := k\<rparr>)
     | Some (p, s) \<Rightarrow> (p, st\<lparr>fs_kmem := k, streams := (streams st)(p \<mapsto> s)\<rparr>))
   }"

definition stream_seek :: "'d fs_state \<Rightarrow> addr \<Rightarrow> int \<Rightarrow> (int \<times> 'd fs_state) option" where
  "stream_seek st p target = do {
     s \<leftarrow> streams st p;
     let (r, s) = diskstreamer_seek s target;
     Some (r, st\<lparr>streams := (streams st)(p \<mapsto> s)\<rparr>)
   }"

definition stream_read :: "'d ports \<Rightarrow> 'd fs_state \<Rightarrow> addr \<Rightarrow> int \<Rightarrow> (int \<times> cbuf \<times> 'd fs_state) option" where
  "stream_read io st p n = do {
     s \<leftarrow> streams st p;
     (r, bs, s, d) \<leftarrow> diskstreamer_read io s n (fs_dev st);
     Some (r, bs, st\<lparr>fs_dev := d, streams := (streams st)(p \<mapsto> s)\<rparr>)
   }"

definition stream_close :: "'d fs_state \<Rightarrow> addr \<Rightarrow> 'd fs_state option" where
  "stream_close st p = fs_free st p"

definition private_of :: "'d fs_state \<Rightarrow> fat_private option" where
  "private_of st = privates st (fs_private (the_disk st))"

section \<open>Geometry and the allocation table\<close>

text \<open>A C \<^verbatim>\<open>int\<close> computed from operands that may leave its range, and its division.\<close>

definition c_int :: "int \<Rightarrow> int" where
  "c_int x = sint (word_of_int x :: u32)"
definition c_div :: "int \<Rightarrow> int \<Rightarrow> int option" where
  "c_div a b = (if b = 0 then None else Some (a sdiv b))"
definition c_mod :: "int \<Rightarrow> int \<Rightarrow> int option" where
  "c_mod a b = (if b = 0 then None else Some (a smod b))"

definition fat16_sector_to_absolute :: "disk \<Rightarrow> int \<Rightarrow> int" where
  "fat16_sector_to_absolute dk sector = c_int (sector * sector_size dk)"

definition fat16_cluster_to_sector :: "fat_private \<Rightarrow> int \<Rightarrow> int" where
  "fat16_cluster_to_sector priv cluster = c_int (ending_sector_pos (root_directory priv)
     + (cluster - 2) * uint (sectors_per_cluster (primary_header (header priv))))"

definition fat16_get_first_cluster :: "fat_directory_item \<Rightarrow> u32" where
  "fat16_get_first_cluster it =
     push_bit 16 (ucast (high_16_bits_first_cluster it)) OR ucast (low_16_bits_first_cluster it)"

definition fat16_get_first_fat_sector :: "fat_private \<Rightarrow> u32" where
  "fat16_get_first_fat_sector priv = ucast (reserved_sectors (primary_header (header priv)))"

text \<open>The result type \<^verbatim>\<open>uint16_t\<close> also truncates the error codes.\<close>

definition fat16_get_fat_entry :: "'d ports \<Rightarrow> 'd fs_state \<Rightarrow> int \<Rightarrow> (u16 \<times> 'd fs_state) option" where
  "fat16_get_fat_entry io st cluster = do {
     priv \<leftarrow> private_of st;
     let stream = fat_read_stream priv;
     if stream = 0 then Some (- 1, st)
     else do {
       let fat_table_start = fat16_get_first_fat_sector priv * word_of_int (sector_size (the_disk st));
       (res, st) \<leftarrow> stream_seek st stream
         (sint (fat_table_start + word_of_int (cluster * RASOS_FAT16_FAT_ENTRY_SIZE)));
       if res < 0 then Some (word_of_int res, st)
       else do {
         (res, result, st) \<leftarrow> stream_read io st stream 2;
         if res < 0 then Some (word_of_int res, st) else Some (le16 result 0, st)
       }
     }
   }"

text \<open>The walk of \<open>n\<close> links; the entry tests are the ones of the code.\<close>

definition chain_error :: "int \<Rightarrow> bool" where
  "chain_error entry \<longleftrightarrow> entry = 0xFF8 \<or> entry = 0xFFF \<or> entry = RASOS_FAT16_BAD_SECTOR
     \<or> entry = 0xFF0 \<or> entry = 0xFF6 \<or> entry = 0"

primrec chain_loop :: "'d ports \<Rightarrow> nat \<Rightarrow> int \<Rightarrow> 'd fs_state \<Rightarrow> (int \<times> 'd fs_state) option" where
  "chain_loop io 0 current_cluster st = Some (current_cluster, st)"
| "chain_loop io (Suc n) current_cluster st = do {
     (entry, st) \<leftarrow> fat16_get_fat_entry io st current_cluster;
     if chain_error (uint entry) then Some (- EIO, st) else chain_loop io n (uint entry) st
   }"

definition cluster_bytes :: "'d fs_state \<Rightarrow> fat_private \<Rightarrow> int" where
  "cluster_bytes st priv =
     uint (sectors_per_cluster (primary_header (header priv))) * sector_size (the_disk st)"

definition fat16_get_cluster_for_offset ::
  "'d ports \<Rightarrow> 'd fs_state \<Rightarrow> int \<Rightarrow> int \<Rightarrow> (int \<times> 'd fs_state) option" where
  "fat16_get_cluster_for_offset io st starting_cluster offset = do {
     priv \<leftarrow> private_of st;
     clusters_ahead \<leftarrow> c_div offset (cluster_bytes st priv);
     chain_loop io (nat clusters_ahead) starting_cluster st
   }"

section \<open>Reading a cluster chain\<close>

text \<open>One turn: the result, the bytes read, how many were asked for, and the state.\<close>

definition read_turn ::
  "'d ports \<Rightarrow> 'd fs_state \<Rightarrow> addr \<Rightarrow> int \<Rightarrow> int \<Rightarrow> int \<Rightarrow> (int \<times> cbuf \<times> int \<times> 'd fs_state) option" where
  "read_turn io st stream cluster offset tot = do {
     priv \<leftarrow> private_of st;
     let size_of_cluster_bytes = cluster_bytes st priv;
     (cluster_to_use, st) \<leftarrow> fat16_get_cluster_for_offset io st cluster offset;
     if cluster_to_use < 0 then Some (cluster_to_use, [], 0, st)
     else do {
       offset_within_cluster \<leftarrow> c_mod offset size_of_cluster_bytes;
       let starting_sector = fat16_cluster_to_sector priv cluster_to_use;
       let starting_pos = c_int (starting_sector * sector_size (the_disk st) + offset_within_cluster);
       let total_to_read = (if tot > size_of_cluster_bytes then size_of_cluster_bytes else tot);
       (res, st) \<leftarrow> stream_seek st stream starting_pos;
       if res \<noteq> OK then Some (res, [], 0, st)
       else do {
         (res, out, st) \<leftarrow> stream_read io st stream total_to_read;
         Some (res, out, total_to_read, st)
       }
     }
   }"

partial_function (option) fat16_read_internal_from_stream ::
  "'d ports \<Rightarrow> addr \<Rightarrow> int \<Rightarrow> int \<Rightarrow> int \<Rightarrow> 'd fs_state \<Rightarrow> (int \<times> cbuf \<times> 'd fs_state) option" where
  "fat16_read_internal_from_stream io stream cluster offset tot st =
     Option.bind (read_turn io st stream cluster offset tot) (\<lambda>(res, out, n, st).
       if res \<noteq> OK then Some (res, out, st)
       else if tot - n > 0 then
         Option.bind (fat16_read_internal_from_stream io stream cluster (offset + n) (tot - n) st)
           (\<lambda>(res, rest, st). Some (res, out @ rest, st))
       else Some (res, out, st))"

definition fat16_read_internal ::
  "'d ports \<Rightarrow> 'd fs_state \<Rightarrow> int \<Rightarrow> int \<Rightarrow> int \<Rightarrow> (int \<times> cbuf \<times> 'd fs_state) option" where
  "fat16_read_internal io st starting_cluster offset tot = do {
     priv \<leftarrow> private_of st;
     fat16_read_internal_from_stream io (cluster_read_stream priv) starting_cluster offset tot st
   }"

section \<open>A mounted volume\<close>

text \<open>
  The mounted driver over a drive that holds \<open>img\<close>: its private data is there, its streams are open
  on the disk.  Reading moves only the device and the stream positions.
\<close>

definition open_stream :: "'d fs_state \<Rightarrow> addr \<Rightarrow> bool" where
  "open_stream st p \<longleftrightarrow> p \<noteq> 0 \<and> (\<exists>s. streams st p = Some s \<and> sdisk s = TheDisk)"

definition mounted :: "'d ports \<Rightarrow> (nat \<Rightarrow> u16 list) \<Rightarrow> ('d \<Rightarrow> u16 list) \<Rightarrow> fat_private \<Rightarrow> 'd fs_state \<Rightarrow> bool" where
  "mounted io img pend priv st \<longleftrightarrow> drive_serves io img pend \<and> private_of st = Some priv
     \<and> sector_size (the_disk st) = 512 \<and> open_stream st (cluster_read_stream priv)
     \<and> open_stream st (fat_read_stream priv) \<and> open_stream st (directory_stream priv)"

definition moved :: "'d fs_state \<Rightarrow> 'd fs_state \<Rightarrow> bool" where
  "moved st st' \<longleftrightarrow> (\<exists>d sm. st' = st\<lparr>fs_dev := d, streams := sm\<rparr>
     \<and> (\<forall>p. map_option sdisk (sm p) = map_option sdisk (streams st p)))"

lemma moved_refl [simp, intro]: "moved st st"
  unfolding moved_def by (rule exI [of _ "fs_dev st"], rule exI [of _ "streams st"]) simp

lemma moved_trans [trans]: "moved st st' \<Longrightarrow> moved st' st'' \<Longrightarrow> moved st st''"
  unfolding moved_def by fastforce

lemma moved_same:
  assumes "moved st st'"
  shows "fs_kmem st' = fs_kmem st" "the_disk st' = the_disk st" "item_arrays st' = item_arrays st"
    "directories st' = directories st" "fat_items st' = fat_items st"
    "descriptors st' = descriptors st" "privates st' = privates st"
  using assms by (auto simp: moved_def)

lemma moved_open_stream: "moved st st' \<Longrightarrow> open_stream st' p = open_stream st p"
  unfolding moved_def open_stream_def by clarsimp (metis map_option_eq_Some)

lemma moved_mounted: "moved st st' \<Longrightarrow> mounted io img pend priv st' = mounted io img pend priv st"
  by (simp add: mounted_def moved_open_stream moved_same private_of_def)

lemma moved_stream:
  "streams st p = Some s \<Longrightarrow> sdisk s' = sdisk s \<Longrightarrow> moved st (st\<lparr>fs_dev := d, streams := (streams st)(p \<mapsto> s')\<rparr>)"
  unfolding moved_def by fastforce

text \<open>A seek followed by a read, the pattern of every access to the volume.\<close>

lemma stream_seek_ok:
  assumes "open_stream st p"
  shows "\<exists>st'. stream_seek st p a = Some (0, st') \<and> moved st st'
    \<and> (\<exists>s. streams st' p = Some s \<and> pos s = a \<and> sdisk s = TheDisk)"
proof -
  obtain s where s: "streams st p = Some s" "sdisk s = TheDisk" using assms by (auto simp: open_stream_def)
  then show ?thesis
    using moved_stream [OF s(1), of "s\<lparr>pos := a\<rparr>" "fs_dev st"]
    by (simp add: stream_seek_def diskstreamer_seek_def)
qed

lemma stream_read_ok:
  assumes "drive_serves io img pend" "streams st p = Some s" "sdisk s = TheDisk" "pos s = int a"
    "int a + int n < 2 ^ 31"
  shows "\<exists>st'. stream_read io st p (int n) = Some (0, img_bytes img a n, st') \<and> moved st st'
    \<and> (\<exists>s'. streams st' p = Some s' \<and> pos s' = int a + int n \<and> sdisk s' = TheDisk)"
proof -
  obtain d where "diskstreamer_read io s (int n) (fs_dev st) =
      Some (0, img_bytes img a n, s\<lparr>pos := int a + int n\<rparr>, d)"
    using diskstreamer_read_ok [OF assms(1,3), of "int n" "fs_dev st"] assms by auto
  then show ?thesis
    using assms moved_stream [OF assms(2), of "s\<lparr>pos := int a + int n\<rparr>" d] by (simp add: stream_read_def)
qed

lemma seek_read_ok:
  assumes "drive_serves io img pend" "open_stream st p" "int a + int n < 2 ^ 31"
  shows "\<exists>st1 st2. stream_seek st p (int a) = Some (0, st1) \<and> moved st st1
    \<and> stream_read io st1 p (int n) = Some (0, img_bytes img a n, st2) \<and> moved st st2"
proof -
  obtain st1 s where 1: "stream_seek st p (int a) = Some (0, st1)" "moved st st1"
    "streams st1 p = Some s" "pos s = int a" "sdisk s = TheDisk"
    using stream_seek_ok [OF assms(2), of "int a"] by auto
  obtain st2 where "stream_read io st1 p (int n) = Some (0, img_bytes img a n, st2)" "moved st1 st2"
    using stream_read_ok [OF assms(1) 1(3,5,4) assms(3)] by auto
  with 1 show ?thesis using moved_trans by blast
qed

lemma c_int_id: "- (2 ^ 31) \<le> x \<Longrightarrow> x < 2 ^ 31 \<Longrightarrow> c_int x = x"
  unfolding c_int_def by (simp add: sint_sbintrunc' signed_take_bit_int_eq_self)

section \<open>The allocation table of the image\<close>

definition fat_entry :: "(nat \<Rightarrow> u16 list) \<Rightarrow> fat_private \<Rightarrow> nat \<Rightarrow> nat" where
  "fat_entry img priv c =
     unat (le16 (img_bytes img (512 * unat (reserved_sectors (primary_header (header priv))) + 2 * c) 2) 0)"

text \<open>The cluster \<open>n\<close> links further in the table; \<open>None\<close> at an entry the driver rejects.\<close>

definition chain_stops :: "nat set" where
  "chain_stops = {0, 0xFF0, 0xFF6, 0xFF7, 0xFF8, 0xFFF}"

lemma chain_error_eq [simp]: "chain_error (int e) \<longleftrightarrow> e \<in> chain_stops"
  unfolding chain_error_def chain_stops_def RASOS_FAT16_BAD_SECTOR_def by auto

primrec chain :: "(nat \<Rightarrow> u16 list) \<Rightarrow> fat_private \<Rightarrow> nat \<Rightarrow> nat \<Rightarrow> nat option" where
  "chain img priv 0 c = Some c"
| "chain img priv (Suc n) c =
     (let e = fat_entry img priv c in if e \<in> chain_stops then None else chain img priv n e)"

lemma fat_entry_less: "fat_entry img priv c < 65536"
  unfolding fat_entry_def using unsigned_less [where ?'a = nat and w = "le16 _ _"] by simp

lemma fat_table_pos:
  assumes "c < 65536"
  shows "sint (ucast (r :: u16) * (512 :: u32) + word_of_int (int c * 2)) = int (512 * unat r + 2 * c)"
    and "int (512 * unat r + 2 * c) + int 2 < 2 ^ 31"
proof -
  define n where "n = unat r"
  have "n < 65536" unfolding n_def using unsigned_less [of r, where ?'a = nat] by simp
  then have b: "int (512 * n + 2 * c) + int 2 < 2 ^ 31" using assms by simp
  have "ucast r = (word_of_int (int n) :: u32)" unfolding n_def by (simp only: ucast_eq uint_nat)
  then have "ucast r * (512 :: u32) + word_of_int (int c * 2) = word_of_int (int (512 * n + 2 * c))"
    by (simp add: mult.commute)
  moreover have "sint (word_of_int (int (512 * n + 2 * c)) :: u32) = int (512 * n + 2 * c)"
    using c_int_id [of "int (512 * n + 2 * c)"] b by (simp add: c_int_def)
  ultimately show "sint (ucast r * (512 :: u32) + word_of_int (int c * 2)) = int (512 * unat r + 2 * c)"
    "int (512 * unat r + 2 * c) + int 2 < 2 ^ 31"
    using b by (simp_all only: n_def)
qed

lemma fat16_get_fat_entry_ok:
  assumes "mounted io img pend priv st" "c < 65536"
  shows "\<exists>st'. fat16_get_fat_entry io st (int c) = Some (word_of_nat (fat_entry img priv c), st') \<and> moved st st'"
proof -
  let ?r = "reserved_sectors (primary_header (header priv))"
  let ?a = "512 * unat ?r + 2 * c"
  have m: "drive_serves io img pend" "private_of st = Some priv" "sector_size (the_disk st) = 512"
    "open_stream st (fat_read_stream priv)" "fat_read_stream priv \<noteq> 0"
    using assms(1) by (auto simp: mounted_def open_stream_def)
  from seek_read_ok [OF m(1,4) fat_table_pos(2) [OF assms(2), of ?r]] obtain st1 st2 where "stream_seek st (fat_read_stream priv) (int ?a) = Some (0, st1)"
    "stream_read io st1 (fat_read_stream priv) (int 2) = Some (0, img_bytes img ?a 2, st2)" "moved st st2"
    by blast
  then show ?thesis
    using m fat_table_pos(1) [OF assms(2), of ?r]
    by (simp add: fat16_get_fat_entry_def fat16_get_first_fat_sector_def fat_entry_def)
qed

lemma chain_loop_ok:
  assumes "mounted io img pend priv st" "c < 65536"
  shows "\<exists>st'. chain_loop io n (int c) st =
    Some (case chain img priv n c of None \<Rightarrow> - EIO | Some c' \<Rightarrow> int c', st') \<and> moved st st'"
  using assms
proof (induction n arbitrary: c st)
  case (Suc n)
  let ?e = "fat_entry img priv c"
  obtain st1 where 1: "fat16_get_fat_entry io st (int c) = Some (word_of_nat ?e, st1)" "moved st st1"
    using fat16_get_fat_entry_ok [OF Suc.prems] by auto
  have e: "uint (word_of_nat ?e :: u16) = int ?e"
    using fat_entry_less [of img priv c] by (simp add: uint_nat unat_of_nat)
  show ?case
  proof (cases "?e \<in> chain_stops")
    case True
    then show ?thesis using 1 e by (auto simp: Let_def)
  next
    case False
    have "mounted io img pend priv st1" using Suc.prems(1) moved_mounted [OF 1(2)] by simp
    from Suc.IH [OF this fat_entry_less] obtain st2 where
      "chain_loop io n (int ?e) st1 =
         Some (case chain img priv n ?e of None \<Rightarrow> - EIO | Some c' \<Rightarrow> int c', st2)" "moved st1 st2"
      by blast
    then show ?thesis using 1 e False moved_trans by (auto simp: Let_def)
  qed
qed auto

lemma chain_less: "chain img priv n c = Some c' \<Longrightarrow> c < 65536 \<Longrightarrow> c' < 65536"
  by (induction n arbitrary: c) (auto simp: Let_def fat_entry_less split: if_splits)

lemma chain_add: "chain img priv (m + n) c = Option.bind (chain img priv m c) (chain img priv n)"
  by (induction m arbitrary: c) (auto simp: Let_def)

definition cluster_size :: "fat_private \<Rightarrow> nat" where
  "cluster_size priv = 512 * unat (sectors_per_cluster (primary_header (header priv)))"

lemma cluster_bytes_eq:
  "sector_size (the_disk st) = 512 \<Longrightarrow> cluster_bytes st priv = int (cluster_size priv)"
  by (simp add: cluster_bytes_def cluster_size_def)

lemma fat16_get_cluster_for_offset_ok:
  assumes "mounted io img pend priv st" "c < 65536" "0 < cluster_size priv"
  shows "\<exists>st'. fat16_get_cluster_for_offset io st (int c) (int off) =
    Some (case chain img priv (off div cluster_size priv) c of None \<Rightarrow> - EIO | Some c' \<Rightarrow> int c', st') \<and> moved st st'"
proof -
  have f: "private_of st = Some priv" "sector_size (the_disk st) = 512" using assms(1) by (auto simp: mounted_def)
  have "int off sdiv int (cluster_size priv) = int (off div cluster_size priv)"
    using assms(3) by (simp add: signed_divide_int_def zdiv_int sgn_if)
  then show ?thesis
    using chain_loop_ok [OF assms(1,2), of "off div cluster_size priv"] f assms(3)
    by (simp add: fat16_get_cluster_for_offset_def c_div_def cluster_bytes_eq)
qed

section \<open>The contents of a file\<close>

definition cluster_pos :: "fat_private \<Rightarrow> nat \<Rightarrow> int" where
  "cluster_pos priv c = 512 * (ending_sector_pos (root_directory priv)
     + (int c - 2) * uint (sectors_per_cluster (primary_header (header priv))))"

text \<open>A cluster, and the one after it on the disk, lie below 2 GB.\<close>

definition cluster_ok :: "fat_private \<Rightarrow> nat \<Rightarrow> bool" where
  "cluster_ok priv c \<longleftrightarrow> 0 \<le> cluster_pos priv c \<and> cluster_pos priv c + 2 * int (cluster_size priv) < 2 ^ 31"

text \<open>Byte \<open>i\<close> of the file that starts at cluster \<open>c\<close>, and how far its chain reaches.\<close>

definition file_byte :: "(nat \<Rightarrow> u16 list) \<Rightarrow> fat_private \<Rightarrow> nat \<Rightarrow> nat \<Rightarrow> byte" where
  "file_byte img priv c i =
     (case chain img priv (i div cluster_size priv) c of
        Some c' \<Rightarrow> img_byte img (nat (cluster_pos priv c') + i mod cluster_size priv)
      | None \<Rightarrow> 0)"

definition file_bytes :: "(nat \<Rightarrow> u16 list) \<Rightarrow> fat_private \<Rightarrow> nat \<Rightarrow> nat \<Rightarrow> nat \<Rightarrow> cbuf" where
  "file_bytes img priv c off n = map (file_byte img priv c) [off..<off + n]"

definition file_extent :: "(nat \<Rightarrow> u16 list) \<Rightarrow> fat_private \<Rightarrow> nat \<Rightarrow> nat \<Rightarrow> bool" where
  "file_extent img priv c m \<longleftrightarrow> (\<forall>i<m. case chain img priv (i div cluster_size priv) c of
     Some c' \<Rightarrow> cluster_ok priv c' | None \<Rightarrow> False)"

lemma file_bytes_append: "file_bytes img priv c off (m + n) = file_bytes img priv c off m @ file_bytes img priv c (off + m) n"
  using upt_add_eq_append [of off "off + m" n] by (simp add: file_bytes_def add.assoc)

lemma length_file_bytes [simp]: "length (file_bytes img priv c off n) = n"
  by (simp add: file_bytes_def)

lemma in_block:
  assumes "(off::nat) mod k + i < k"
  shows "(off + i) div k = off div k" "(off + i) mod k = off mod k + i"
proof -
  have "off + i = k * (off div k) + (off mod k + i)" by simp
  then show "(off + i) div k = off div k" "(off + i) mod k = off mod k + i"
    using div_mult_self4 [of k "off div k" "off mod k + i"] mod_mult_self4 [of k "off div k" "off mod k + i"] assms
    by (metis add.right_neutral div_less mod_less not_less_zero)+
qed

lemma file_bytes_in_cluster:
  assumes "chain img priv (off div cluster_size priv) c = Some c'" "0 \<le> cluster_pos priv c'"
    "off mod cluster_size priv + n \<le> cluster_size priv"
  shows "file_bytes img priv c off n = img_bytes img (nat (cluster_pos priv c') + off mod cluster_size priv) n"
proof (rule nth_equalityI)
  fix i assume "i < length (file_bytes img priv c off n)"
  then have i: "i < n" by simp
  then have "off mod cluster_size priv + i < cluster_size priv" using assms(3) by simp
  note this [THEN in_block(1)] this [THEN in_block(2)]
  then show "file_bytes img priv c off n ! i
      = img_bytes img (nat (cluster_pos priv c') + off mod cluster_size priv) n ! i"
    using i assms(1) by (simp add: file_bytes_def img_bytes_def file_byte_def add.assoc)
qed simp

lemma file_extentD:
  assumes "file_extent img priv c m" "i < m"
  obtains c' where "chain img priv (i div cluster_size priv) c = Some c'" "cluster_ok priv c'"
  using assms unfolding file_extent_def by (metis option.case_eq_if option.collapse)

lemma fat16_cluster_to_sector_eq:
  assumes "cluster_ok priv c"
  shows "512 * fat16_cluster_to_sector priv (int c) = cluster_pos priv c"
proof -
  let ?x = "ending_sector_pos (root_directory priv) + (int c - 2) * uint (sectors_per_cluster (primary_header (header priv)))"
  have "0 \<le> 512 * ?x" "512 * ?x < 2 ^ 31" using assms by (simp_all add: cluster_ok_def cluster_pos_def)
  then have "c_int ?x = ?x" by (intro c_int_id) simp_all
  then show ?thesis by (simp add: fat16_cluster_to_sector_def cluster_pos_def)
qed

text \<open>One turn reads the bytes that follow the position on the disk.\<close>

lemma read_turn_ok:
  assumes m: "mounted io img pend priv st" and c: "c < 65536" and cs: "0 < cluster_size priv"
    and ch: "chain img priv (off div cluster_size priv) c = Some c'" "cluster_ok priv c'"
  shows "\<exists>st'. read_turn io st (cluster_read_stream priv) (int c) (int off) (int n) =
    Some (0, img_bytes img (nat (cluster_pos priv c') + off mod cluster_size priv) (min n (cluster_size priv)),
      int (min n (cluster_size priv)), st') \<and> moved st st'"
proof -
  let ?k = "cluster_size priv"
  let ?a = "nat (cluster_pos priv c') + off mod ?k"
  have f: "private_of st = Some priv" "sector_size (the_disk st) = 512" using m by (auto simp: mounted_def)
  obtain st1 where 1: "chain_loop io (off div ?k) (int c) st = Some (int c', st1)" "moved st st1"
    using chain_loop_ok [OF m c, of "off div ?k"] ch by auto
  have m1: "mounted io img pend priv st1" using m moved_mounted [OF 1(2)] by simp
  have lt: "off mod ?k < ?k" using cs by simp
  have p: "0 \<le> cluster_pos priv c'" "cluster_pos priv c' + 2 * int ?k < 2 ^ 31" using ch(2) by (auto simp: cluster_ok_def)
  have a: "int ?a = cluster_pos priv c' + int (off mod ?k)" using p by simp
  then have "int ?a + int (min n ?k) < 2 ^ 31" using p lt by linarith
  then obtain st2 st3 where 2: "stream_seek st1 (cluster_read_stream priv) (int ?a) = Some (0, st2)"
    "stream_read io st2 (cluster_read_stream priv) (int (min n ?k)) = Some (0, img_bytes img ?a (min n ?k), st3)"
    "moved st1 st3"
    using seek_read_ok [of io img pend st1 "cluster_read_stream priv" ?a "min n ?k"] m1 by (auto simp: mounted_def)
  have dv: "int off sdiv int ?k = int (off div ?k)" "int off smod int ?k = int (off mod ?k)"
    using cs by (simp_all add: signed_divide_int_def signed_modulo_int_def zdiv_int zmod_int sgn_if)
  have cl: "fat16_get_cluster_for_offset io st (int c) (int off) = Some (int c', st1)"
    using 1 f cs by (simp add: fat16_get_cluster_for_offset_def c_div_def cluster_bytes_eq dv)
  have sp: "c_int (fat16_cluster_to_sector priv (int c') * sector_size (the_disk st1) + int (off mod ?k)) = int ?a"
    using fat16_cluster_to_sector_eq [OF ch(2)] a p lt f moved_same(2) [OF 1(2)] by (subst c_int_id) auto
  show ?thesis
    unfolding read_turn_def
    using f cl 2 sp cs moved_trans [OF 1(2) 2(3)]
    by (cases "n \<le> ?k") (simp_all add: cluster_bytes_eq c_mod_def dv Let_def min_absorb1 min_absorb2)
qed

text \<open>A read that starts at a cluster boundary, or stays in one cluster, yields the file's bytes.\<close>

lemma read_from_stream_ok:
  assumes "mounted io img pend priv st" "c < 65536" "0 < cluster_size priv" "0 < n"
    "file_extent img priv c (off + n)"
    "off mod cluster_size priv = 0 \<or> off mod cluster_size priv + n \<le> cluster_size priv"
  shows "\<exists>st'. fat16_read_internal_from_stream io (cluster_read_stream priv) (int c) (int off) (int n) st
    = Some (0, file_bytes img priv c off n, st') \<and> moved st st'"
  using assms(1,4-6)
proof (induction n arbitrary: off st rule: less_induct)
  case (less n)
  let ?k = "cluster_size priv"
  let ?m = "min n ?k"
  obtain c' where c': "chain img priv (off div ?k) c = Some c'" "cluster_ok priv c'"
    using file_extentD [OF less.prems(3), of off] less.prems(2) by auto
  obtain st1 where 1: "read_turn io st (cluster_read_stream priv) (int c) (int off) (int n) =
      Some (0, img_bytes img (nat (cluster_pos priv c') + off mod ?k) ?m, int ?m, st1)" "moved st st1"
    using read_turn_ok [OF less.prems(1) assms(2,3) c', of n] by blast
  have "off mod ?k + ?m \<le> ?k" using less.prems(4) by auto
  then have fb: "img_bytes img (nat (cluster_pos priv c') + off mod ?k) ?m = file_bytes img priv c off ?m"
    using file_bytes_in_cluster c' by (metis cluster_ok_def)
  show ?case
  proof (cases "n \<le> ?k")
    case True
    then show ?thesis using 1 fb
      by (subst fat16_read_internal_from_stream.simps) (simp add: min_absorb1)
  next
    case False
    then have mk: "?m = ?k" "off mod ?k = 0" using less.prems(4) by (auto simp: min_def)
    have "mounted io img pend priv st1" using less.prems(1) moved_mounted [OF 1(2)] by simp
    moreover have "file_extent img priv c (off + ?k + (n - ?k))" using less.prems(3) False by simp
    ultimately obtain st2 where 2: "fat16_read_internal_from_stream io (cluster_read_stream priv) (int c)
        (int (off + ?k)) (int (n - ?k)) st1 = Some (0, file_bytes img priv c (off + ?k) (n - ?k), st2)" "moved st1 st2"
      using less.IH [of "n - ?k" st1 "off + ?k"] False assms(3) mk(2) by auto
    have "file_bytes img priv c off n = file_bytes img priv c off ?k @ file_bytes img priv c (off + ?k) (n - ?k)"
      using file_bytes_append [of img priv c off ?k "n - ?k"] False by simp
    then show ?thesis
      using 1 2 fb False mk moved_trans [OF 1(2) 2(2)]
      by (subst fat16_read_internal_from_stream.simps) (simp add: of_nat_diff)
  qed
qed

lemma fat16_read_internal_ok:
  assumes "mounted io img pend priv st" "c < 65536" "0 < cluster_size priv" "0 < n"
    "file_extent img priv c (off + n)"
    "off mod cluster_size priv = 0 \<or> off mod cluster_size priv + n \<le> cluster_size priv"
  shows "\<exists>st'. fat16_read_internal io st (int c) (int off) (int n)
    = Some (0, file_bytes img priv c off n, st') \<and> moved st st'"
  using read_from_stream_ok [OF assms] assms(1) by (simp add: fat16_read_internal_def mounted_def)

text \<open>
  A read that crosses a cluster boundary from inside a cluster does not follow the chain: it
  yields the bytes after the cluster on the disk.
\<close>

lemma fat16_read_internal_crossing:
  assumes "mounted io img pend priv st" "c < 65536" "0 < n" "n \<le> cluster_size priv"
    "chain img priv (off div cluster_size priv) c = Some c'" "cluster_ok priv c'"
  shows "\<exists>st'. fat16_read_internal io st (int c) (int off) (int n)
    = Some (0, img_bytes img (nat (cluster_pos priv c') + off mod cluster_size priv) n, st') \<and> moved st st'"
proof -
  have "0 < cluster_size priv" using assms by simp
  from read_turn_ok [OF assms(1,2) this assms(5,6), of n] assms(4) obtain st1 where
    "read_turn io st (cluster_read_stream priv) (int c) (int off) (int n) =
      Some (0, img_bytes img (nat (cluster_pos priv c') + off mod cluster_size priv) n, int n, st1)" "moved st st1"
    by (auto simp: min_absorb1)
  then show ?thesis using assms(1)
    by (subst fat16_read_internal_def, subst fat16_read_internal_from_stream.simps) (simp add: mounted_def)
qed

text \<open>A read past the end of the chain, as the driver sees it, is an I/O error.\<close>

lemma fat16_read_internal_error:
  assumes "mounted io img pend priv st" "c < 65536" "0 < cluster_size priv"
    "chain img priv (off div cluster_size priv) c = None"
  shows "\<exists>st'. fat16_read_internal io st (int c) (int off) n = Some (- EIO, [], st') \<and> moved st st'"
proof -
  let ?k = "cluster_size priv"
  have f: "private_of st = Some priv" "sector_size (the_disk st) = 512" using assms(1) by (auto simp: mounted_def)
  obtain st1 where 1: "chain_loop io (off div ?k) (int c) st = Some (- EIO, st1)" "moved st st1"
    using chain_loop_ok [OF assms(1,2), of "off div ?k"] assms(4) by auto
  have dv: "int off sdiv int ?k = int (off div ?k)"
    using assms(3) by (simp add: signed_divide_int_def zdiv_int sgn_if)
  have "read_turn io st (cluster_read_stream priv) (int c) (int off) n = Some (- EIO, [], 0, st1)"
    using 1 f assms(3)
    by (simp add: read_turn_def fat16_get_cluster_for_offset_def c_div_def cluster_bytes_eq dv)
  then show ?thesis using 1(2) f
    by (subst fat16_read_internal_def, subst fat16_read_internal_from_stream.simps) simp
qed

end
