(* ===== verification/Fat16Files.thy ===== *)
theory Fat16Files
  imports Fat16
begin

text \<open>
  The FAT16 driver (\<^verbatim>\<open>src/fs/fat/fat16.c\<close>), second half: directories, names, mounting, and the
  operations behind the \<^verbatim>\<open>struct filesystem\<close> it registers: resolve, open, read, seek, stat and
  close.
\<close>

section \<open>File interface data (file.h)\<close>

definition SEEK_SET :: u32 where [simp]: "SEEK_SET = 0"
definition SEEK_CUR :: u32 where [simp]: "SEEK_CUR = 1"
definition SEEK_END :: u32 where [simp]: "SEEK_END = 2"
definition FILE_MODE_READ :: u32 where [simp]: "FILE_MODE_READ = 0"
definition FILE_MODE_WRITE :: u32 where [simp]: "FILE_MODE_WRITE = 1"
definition FILE_MODE_APPEND :: u32 where [simp]: "FILE_MODE_APPEND = 2"
definition FILE_MODE_INVALID :: u32 where [simp]: "FILE_MODE_INVALID = 3"
definition FILE_STAT_READ_ONLY :: u32 where [simp]: "FILE_STAT_READ_ONLY = 1"

record file_stat =
  stat_flags :: u32
  stat_filesize :: u32

text \<open>Error codes travel as pointers (\<^verbatim>\<open>kernel.h\<close>).\<close>

definition ERROR :: "int \<Rightarrow> addr" where "ERROR value = word_of_int value"
definition ERROR_I :: "addr \<Rightarrow> int" where "ERROR_I value = sint value"
definition ISERR :: "addr \<Rightarrow> bool" where "ISERR value \<longleftrightarrow> sint value < 0"

section \<open>Mounting\<close>

definition fat16_init :: "(filesystem \<times> cbuf) option" where
  "fat16_init = do { name \<leftarrow> strcpy (replicate 20 0) [70, 65, 84, 49, 54, 0]; Some (Fat16_fs, name) }"

definition empty_private :: fat_private where
  "empty_private = \<lparr>header = fat_h_of_bytes (replicate 62 0),
     root_directory = \<lparr>dir_item = 0, dir_total = 0, sector_pos = 0, ending_sector_pos = 0\<rparr>,
     cluster_read_stream = 0, fat_read_stream = 0, directory_stream = 0\<rparr>"

definition fat16_init_private :: "'d fs_state \<Rightarrow> addr \<Rightarrow> 'd fs_state option" where
  "fat16_init_private st private =
     (if private = 0 then None
      else do {
        let id = disk_id (the_disk st);
        (s1, st) \<leftarrow> stream_new st id;
        (s2, st) \<leftarrow> stream_new st id;
        (s3, st) \<leftarrow> stream_new st id;
        Some (st\<lparr>privates := (privates st)(private \<mapsto>
          empty_private\<lparr>cluster_read_stream := s1, fat_read_stream := s2, directory_stream := s3\<rparr>)\<rparr>)
      })"

text \<open>
  The loop that counts the directory items in use up to the terminating one; \<open>None\<close> if it
  reads for ever.
\<close>

partial_function (option) total_items_loop ::
  "'d ports \<Rightarrow> addr \<Rightarrow> int \<Rightarrow> 'd fs_state \<Rightarrow> (int \<times> 'd fs_state) option" where
  "total_items_loop io stream i st =
     Option.bind (stream_read io st stream 32) (\<lambda>(r, item, st).
       if r \<noteq> OK then Some (- EIO, st)
       else if item ! 0 = 0x00 then Some (i, st)
       else if item ! 0 = 0xE5 then total_items_loop io stream i st
       else total_items_loop io stream (i + 1) st)"

definition fat16_get_total_items_for_directory ::
  "'d ports \<Rightarrow> 'd fs_state \<Rightarrow> u32 \<Rightarrow> (int \<times> 'd fs_state) option" where
  "fat16_get_total_items_for_directory io st directory_start_sector = do {
     priv \<leftarrow> private_of st;
     let directory_start_pos = sint (directory_start_sector * word_of_int (sector_size (the_disk st)));
     let stream = directory_stream priv;
     (r, st) \<leftarrow> stream_seek st stream directory_start_pos;
     if r \<noteq> OK then Some (- EIO, st) else total_items_loop io stream 0 st
   }"

text \<open>An array of \<open>n\<close> zeroed bytes with \<open>bs\<close> read into its front.\<close>

definition filled :: "int \<Rightarrow> cbuf \<Rightarrow> cbuf" where
  "filled n bs = bs @ replicate (nat n - length bs) 0"

definition fat16_get_root_directory :: "'d ports \<Rightarrow> 'd fs_state \<Rightarrow> addr \<Rightarrow> (int \<times> 'd fs_state) option" where
  "fat16_get_root_directory io st fat_private = do {
     priv \<leftarrow> privates st fat_private;
     let ph = primary_header (header priv);
     let root_dir_sector_pos = uint (fat_copies ph) * uint (sectors_per_fat ph) + uint (reserved_sectors ph);
     let root_dir_size = uint (root_dir_entries ph) * 32;
     total_sectors \<leftarrow> c_div root_dir_size (sector_size (the_disk st));
     (total_items, st) \<leftarrow> fat16_get_total_items_for_directory io st (word_of_int root_dir_sector_pos);
     (dir, st) \<leftarrow> fs_zalloc st (word_of_int root_dir_size);
     if dir = 0 then Some (- ENOMEM, st)
     else do {
       let stream = directory_stream priv;
       (r, st) \<leftarrow> stream_seek st stream (fat16_sector_to_absolute (the_disk st) root_dir_sector_pos);
       if r \<noteq> OK then Some (- EIO, st)
       else do {
         (r, bs, st) \<leftarrow> stream_read io st stream root_dir_size;
         let st = st\<lparr>item_arrays := (item_arrays st)(dir \<mapsto> filled root_dir_size bs)\<rparr>;
         if r \<noteq> OK then Some (- EIO, st)
         else Some (0, st\<lparr>privates := (privates st)(fat_private \<mapsto> priv\<lparr>root_directory :=
           \<lparr>dir_item = dir, dir_total = total_items, sector_pos = root_dir_sector_pos,
            ending_sector_pos = root_dir_sector_pos + total_sectors\<rparr>\<rparr>)\<rparr>)
       }
     }
   }"

text \<open>The body of \<^verbatim>\<open>fat16_resolve\<close> up to \<^verbatim>\<open>out:\<close>, and the cleanup.\<close>

definition resolve_body :: "'d ports \<Rightarrow> 'd fs_state \<Rightarrow> addr \<Rightarrow> addr \<Rightarrow> (int \<times> 'd fs_state) option" where
  "resolve_body io st fat_private stream =
     (if stream = 0 then Some (- ENOMEM, st)
      else do {
        (r, bs, st) \<leftarrow> stream_read io st stream 62;
        if r \<noteq> OK then Some (- EIO, st)
        else do {
          priv \<leftarrow> privates st fat_private;
          let priv = priv\<lparr>header := fat_h_of_bytes bs\<rparr>;
          let st = st\<lparr>privates := (privates st)(fat_private \<mapsto> priv)\<rparr>;
          if signature (extended_header (header priv)) \<noteq> RASOS_FAT16_SIGNATURE then Some (- EFSNOTUS, st)
          else do {
            (r, st) \<leftarrow> fat16_get_root_directory io st fat_private;
            if r \<noteq> OK then Some (- EIO, st) else Some (0, st)
          }
        }
      })"

definition fat16_resolve :: "'d ports \<Rightarrow> 'd fs_state \<Rightarrow> (int \<times> 'd fs_state) option" where
  "fat16_resolve io st = do {
     (fat_private, st) \<leftarrow> fs_zalloc st 92;
     st \<leftarrow> fat16_init_private st fat_private;
     let st = st\<lparr>the_disk := (the_disk st)\<lparr>fs_private := fat_private, disk_filesystem := Some Fat16_fs\<rparr>\<rparr>;
     (stream, st) \<leftarrow> stream_new st (disk_id (the_disk st));
     (res, st) \<leftarrow> resolve_body io st fat_private stream;
     st \<leftarrow> (if stream \<noteq> 0 then stream_close st stream else Some st);
     if res < 0 then do {
       st \<leftarrow> fs_free st fat_private;
       Some (res, st\<lparr>the_disk := (the_disk st)\<lparr>fs_private := 0, disk_filesystem := None\<rparr>\<rparr>)
     }
     else Some (res, st)
   }"

section \<open>Directory items and names\<close>

definition fat16_free_directory :: "'d fs_state \<Rightarrow> addr \<Rightarrow> 'd fs_state option" where
  "fat16_free_directory st directory =
     (if directory = 0 then Some st
      else do {
        d \<leftarrow> directories st directory;
        st \<leftarrow> (if dir_item d \<noteq> 0 then fs_free st (dir_item d) else Some st);
        fs_free st directory
      })"

definition fat16_fat_item_free :: "'d fs_state \<Rightarrow> addr \<Rightarrow> 'd fs_state option" where
  "fat16_fat_item_free st item = do {
     it \<leftarrow> fat_items st item;
     st \<leftarrow> (if item_type it = FAT_ITEM_TYPE_DIRECTORY then fat16_free_directory st (item_ptr it)
           else if item_type it = FAT_ITEM_TYPE_FILE then fs_free st (item_ptr it)
           else Some st);
     fs_free st item
   }"

text \<open>The out pointer is a position in its buffer; the input ends where its object ends.\<close>

fun remove_padded_spaces :: "cbuf \<Rightarrow> nat \<Rightarrow> cbuf \<Rightarrow> (cbuf \<times> nat) option" where
  "remove_padded_spaces out p [] = None"
| "remove_padded_spaces out p (c # inp) =
     (if c \<noteq> 0x00 \<and> c \<noteq> 0x20 then
        if p < length out then remove_padded_spaces (out[p := c]) (p + 1) inp else None
      else if c = 0x20 then
        if p < length out then Some (out[p := 0], p) else None
      else Some (out, p))"

definition combine_filename_and_ext :: "cbuf \<Rightarrow> cbuf \<Rightarrow> nat \<Rightarrow> cbuf option" where
  "combine_filename_and_ext item out max_len = do {
     out \<leftarrow> memset out 0 max_len;
     (out, out_tmp) \<leftarrow> remove_padded_spaces out 0 item;
     if item ! 8 \<noteq> 0x00 \<and> item ! 8 \<noteq> 0x20 then
       if out_tmp < length out then do {
         (out, out_tmp) \<leftarrow> remove_padded_spaces (out[out_tmp := 46]) (out_tmp + 1) (drop 8 item);
         Some out
       }
       else None
     else Some out
   }"

definition fat16_clone_directory_item :: "'d fs_state \<Rightarrow> cbuf \<Rightarrow> int \<Rightarrow> (addr \<times> 'd fs_state) option" where
  "fat16_clone_directory_item st item n =
     (if (word_of_int n :: u32) < 32 then Some (0, st)
      else do {
        (item_copy, st) \<leftarrow> fs_zalloc st (word_of_int n);
        if item_copy = 0 then Some (0, st)
        else do {
          bs \<leftarrow> memcpy (replicate (nat n) 0) item (word_of_int n);
          Some (item_copy, st\<lparr>item_arrays := (item_arrays st)(item_copy \<mapsto> bs)\<rparr>)
        }
      })"

text \<open>The cleanup frees the directory when something failed, but its address is returned all the same.\<close>

definition fat16_load_fat_directory ::
  "'d ports \<Rightarrow> 'd fs_state \<Rightarrow> cbuf \<Rightarrow> (addr \<times> 'd fs_state) option" where
  "fat16_load_fat_directory io st item =
     (if attribute (item_of_bytes item) AND FAT_FILE_SUBDIRECTORY = 0 then Some (0, st)
      else do {
        (directory, st) \<leftarrow> fs_zalloc st 16;
        if directory = 0 then Some (0, st)
        else do {
          priv \<leftarrow> private_of st;
          let cluster = sint (fat16_get_first_cluster (item_of_bytes item));
          let cluster_sector = fat16_cluster_to_sector priv cluster;
          (total_items, st) \<leftarrow> fat16_get_total_items_for_directory io st (word_of_int cluster_sector);
          let directory_size = c_int (total_items * 32);
          (arr, st) \<leftarrow> fs_zalloc st (word_of_int directory_size);
          let st = st\<lparr>directories := (directories st)(directory \<mapsto>
            \<lparr>dir_item = arr, dir_total = total_items, sector_pos = 0, ending_sector_pos = 0\<rparr>)\<rparr>;
          if arr = 0 then do { st \<leftarrow> fat16_free_directory st directory; Some (directory, st) }
          else do {
            (res, bs, st) \<leftarrow> fat16_read_internal io st cluster 0 directory_size;
            let st = st\<lparr>item_arrays := (item_arrays st)(arr \<mapsto> filled directory_size bs)\<rparr>;
            if res \<noteq> OK then do { st \<leftarrow> fat16_free_directory st directory; Some (directory, st) }
            else Some (directory, st)
          }
        }
      })"

definition fat16_new_fat_item_for_directory_item ::
  "'d ports \<Rightarrow> 'd fs_state \<Rightarrow> cbuf \<Rightarrow> (addr \<times> 'd fs_state) option" where
  "fat16_new_fat_item_for_directory_item io st item = do {
     (f_item, st) \<leftarrow> fs_zalloc st 8;
     if f_item = 0 then Some (0, st)
     else if attribute (item_of_bytes item) AND FAT_FILE_SUBDIRECTORY \<noteq> 0 then do {
       (d, st) \<leftarrow> fat16_load_fat_directory io st item;
       Some (f_item, st\<lparr>fat_items := (fat_items st)(f_item \<mapsto>
         \<lparr>item_ptr = d, item_type = FAT_ITEM_TYPE_DIRECTORY\<rparr>)\<rparr>)
     }
     else do {
       (p, st) \<leftarrow> fat16_clone_directory_item st item 32;
       Some (f_item, st\<lparr>fat_items := (fat_items st)(f_item \<mapsto>
         \<lparr>item_ptr = p, item_type = FAT_ITEM_TYPE_FILE\<rparr>)\<rparr>)
     }
   }"

section \<open>Lookup\<close>

text \<open>The loop over the items, from item \<open>i\<close>, \<open>n\<close> items to go.\<close>

primrec find_loop ::
  "'d ports \<Rightarrow> fat_directory \<Rightarrow> cbuf \<Rightarrow> nat \<Rightarrow> int \<Rightarrow> addr \<Rightarrow> 'd fs_state \<Rightarrow> (addr \<times> 'd fs_state) option" where
  "find_loop io directory name 0 i f_item st = Some (f_item, st)"
| "find_loop io directory name (Suc n) i f_item st = do {
     arr \<leftarrow> item_arrays st (dir_item directory);
     item \<leftarrow> item_at arr i;
     tmp_filename \<leftarrow> combine_filename_and_ext item (replicate RASOS_PATH_MAX_LEN 0) RASOS_PATH_MAX_LEN;
     c \<leftarrow> istrncmp tmp_filename name (int RASOS_PATH_MAX_LEN);
     (f_item, st) \<leftarrow> (if c = 0 then fat16_new_fat_item_for_directory_item io st item else Some (f_item, st));
     find_loop io directory name n (i + 1) f_item st
   }"

definition fat16_find_item_in_directory ::
  "'d ports \<Rightarrow> 'd fs_state \<Rightarrow> fat_directory \<Rightarrow> cbuf \<Rightarrow> (addr \<times> 'd fs_state) option" where
  "fat16_find_item_in_directory io st directory name =
     find_loop io directory name (nat (dir_total directory)) 0 0 st"

primrec entry_loop :: "'d ports \<Rightarrow> path_part list \<Rightarrow> addr \<Rightarrow> 'd fs_state \<Rightarrow> (addr \<times> 'd fs_state) option" where
  "entry_loop io [] current_item st = Some (current_item, st)"
| "entry_loop io (next_part # parts) current_item st = do {
     it \<leftarrow> fat_items st current_item;
     if item_type it \<noteq> FAT_ITEM_TYPE_DIRECTORY then Some (0, st)
     else do {
       d \<leftarrow> directories st (item_ptr it);
       (tmp_item, st) \<leftarrow> fat16_find_item_in_directory io st d (part next_part);
       st \<leftarrow> fat16_fat_item_free st current_item;
       entry_loop io parts tmp_item st
     }
   }"

text \<open>The path is the list of its parts, the first one present.\<close>

definition fat16_get_directory_entry ::
  "'d ports \<Rightarrow> 'd fs_state \<Rightarrow> path_part list \<Rightarrow> (addr \<times> 'd fs_state) option" where
  "fat16_get_directory_entry io st path =
     (case path of
        [] \<Rightarrow> None
      | p # next \<Rightarrow> do {
          priv \<leftarrow> private_of st;
          (root_item, st) \<leftarrow> fat16_find_item_in_directory io st (root_directory priv) (part p);
          if root_item = 0 then Some (0, st) else entry_loop io next root_item st
        })"

section \<open>The operations of the filesystem\<close>

definition fat16_open ::
  "'d ports \<Rightarrow> 'd fs_state \<Rightarrow> path_part list \<Rightarrow> u32 \<Rightarrow> (addr \<times> 'd fs_state) option" where
  "fat16_open io st path mode =
     (if mode \<noteq> FILE_MODE_READ then Some (ERROR (- ERDONLY), st)
      else do {
        (descriptor, st) \<leftarrow> fs_zalloc st 8;
        if descriptor = 0 then Some (ERROR (- ENOMEM), st)
        else do {
          (item, st) \<leftarrow> fat16_get_directory_entry io st path;
          let st = st\<lparr>descriptors := (descriptors st)(descriptor \<mapsto> \<lparr>desc_item = item, desc_pos = 0\<rparr>)\<rparr>;
          if item = 0 then Some (ERROR (- EIO), st) else Some (descriptor, st)
        }
      })"

primrec read_loop ::
  "'d ports \<Rightarrow> addr \<Rightarrow> u32 \<Rightarrow> nat \<Rightarrow> u32 \<Rightarrow> 'd fs_state \<Rightarrow> (int \<times> cbuf \<times> 'd fs_state) option" where
  "read_loop io item sz 0 offset st = Some (0, [], st)"
| "read_loop io item sz (Suc n) offset st = do {
     arr \<leftarrow> item_arrays st item;
     it \<leftarrow> item_at arr 0;
     (res, out, st) \<leftarrow> fat16_read_internal io st (sint (fat16_get_first_cluster (item_of_bytes it)))
       (sint offset) (sint sz);
     if res < 0 then Some (res, out, st)
     else do {
       (res, rest, st) \<leftarrow> read_loop io item sz n (offset + sz) st;
       Some (res, out @ rest, st)
     }
   }"

text \<open>The result and the bytes written to \<^verbatim>\<open>out\<close>.\<close>

definition fat16_read ::
  "'d ports \<Rightarrow> 'd fs_state \<Rightarrow> addr \<Rightarrow> u32 \<Rightarrow> u32 \<Rightarrow> (int \<times> cbuf \<times> 'd fs_state) option" where
  "fat16_read io st descriptor sz nmemb = do {
     desc \<leftarrow> descriptors st descriptor;
     it \<leftarrow> fat_items st (desc_item desc);
     (res, out, st) \<leftarrow> read_loop io (item_ptr it) sz (unat nmemb) (desc_pos desc) st;
     Some (if res < 0 then res else sint nmemb, out, st)
   }"

definition fat16_seek :: "'d fs_state \<Rightarrow> addr \<Rightarrow> u32 \<Rightarrow> u32 \<Rightarrow> (int \<times> 'd fs_state) option" where
  "fat16_seek st private_data offset seek_mode = do {
     desc \<leftarrow> descriptors st private_data;
     it \<leftarrow> fat_items st (desc_item desc);
     if item_type it \<noteq> FAT_ITEM_TYPE_FILE then Some (- EINVARG, st)
     else do {
       arr \<leftarrow> item_arrays st (item_ptr it);
       ritem \<leftarrow> item_at arr 0;
       if offset \<ge> filesize (item_of_bytes ritem) then Some (- EIO, st)
       else if seek_mode = SEEK_SET then
         Some (0, st\<lparr>descriptors := (descriptors st)(private_data \<mapsto> desc\<lparr>desc_pos := offset\<rparr>)\<rparr>)
       else if seek_mode = SEEK_END then Some (- EUNIMP, st)
       else if seek_mode = SEEK_CUR then
         Some (0, st\<lparr>descriptors := (descriptors st)(private_data \<mapsto> desc\<lparr>desc_pos := desc_pos desc + offset\<rparr>)\<rparr>)
       else Some (- EINVARG, st)
     }
   }"

definition fat16_stat :: "'d fs_state \<Rightarrow> addr \<Rightarrow> file_stat \<Rightarrow> (int \<times> file_stat) option" where
  "fat16_stat st private stat = do {
     desc \<leftarrow> descriptors st private;
     it \<leftarrow> fat_items st (desc_item desc);
     if item_type it \<noteq> FAT_ITEM_TYPE_FILE then Some (- EINVARG, stat)
     else do {
       arr \<leftarrow> item_arrays st (item_ptr it);
       ritem \<leftarrow> item_at arr 0;
       let stat = stat\<lparr>stat_filesize := filesize (item_of_bytes ritem), stat_flags := 0\<rparr>;
       Some (0, if attribute (item_of_bytes ritem) AND FAT_FILE_READ_ONLY \<noteq> 0
                then stat\<lparr>stat_flags := stat_flags stat OR FILE_STAT_READ_ONLY\<rparr> else stat)
     }
   }"

definition fat16_free_file_descriptor :: "'d fs_state \<Rightarrow> addr \<Rightarrow> 'd fs_state option" where
  "fat16_free_file_descriptor st desc = do {
     d \<leftarrow> descriptors st desc;
     st \<leftarrow> fat16_fat_item_free st (desc_item d);
     fs_free st desc
   }"

definition fat16_close :: "'d fs_state \<Rightarrow> addr \<Rightarrow> (int \<times> 'd fs_state) option" where
  "fat16_close st private = do { st \<leftarrow> fat16_free_file_descriptor st private; Some (0, st) }"

section \<open>File names\<close>

text \<open>A padded field up to its padding, and the name \<^verbatim>\<open>NAME.EXT\<close> an item should have.\<close>

definition is_pad :: "byte \<Rightarrow> bool" where
  "is_pad c \<longleftrightarrow> c = 0x00 \<or> c = 0x20"
definition pad_name :: "cbuf \<Rightarrow> cbuf" where
  "pad_name xs = takeWhile (\<lambda>c. \<not> is_pad c) xs"
definition display_name :: "fat_directory_item \<Rightarrow> cbuf" where
  "display_name it = pad_name (filename it) @
     (if pad_name (ext it) = [] then [] else 46 # pad_name (ext it))"

text \<open>
  The items whose fields end in padding: at most seven characters of name, and an extension of
  three characters only before an attribute byte that is itself a padding character.
\<close>

definition well_named :: "cbuf \<Rightarrow> bool" where
  "well_named item \<longleftrightarrow> 32 \<le> length item \<and> (\<exists>i<8. is_pad (item ! i)) \<and>
     (is_pad (item ! 8) \<or> is_pad (item ! 9) \<or> is_pad (item ! 10) \<or> is_pad (item ! 11))"

lemma pad_name_simps [simp]:
  "pad_name [] = []" "pad_name (c # xs) = (if is_pad c then [] else c # pad_name xs)"
  by (simp_all add: pad_name_def)

lemma remove_padded_spaces_eq:
  assumes "\<exists>c \<in> set inp. is_pad c" "length (pad_name inp) < m"
  shows "remove_padded_spaces (pre @ replicate m 0) (length pre) inp =
    Some (pre @ pad_name inp @ replicate (m - length (pad_name inp)) 0, length pre + length (pad_name inp))"
  using assms
proof (induction inp arbitrary: pre m)
  case (Cons c inp)
  obtain m' where m: "m = Suc m'" using Cons.prems(2) by (cases m) auto
  show ?case
  proof (cases "is_pad c")
    case True
    then show ?thesis using m by (auto simp: is_pad_def list_update_append)
  next
    case False
    then have "remove_padded_spaces ((pre @ [c]) @ replicate m' 0) (length (pre @ [c])) inp =
      Some ((pre @ [c]) @ pad_name inp @ replicate (m' - length (pad_name inp)) 0, length (pre @ [c]) + length (pad_name inp))"
      using Cons.prems m by (intro Cons.IH) auto
    then show ?thesis using False m by (simp add: is_pad_def list_update_append)
  qed
qed simp

lemma pad_name_take:
  "i < n \<Longrightarrow> i < length xs \<Longrightarrow> is_pad (xs ! i) \<Longrightarrow> pad_name (take n xs) = pad_name xs"
proof (induction xs arbitrary: i n)
  case (Cons x xs)
  then obtain n' where "n = Suc n'" by (cases n) auto
  with Cons show ?case by (cases i) auto
qed simp

lemma length_pad_name: "i < length xs \<Longrightarrow> is_pad (xs ! i) \<Longrightarrow> length (pad_name xs) \<le> i"
proof (induction xs arbitrary: i)
  case (Cons x xs)
  then show ?case by (cases i) auto
qed simp

lemma item_tail:
  assumes "32 \<le> length item"
  shows "drop 8 item = item ! 8 # item ! 9 # item ! 10 # item ! 11 # drop 12 item" 
  using Cons_nth_drop_Suc [of 8 item] Cons_nth_drop_Suc [of 9 item] Cons_nth_drop_Suc [of 10 item]
    Cons_nth_drop_Suc [of 11 item] assms by simp

lemma well_named_fields:
  assumes "well_named item"
  shows "pad_name (filename (item_of_bytes item)) = pad_name item" "length (pad_name item) < 8"
    "pad_name (ext (item_of_bytes item)) = pad_name (drop 8 item)" "length (pad_name (drop 8 item)) \<le> 3"
    "\<exists>c \<in> set item. is_pad c" "\<exists>c \<in> set (drop 8 item). is_pad c"
proof -
  obtain i where i: "i < 8" "is_pad (item ! i)" "32 \<le> length item" using assms by (auto simp: well_named_def)
  show "pad_name (filename (item_of_bytes item)) = pad_name item"
    using pad_name_take [of i 8 item] i by (simp add: item_of_bytes_def)
  show "length (pad_name item) < 8" using length_pad_name [of i item] i by simp
  show "\<exists>c \<in> set item. is_pad c" using i nth_mem [of i item] by auto
  note t = item_tail [OF i(3)]
  have "\<exists>j\<in>{0, 1, 2, 3}. is_pad (drop 8 item ! j)" using assms by (simp add: well_named_def t)
  then obtain j where "j \<in> {0, 1, 2, 3}" and j2: "is_pad (drop 8 item ! j)" by blast
  then have j: "j \<le> 3" "is_pad (drop 8 item ! j)" by auto
  have l: "j < length (drop 8 item)" using j(1) i(3) by simp
  show "length (pad_name (drop 8 item)) \<le> 3" using length_pad_name [OF l j(2)] j(1) by simp
  show "\<exists>c \<in> set (drop 8 item). is_pad c" using nth_mem [OF l] j(2) by blast
  show "pad_name (ext (item_of_bytes item)) = pad_name (drop 8 item)"
  proof (cases "j < 3")
    case True
    then show ?thesis using pad_name_take [OF True l j(2)] by (simp add: item_of_bytes_def)
  next
    case False
    then have j3: "j = 3" using j(1) by simp
    then show ?thesis using j(2) t by (simp add: item_of_bytes_def)
  qed
qed

lemma combine_filename_and_ext_ok:
  assumes "well_named item"
  shows "combine_filename_and_ext item (replicate 128 0) 128 = Some (name_buffer (display_name (item_of_bytes item)))"
proof -
  note w = well_named_fields [OF assms]
  have len: "length item \<ge> 32" using assms by (simp add: well_named_def)
  have ms: "memset (replicate 128 0) 0 128 = Some (replicate 128 0)" by (simp add: memset_eq)
  have r1: "remove_padded_spaces (replicate 128 0) 0 item =
      Some (pad_name item @ replicate (128 - length (pad_name item)) 0, length (pad_name item))"
    using remove_padded_spaces_eq [OF w(5), of 128 "[]"] w(2) by simp
  have e: "pad_name (drop 8 item) = [] \<longleftrightarrow> is_pad (item ! 8)" by (simp add: item_tail [OF len])
  show ?thesis
  proof (cases "is_pad (item ! 8)")
    case True
    then show ?thesis using ms r1 w e
      by (auto simp: combine_filename_and_ext_def display_name_def name_buffer_def is_pad_def)
  next
    case False
    let ?pre = "pad_name item @ [46]"
    obtain m where m: "128 - length (pad_name item) = Suc m" "m = 127 - length (pad_name item)" using w(2) by simp
    have "remove_padded_spaces (?pre @ replicate m 0) (length ?pre) (drop 8 item) =
        Some (?pre @ pad_name (drop 8 item) @ replicate (m - length (pad_name (drop 8 item))) 0,
          length ?pre + length (pad_name (drop 8 item)))"
      by (rule remove_padded_spaces_eq [OF w(6)]) (use w(2,4) m in simp)
    moreover have "(pad_name item @ replicate (128 - length (pad_name item)) 0)[length (pad_name item) := 46]
        = ?pre @ replicate m 0"
      using m by (simp add: list_update_append)
    ultimately show ?thesis using ms r1 w e False m
      by (simp add: combine_filename_and_ext_def display_name_def name_buffer_def is_pad_def)
  qed
qed

text \<open>An eight-character name has no padding: the copy runs on into the extension.\<close>

lemma combine_filename_and_ext_full:
  assumes "32 \<le> length item" "\<forall>i<11. \<not> is_pad (item ! i)" "is_pad (item ! 11)"
  shows "combine_filename_and_ext item (replicate 128 0) 128 =
    Some (name_buffer (take 11 item @ 46 # take 3 (drop 8 item)))"
proof -
  have t: "pad_name item = take 11 item"
  proof -
    have "pad_name item = pad_name (take 11 item @ item ! 11 # drop 12 item)"
      using id_take_nth_drop [of 11 item] assms(1) by simp
    also have "\<dots> = take 11 item"
      unfolding pad_name_def using assms by (subst takeWhile_append2) (auto simp: in_set_conv_nth)
    finally show ?thesis .
  qed
  note d = item_tail [OF assms(1)]
  then have e: "pad_name (drop 8 item) = take 3 (drop 8 item)" using assms(2,3) by simp
  have p: "\<exists>c \<in> set item. is_pad c" "\<exists>c \<in> set (drop 8 item). is_pad c"
    using assms(1,3) nth_mem [of 11 item] by (auto simp: d)
  have ms: "memset (replicate 128 0) 0 128 = Some (replicate 128 0)" by (simp add: memset_eq)
  have r1: "remove_padded_spaces (replicate 128 0) 0 item = Some (take 11 item @ replicate 117 0, 11)"
    using remove_padded_spaces_eq [OF p(1), of 128 "[]"] t assms(1) by simp
  have "(take 11 item @ replicate 117 0)[11 := 46] = (take 11 item @ [46]) @ replicate 116 0"
    using assms(1) by (simp add: list_update_append numeral_eq_Suc)
  moreover have "remove_padded_spaces ((take 11 item @ [46]) @ replicate 116 0) (length (take 11 item @ [46])) (drop 8 item) =
      Some ((take 11 item @ [46]) @ pad_name (drop 8 item) @ replicate (116 - length (pad_name (drop 8 item))) 0,
          length (take 11 item @ [46]) + length (pad_name (drop 8 item)))"
    by (rule remove_padded_spaces_eq [OF p(2)]) (simp add: e)
  ultimately show ?thesis using ms r1 assms e
    by (simp add: combine_filename_and_ext_def name_buffer_def is_pad_def)
qed

end
