(* ===== verification/Fat16Proofs.thy ===== *)
theory Fat16Proofs
  imports Fat16Files
begin

text \<open>
  What the FAT16 operations do on a mounted volume: objects on the kernel heap, lookup of a name
  in a directory, and open, seek, stat, read and close of a file.
\<close>

section \<open>The driver's objects on the kernel heap\<close>

definition fs_ok :: "'d fs_state \<Rightarrow> bool" where "fs_ok st \<longleftrightarrow> kheap_ok (fs_kmem st)"
definition fs_used :: "'d fs_state \<Rightarrow> addr set" where "fs_used st = kheap_used (fs_kmem st)"
definition fs_avail :: "'d fs_state \<Rightarrow> nat" where "fs_avail st = kheap_avail (fs_kmem st)"

lemma fs_heap_update [simp]:
  "fs_ok (st\<lparr>fs_kmem := k\<rparr>) = kheap_ok k" "fs_used (st\<lparr>fs_kmem := k\<rparr>) = kheap_used k"
  "fs_avail (st\<lparr>fs_kmem := k\<rparr>) = kheap_avail k"
  by (simp_all add: fs_ok_def fs_used_def fs_avail_def)

lemma fs_heap_stores [simp]:
  "fs_ok (st\<lparr>descriptors := a\<rparr>) = fs_ok st" "fs_ok (st\<lparr>fat_items := b\<rparr>) = fs_ok st"
  "fs_ok (st\<lparr>item_arrays := c\<rparr>) = fs_ok st" "fs_used (st\<lparr>descriptors := a\<rparr>) = fs_used st"
  "fs_used (st\<lparr>fat_items := b\<rparr>) = fs_used st" "fs_used (st\<lparr>item_arrays := c\<rparr>) = fs_used st"
  "fs_avail (st\<lparr>descriptors := a\<rparr>) = fs_avail st" "fs_avail (st\<lparr>fat_items := b\<rparr>) = fs_avail st"
  "fs_avail (st\<lparr>item_arrays := c\<rparr>) = fs_avail st"
  by (simp_all add: fs_ok_def fs_used_def fs_avail_def)

text \<open>The driver's allocator meets the contract of the kernel heap.\<close>

interpretation fspage: page_allocator fs_zalloc fs_free fs_ok fs_used fs_avail
proof unfold_locales
  fix st :: "'d fs_state" and n
  assume "fs_ok st" "page_request n" "0 < fs_avail st"
  then obtain p k' where "kzalloc (fs_kmem st) n = Some (p, k')" "kheap_ok k'" "p \<noteq> 0" "page_aligned p"
    "p \<notin> fs_used st" "kheap_used k' = insert p (fs_used st)" "Suc (kheap_avail k') = fs_avail st"
    using kpage.alloc_page [of "fs_kmem st" n] by (auto simp: fs_ok_def fs_used_def fs_avail_def)
  then show "\<exists>p st'. fs_zalloc st n = Some (p, st') \<and> fs_ok st' \<and> p \<noteq> 0 \<and> page_aligned p \<and> p \<notin> fs_used st
      \<and> fs_used st' = insert p (fs_used st) \<and> Suc (fs_avail st') = fs_avail st"
    by (simp add: fs_zalloc_def)
next
  fix st :: "'d fs_state" and n
  assume "fs_ok st" "page_request n" "fs_avail st = 0"
  then show "fs_zalloc st n = Some (0, st)"
    using kpage.alloc_full [of "fs_kmem st" n] by (simp add: fs_zalloc_def fs_ok_def fs_avail_def)
next
  fix st :: "'d fs_state" and p
  assume "fs_ok st" "p \<in> fs_used st"
  then obtain k' where "kfree (fs_kmem st) p = Some k'" "kheap_ok k'" "kheap_used k' = fs_used st - {p}"
    "kheap_avail k' = Suc (fs_avail st)"
    using kpage.release_page [of "fs_kmem st" p] by (auto simp: fs_ok_def fs_used_def fs_avail_def)
  then show "\<exists>st'. fs_free st p = Some st' \<and> fs_ok st' \<and> fs_used st' = fs_used st - {p}
      \<and> fs_avail st' = Suc (fs_avail st)"
    by (simp add: fs_free_def fs_ok_def fs_used_def fs_avail_def)
qed

text \<open>Allocation changes the heap only.\<close>

lemma fs_zalloc_page:
  assumes "fs_ok st" "page_request n" "0 < fs_avail st"
  obtains p k where "fs_zalloc st n = Some (p, st\<lparr>fs_kmem := k\<rparr>)" "kheap_ok k" "p \<noteq> 0" "p \<notin> fs_used st"
    "kheap_used k = insert p (fs_used st)" "Suc (kheap_avail k) = fs_avail st"
proof -
  from fspage.alloc_page [OF assms] obtain p st' where
    p: "fs_zalloc st n = Some (p, st')" "fs_ok st'" "p \<noteq> 0" "p \<notin> fs_used st"
    "fs_used st' = insert p (fs_used st)" "Suc (fs_avail st') = fs_avail st" by blast
  then obtain k where "st' = st\<lparr>fs_kmem := k\<rparr>" by (auto simp: fs_zalloc_def split: bind_splits)
  with p that show thesis by auto
qed

text \<open>Freeing an object removes it from every store.\<close>

lemma fs_free_page:
  assumes "fs_ok st" "p \<in> fs_used st"
  obtains k where "fs_free st p = Some (st\<lparr>fs_kmem := k, streams := (streams st)(p := None),
      item_arrays := (item_arrays st)(p := None), directories := (directories st)(p := None),
      fat_items := (fat_items st)(p := None), descriptors := (descriptors st)(p := None),
      privates := (privates st)(p := None)\<rparr>)"
    "kheap_ok k" "kheap_used k = fs_used st - {p}" "kheap_avail k = Suc (fs_avail st)"
proof -
  from kpage.release_page [of "fs_kmem st" p] assms obtain k where "kfree (fs_kmem st) p = Some k"
    "kheap_ok k" "kheap_used k = fs_used st - {p}" "kheap_avail k = Suc (fs_avail st)"
    by (auto simp: fs_ok_def fs_used_def fs_avail_def)
  with that show thesis by (simp add: fs_free_def)
qed

section \<open>Lookup in a directory\<close>

text \<open>Item \<open>i\<close> of the array is named \<open>s\<close>, ignoring case.\<close>

definition named_item :: "cbuf \<Rightarrow> cbuf \<Rightarrow> nat \<Rightarrow> bool" where
  "named_item arr s i \<longleftrightarrow>
     map tolower (display_name (item_of_bytes (drop (32 * i) arr))) = map tolower s"

text \<open>The first \<open>n\<close> items of the array are there and well named.\<close>

definition items_ok :: "cbuf \<Rightarrow> nat \<Rightarrow> bool" where
  "items_ok arr n \<longleftrightarrow> 32 * n \<le> length arr \<and> (\<forall>i<n. well_named (drop (32 * i) arr))"

lemma display_name_short:
  assumes "well_named item"
  shows "length (display_name (item_of_bytes item)) \<le> 11" "0 \<notin> set (display_name (item_of_bytes item))"
proof -
  have "0 \<notin> set (pad_name xs)" for xs by (auto simp: pad_name_def is_pad_def dest: set_takeWhileD)
  then show "0 \<notin> set (display_name (item_of_bytes item))" by (simp add: display_name_def)
  show "length (display_name (item_of_bytes item)) \<le> 11"
    using well_named_fields(1-4) [OF assms] by (simp add: display_name_def)
qed

lemma name_buffer_string: "0 \<notin> set s \<Longrightarrow> length s < 128 \<Longrightarrow> 0 \<in> set (name_buffer s) \<and> cstr (name_buffer s) = s"
  by (cases "128 - length s") (auto simp: name_buffer_def cstr_append)

lemma istrncmp_names:
  assumes "0 \<notin> set s" "length s < 128" "0 \<notin> set t" "length t < 128"
  shows "\<exists>c. istrncmp (name_buffer s) (name_buffer t) 128 = Some c \<and> (c = 0 \<longleftrightarrow> map tolower s = map tolower t)"
proof -
  have tot: "\<exists>c. istrncmp a b m = Some c" if "0 \<in> set a" "0 \<in> set b" for a b m
    using that by (induction a b m rule: istrncmp.induct) auto
  show ?thesis
    using istrncmp_zero_iff [of "name_buffer s" "name_buffer t" 128] tot [of "name_buffer s" "name_buffer t" 128]
      name_buffer_string [of s] name_buffer_string [of t] assms by auto
qed

lemma find_loop_append:
  "find_loop io d name (m + n) i f st =
     Option.bind (find_loop io d name m i f st) (\<lambda>(f, st). find_loop io d name n (i + int m) f st)"
  by (induction m arbitrary: i f st) (auto simp: algebra_simps split: bind_splits prod.splits)

lemma find_loop_item:
  assumes "item_arrays st (dir_item d) = Some arr" "items_ok arr m" "i < m" "0 \<notin> set s" "length s < 128"
  shows "find_loop io d (name_buffer s) (Suc n) (int i) f st =
    Option.bind (if named_item arr s i then fat16_new_fat_item_for_directory_item io st (drop (32 * i) arr) else Some (f, st))
      (\<lambda>(f, st). find_loop io d (name_buffer s) n (int i + 1) f st)"
proof -
  have w: "well_named (drop (32 * i) arr)" "32 * (i + 1) \<le> length arr" using assms(2,3) by (auto simp: items_ok_def)
  obtain c where "istrncmp (name_buffer (display_name (item_of_bytes (drop (32 * i) arr)))) (name_buffer s) 128 = Some c"
    "c = 0 \<longleftrightarrow> named_item arr s i"
    using istrncmp_names [of "display_name (item_of_bytes (drop (32 * i) arr))" s] display_name_short [OF w(1)] assms(4,5)
    by (auto simp: named_item_def)
  then show ?thesis
    using assms(1) w(2) combine_filename_and_ext_ok [OF w(1)] by (auto simp: item_at_def)
qed

lemma find_loop_none:
  assumes "item_arrays st (dir_item d) = Some arr" "items_ok arr m" "0 \<notin> set s" "length s < 128"
  shows "i + n \<le> m \<Longrightarrow> \<forall>j. i \<le> j \<longrightarrow> j < i + n \<longrightarrow> \<not> named_item arr s j \<Longrightarrow>
    find_loop io d (name_buffer s) n (int i) f st = Some (f, st)"
proof (induction n arbitrary: i)
  case (Suc n)
  have "i < m" "\<not> named_item arr s i" using Suc.prems by auto
  moreover have "find_loop io d (name_buffer s) n (int (Suc i)) f st = Some (f, st)"
    using Suc.prems by (intro Suc.IH) auto
  ultimately show ?case using find_loop_item [OF assms(1,2) _ assms(3,4), of i io n f] by (simp add: add.commute)
qed simp

text \<open>A name no item has: nothing is found, nothing changes.\<close>

lemma fat16_find_item_absent:
  assumes "item_arrays st (dir_item d) = Some arr" "items_ok arr (nat (dir_total d))" "0 \<notin> set s" "length s < 128"
    "\<forall>i<nat (dir_total d). \<not> named_item arr s i"
  shows "fat16_find_item_in_directory io st d (name_buffer s) = Some (0, st)"
  using find_loop_none [OF assms(1-4), of 0 "nat (dir_total d)" io 0] assms(5)
  by (simp add: fat16_find_item_in_directory_def)

text \<open>A file item: two blocks, the item and a copy of the directory entry.\<close>

definition file_item_state :: "'d fs_state \<Rightarrow> kmem \<Rightarrow> addr \<Rightarrow> addr \<Rightarrow> cbuf \<Rightarrow> 'd fs_state" where
  "file_item_state st k f p entry = st\<lparr>fs_kmem := k,
     item_arrays := (item_arrays st)(p \<mapsto> entry),
     fat_items := (fat_items st)(f \<mapsto> \<lparr>item_ptr = p, item_type = FAT_ITEM_TYPE_FILE\<rparr>)\<rparr>"

lemma fat16_new_file_item:
  assumes "fs_ok st" "1 < fs_avail st" "32 \<le> length item"
    "attribute (item_of_bytes item) AND FAT_FILE_SUBDIRECTORY = 0"
  obtains f p k where "fat16_new_fat_item_for_directory_item io st item =
      Some (f, file_item_state st k f p (take 32 item))"
    "f \<noteq> 0" "p \<noteq> 0" "f \<noteq> p" "f \<notin> fs_used st" "p \<notin> fs_used st" "kheap_ok k"
    "kheap_used k = {f, p} \<union> fs_used st" "kheap_avail k + 2 = fs_avail st"
proof -
  have "0 < fs_avail st" using assms(2) by simp
  from fs_zalloc_page [OF assms(1) page_request_8 this] obtain f k1 where
    f: "fs_zalloc st 8 = Some (f, st\<lparr>fs_kmem := k1\<rparr>)" "kheap_ok k1" "f \<noteq> 0" "f \<notin> fs_used st"
    "kheap_used k1 = insert f (fs_used st)" "Suc (kheap_avail k1) = fs_avail st" by blast
  have "page_request 32" by (simp add: page_request_def)
  then obtain p k where
    p: "fs_zalloc (st\<lparr>fs_kmem := k1\<rparr>) 32 = Some (p, st\<lparr>fs_kmem := k1\<rparr>\<lparr>fs_kmem := k\<rparr>)" "kheap_ok k" "p \<noteq> 0"
    "p \<notin> insert f (fs_used st)" "kheap_used k = insert p (insert f (fs_used st))" "Suc (kheap_avail k) = kheap_avail k1"
    using fs_zalloc_page [of "st\<lparr>fs_kmem := k1\<rparr>" 32] f(2,5,6) assms(2) by auto
  have "memcpy (replicate 32 0) item 32 = Some (take 32 item)"
    using memcpy_eq [of 32 "replicate 32 0" item] assms(3) by simp
  then have "fat16_clone_directory_item (st\<lparr>fs_kmem := k1\<rparr>) item 32 =
      Some (p, st\<lparr>fs_kmem := k, item_arrays := (item_arrays st)(p \<mapsto> take 32 item)\<rparr>)"
    using p by (simp add: fat16_clone_directory_item_def)
  then have "fat16_new_fat_item_for_directory_item io st item = Some (f, file_item_state st k f p (take 32 item))"
    using f assms(4) by (simp add: fat16_new_fat_item_for_directory_item_def file_item_state_def)
  moreover have "f \<noteq> p" "p \<notin> fs_used st" "kheap_used k = {f, p} \<union> fs_used st" "kheap_avail k + 2 = fs_avail st"
    using f(5,6) p(4-6) by auto
  ultimately show thesis using that f(3,4) p(2,3) by blast
qed

text \<open>A file's name that one item has: that item is found.\<close>

lemma fat16_find_file:
  assumes st: "fs_ok st" "1 < fs_avail st" "dir_item d \<in> fs_used st"
    and arr: "item_arrays st (dir_item d) = Some arr" "items_ok arr (nat (dir_total d))"
    and s: "0 \<notin> set s" "length s < 128"
    and i: "i < nat (dir_total d)" "named_item arr s i" "\<forall>j<nat (dir_total d). named_item arr s j \<longrightarrow> j = i"
    and reg: "attribute (item_of_bytes (drop (32 * i) arr)) AND FAT_FILE_SUBDIRECTORY = 0"
  obtains f p k where "fat16_find_item_in_directory io st d (name_buffer s) =
      Some (f, file_item_state st k f p (take 32 (drop (32 * i) arr)))"
    "f \<noteq> 0" "p \<noteq> 0" "f \<noteq> p" "f \<notin> fs_used st" "p \<notin> fs_used st" "kheap_ok k"
    "kheap_used k = {f, p} \<union> fs_used st" "kheap_avail k + 2 = fs_avail st"
proof -
  let ?n = "nat (dir_total d)"
  have "32 \<le> length (drop (32 * i) arr)" using arr(2) i(1) by (auto simp: items_ok_def)
  then obtain f p k where
    f: "fat16_new_fat_item_for_directory_item io st (drop (32 * i) arr) =
      Some (f, file_item_state st k f p (take 32 (drop (32 * i) arr)))"
    "f \<noteq> 0" "p \<noteq> 0" "f \<noteq> p" "f \<notin> fs_used st" "p \<notin> fs_used st" "kheap_ok k"
    "kheap_used k = {f, p} \<union> fs_used st" "kheap_avail k + 2 = fs_avail st"
    by (rule fat16_new_file_item [OF st(1,2) _ reg])
  let ?st = "file_item_state st k f p (take 32 (drop (32 * i) arr))"
  have arr': "item_arrays ?st (dir_item d) = Some arr"
    using arr(1) f(6) st(3) by (auto simp: file_item_state_def)
  have before: "find_loop io d (name_buffer s) i 0 0 st = Some (0, st)"
  proof -
    have "\<not> named_item arr s j" if "j < i" for j using spec [OF i(3), of j] i(1) that by auto
    then show ?thesis using find_loop_none [OF arr s, of 0 i io 0] i(1) by simp
  qed
  have after: "find_loop io d (name_buffer s) (?n - Suc i) (int (Suc i)) f ?st = Some (f, ?st)"
  proof (rule find_loop_none [OF arr' arr(2) s])
    show "\<forall>j. Suc i \<le> j \<longrightarrow> j < Suc i + (?n - Suc i) \<longrightarrow> \<not> named_item arr s j"
    proof (intro allI impI)
      fix j assume "Suc i \<le> j" "j < Suc i + (?n - Suc i)"
      then show "\<not> named_item arr s j" using spec [OF i(3), of j] i(1) by auto
    qed
  qed (use i(1) in simp)
  have "find_loop io d (name_buffer s) (Suc (?n - Suc i)) (int i) 0 st = Some (f, ?st)"
    using find_loop_item [OF arr i(1) s, of io "?n - Suc i" 0] i(2) f(1) after by (simp add: add.commute del: find_loop.simps)
  then have "find_loop io d (name_buffer s) (i + Suc (?n - Suc i)) 0 0 st = Some (f, ?st)"
    using before by (subst find_loop_append) (simp del: find_loop.simps)
  then have "fat16_find_item_in_directory io st d (name_buffer s) = Some (f, ?st)"
    using i(1) by (simp add: fat16_find_item_in_directory_def)
  from that [OF this f(2-9)] show thesis .
qed

section \<open>Open files\<close>

text \<open>An open file: descriptor \<open>d\<close>, its item \<open>f\<close> and the copy \<open>p\<close> of the directory entry.\<close>

definition open_file :: "'d fs_state \<Rightarrow> addr \<Rightarrow> addr \<Rightarrow> addr \<Rightarrow> cbuf \<Rightarrow> u32 \<Rightarrow> bool" where
  "open_file st d f p entry ofs \<longleftrightarrow> distinct [d, f, p] \<and> d \<noteq> 0 \<and> f \<noteq> 0 \<and> p \<noteq> 0 \<and> {d, f, p} \<subseteq> fs_used st
     \<and> descriptors st d = Some \<lparr>desc_item = f, desc_pos = ofs\<rparr>
     \<and> fat_items st f = Some \<lparr>item_ptr = p, item_type = FAT_ITEM_TYPE_FILE\<rparr>
     \<and> item_arrays st p = Some entry \<and> 32 \<le> length entry"

lemma open_file_item: "open_file st d f p entry ofs \<Longrightarrow> item_at entry 0 = Some entry"
  by (simp add: open_file_def item_at_def)

text \<open>The position a seek leaves, or its error.\<close>

definition seek_result :: "u32 \<Rightarrow> u32 \<Rightarrow> u32 \<Rightarrow> u32 \<Rightarrow> int + u32" where
  "seek_result len ofs offset mode =
     (if offset \<ge> len then Inl (- EIO)
      else if mode = SEEK_SET then Inr offset
      else if mode = SEEK_CUR then Inr (ofs + offset)
      else if mode = SEEK_END then Inl (- EUNIMP) else Inl (- EINVARG))"

lemma fat16_seek_ok:
  assumes "open_file st d f p entry ofs"
  shows "case seek_result (filesize (item_of_bytes entry)) ofs offset mode of
      Inl e \<Rightarrow> fat16_seek st d offset mode = Some (e, st)
    | Inr ofs' \<Rightarrow> \<exists>st'. fat16_seek st d offset mode = Some (0, st') \<and> open_file st' d f p entry ofs'
        \<and> st' = st\<lparr>descriptors := descriptors st'\<rparr> \<and> (\<forall>e. e \<noteq> d \<longrightarrow> descriptors st' e = descriptors st e)"
  using assms open_file_item [OF assms]
  by (auto simp: fat16_seek_def seek_result_def open_file_def)

text \<open>A directory can be opened but not sought.\<close>

lemma fat16_seek_directory:
  assumes "descriptors st d = Some desc" "fat_items st (desc_item desc) = Some it" "item_type it = FAT_ITEM_TYPE_DIRECTORY"
  shows "fat16_seek st d offset mode = Some (- EINVARG, st)"
    and "fat16_stat st d stat = Some (- EINVARG, stat)"
  using assms by (simp_all add: fat16_seek_def fat16_stat_def)

lemma fat16_stat_ok:
  assumes "open_file st d f p entry ofs"
  shows "fat16_stat st d stat = Some (0, \<lparr>
    stat_flags = (if attribute (item_of_bytes entry) AND FAT_FILE_READ_ONLY \<noteq> 0 then FILE_STAT_READ_ONLY else 0),
    stat_filesize = filesize (item_of_bytes entry)\<rparr>)"
  using assms open_file_item [OF assms] by (simp add: fat16_stat_def open_file_def)

text \<open>Closing frees the three objects, and nothing else.\<close>

definition without :: "'d fs_state \<Rightarrow> addr \<Rightarrow> 'd fs_state" where
  "without st p = st\<lparr>streams := (streams st)(p := None),
     item_arrays := (item_arrays st)(p := None), directories := (directories st)(p := None),
     fat_items := (fat_items st)(p := None), descriptors := (descriptors st)(p := None),
     privates := (privates st)(p := None)\<rparr>"

lemma without_stores [simp]:
  "fs_kmem (without st p) = fs_kmem st" "the_disk (without st p) = the_disk st" "fs_dev (without st p) = fs_dev st"
  "streams (without st p) = (streams st)(p := None)" "item_arrays (without st p) = (item_arrays st)(p := None)"
  "directories (without st p) = (directories st)(p := None)" "fat_items (without st p) = (fat_items st)(p := None)"
  "descriptors (without st p) = (descriptors st)(p := None)" "privates (without st p) = (privates st)(p := None)"
  "without (st\<lparr>fs_kmem := k\<rparr>) p = (without st p)\<lparr>fs_kmem := k\<rparr>"
  by (simp_all add: without_def)

lemma fs_free_without:
  assumes "fs_ok st" "p \<in> fs_used st"
  obtains k where "fs_free st p = Some ((without st p)\<lparr>fs_kmem := k\<rparr>)"
    "kheap_ok k" "kheap_used k = fs_used st - {p}" "kheap_avail k = Suc (fs_avail st)"
proof (rule fs_free_page [OF assms], goal_cases)
  case (1 k)
  then have "fs_free st p = Some ((without st p)\<lparr>fs_kmem := k\<rparr>)" by (simp add: without_def)
  from that [OF this 1(3-5)] show ?case .
qed

lemma fat16_close_ok:
  assumes "fs_ok st" "open_file st d f p entry ofs"
  shows "\<exists>k. fat16_close st d = Some (0, (without (without (without st p) f) d)\<lparr>fs_kmem := k\<rparr>) \<and> kheap_ok k
    \<and> kheap_used k = fs_used st - {d, f, p} \<and> kheap_avail k = fs_avail st + 3"
proof -
  have o: "p \<in> fs_used st" "f \<in> fs_used st" "d \<in> fs_used st" "distinct [d, f, p]" "f \<noteq> 0"
    using assms(2) unfolding open_file_def by simp_all
  from fs_free_without [OF assms(1) o(1)] obtain k1 where 1: "fs_free st p = Some ((without st p)\<lparr>fs_kmem := k1\<rparr>)"
    "kheap_ok k1" "kheap_used k1 = fs_used st - {p}" "kheap_avail k1 = Suc (fs_avail st)" by blast
  have "fs_ok ((without st p)\<lparr>fs_kmem := k1\<rparr>)" "f \<in> fs_used ((without st p)\<lparr>fs_kmem := k1\<rparr>)" using 1 o by auto
  from fs_free_without [OF this] 1 obtain k2 where
    2: "fs_free ((without st p)\<lparr>fs_kmem := k1\<rparr>) f = Some ((without (without st p) f)\<lparr>fs_kmem := k2\<rparr>)"
    "kheap_ok k2" "kheap_used k2 = fs_used st - {p} - {f}" "kheap_avail k2 = Suc (Suc (fs_avail st))" by auto
  have "fs_ok ((without (without st p) f)\<lparr>fs_kmem := k2\<rparr>)" "d \<in> fs_used ((without (without st p) f)\<lparr>fs_kmem := k2\<rparr>)"
    using 2 o by auto
  from fs_free_without [OF this] 2 obtain k3 where
    3: "fs_free ((without (without st p) f)\<lparr>fs_kmem := k2\<rparr>) d = Some ((without (without (without st p) f) d)\<lparr>fs_kmem := k3\<rparr>)"
    "kheap_ok k3" "kheap_used k3 = fs_used st - {p} - {f} - {d}" "kheap_avail k3 = Suc (Suc (Suc (fs_avail st)))" by auto
  have "fat16_close st d = Some (0, (without (without (without st p) f) d)\<lparr>fs_kmem := k3\<rparr>)"
    using assms(2) 1(1) 2(1) 3(1)
    by (simp add: fat16_close_def fat16_free_file_descriptor_def fat16_fat_item_free_def open_file_def)
  moreover have "kheap_used k3 = fs_used st - {d, f, p}" using 3(3) by auto
  ultimately show ?thesis using 3 by auto
qed

text \<open>Nothing is stored at an address the heap has not handed out.\<close>

definition stores_in_use :: "'d fs_state \<Rightarrow> bool" where
  "stores_in_use st \<longleftrightarrow> (\<forall>p. p \<notin> fs_used st \<longrightarrow> streams st p = None \<and> item_arrays st p = None
     \<and> directories st p = None \<and> fat_items st p = None \<and> descriptors st p = None \<and> privates st p = None)"

text \<open>The root directory is loaded, and exactly item \<open>i\<close> of it is a file named \<open>s\<close>.\<close>

definition root_file :: "'d fs_state \<Rightarrow> cbuf \<Rightarrow> nat \<Rightarrow> cbuf \<Rightarrow> bool" where
  "root_file st s i entry \<longleftrightarrow> (\<exists>priv arr. private_of st = Some priv
     \<and> dir_item (root_directory priv) \<in> fs_used st
     \<and> item_arrays st (dir_item (root_directory priv)) = Some arr
     \<and> items_ok arr (nat (dir_total (root_directory priv))) \<and> i < nat (dir_total (root_directory priv))
     \<and> named_item arr s i \<and> (\<forall>j<nat (dir_total (root_directory priv)). named_item arr s j \<longrightarrow> j = i)
     \<and> entry = take 32 (drop (32 * i) arr))"

lemma item_of_bytes_take: "item_of_bytes (take 32 bs) = item_of_bytes bs"
  by (simp add: item_of_bytes_def le16_def le32_def drop_take min_absorb1)

lemma fat16_open_file:
  assumes st: "fs_ok st" "2 < fs_avail st" and root: "root_file st s i entry"
    and s: "0 \<notin> set s" "length s < 128" "part pp = name_buffer s"
    and reg: "attribute (item_of_bytes entry) AND FAT_FILE_SUBDIRECTORY = 0"
  obtains d f p k where "fat16_open io st [pp] FILE_MODE_READ =
      Some (d, (file_item_state st k f p entry)\<lparr>descriptors := (descriptors st)(d \<mapsto> \<lparr>desc_item = f, desc_pos = 0\<rparr>)\<rparr>)"
    "distinct [d, f, p]" "{d, f, p} \<inter> fs_used st = {}" "d \<noteq> 0" "f \<noteq> 0" "p \<noteq> 0" "kheap_ok k"
    "kheap_used k = {d, f, p} \<union> fs_used st" "kheap_avail k + 3 = fs_avail st" "32 \<le> length entry"
proof -
  from root obtain priv arr where r: "private_of st = Some priv"
    "dir_item (root_directory priv) \<in> fs_used st"
    "item_arrays st (dir_item (root_directory priv)) = Some arr"
    "items_ok arr (nat (dir_total (root_directory priv)))" "i < nat (dir_total (root_directory priv))"
    "named_item arr s i" "\<forall>j<nat (dir_total (root_directory priv)). named_item arr s j \<longrightarrow> j = i"
    "entry = take 32 (drop (32 * i) arr)" unfolding root_file_def by blast
  have len: "32 \<le> length entry" using r(4,5,8) by (auto simp: items_ok_def)
  have reg': "attribute (item_of_bytes (drop (32 * i) arr)) AND FAT_FILE_SUBDIRECTORY = 0"
    using reg r(8) by (simp add: item_of_bytes_take)
  have "0 < fs_avail st" using st(2) by simp
  from fs_zalloc_page [OF st(1) page_request_8 this] obtain d k1 where
    d: "fs_zalloc st 8 = Some (d, st\<lparr>fs_kmem := k1\<rparr>)" "kheap_ok k1" "d \<noteq> 0" "d \<notin> fs_used st"
    "kheap_used k1 = insert d (fs_used st)" "Suc (kheap_avail k1) = fs_avail st" by blast
  let ?st1 = "st\<lparr>fs_kmem := k1\<rparr>"
  have h: "fs_ok ?st1" "1 < fs_avail ?st1" "dir_item (root_directory priv) \<in> fs_used ?st1"
    "item_arrays ?st1 (dir_item (root_directory priv)) = Some arr" using d st(2) r(2,3) by auto
  obtain f p k where f: "fat16_find_item_in_directory io ?st1 (root_directory priv) (name_buffer s) =
      Some (f, file_item_state ?st1 k f p (take 32 (drop (32 * i) arr)))"
    "f \<noteq> 0" "p \<noteq> 0" "f \<noteq> p" "f \<notin> fs_used ?st1" "p \<notin> fs_used ?st1" "kheap_ok k"
    "kheap_used k = {f, p} \<union> fs_used ?st1" "kheap_avail k + 2 = fs_avail ?st1"
    by (rule fat16_find_file [OF h r(4) s(1,2) r(5-7) reg'])
  have "private_of ?st1 = Some priv" using r(1) by (simp add: private_of_def)
  then have g: "fat16_get_directory_entry io ?st1 [pp] = Some (f, file_item_state ?st1 k f p entry)"
    using f(1,2) s(3) r(8) by (simp add: fat16_get_directory_entry_def)
  have "file_item_state ?st1 k f p entry = file_item_state st k f p entry" by (simp add: file_item_state_def)
  with g have o: "fat16_open io st [pp] FILE_MODE_READ =
      Some (d, (file_item_state st k f p entry)\<lparr>descriptors := (descriptors st)(d \<mapsto> \<lparr>desc_item = f, desc_pos = 0\<rparr>)\<rparr>)"
    using d(1,3) f(2) by (simp add: fat16_open_def file_item_state_def)
  have "distinct [d, f, p]" "{d, f, p} \<inter> fs_used st = {}" "kheap_used k = {d, f, p} \<union> fs_used st"
    "kheap_avail k + 3 = fs_avail st" using d(4-6) f(4-6,8,9) by auto
  with o d(3) f(2,3,7) len show thesis by (intro that) auto
qed

text \<open>An opened file is an open file at position 0, and closing it gives the blocks back.\<close>

text \<open>The volume is mounted as before: its streams, its private data and the disk are the same.\<close>

definition same_volume :: "'d fs_state \<Rightarrow> 'd fs_state \<Rightarrow> bool" where
  "same_volume st st' \<longleftrightarrow> streams st' = streams st \<and> privates st' = privates st \<and> the_disk st' = the_disk st"

lemma same_volume_mounted: "same_volume st st' \<Longrightarrow> mounted io img pend priv st \<Longrightarrow> mounted io img pend priv st'"
  by (simp add: same_volume_def mounted_def private_of_def open_stream_def)

lemma fat16_open_ok:
  assumes "fs_ok st" "2 < fs_avail st" "root_file st s i entry" "0 \<notin> set s" "length s < 128"
    "part pp = name_buffer s" "attribute (item_of_bytes entry) AND FAT_FILE_SUBDIRECTORY = 0"
  obtains d f p st' where "fat16_open io st [pp] FILE_MODE_READ = Some (d, st')" "d \<noteq> 0"
    "open_file st' d f p entry 0" "fs_ok st'" "fs_used st' = {d, f, p} \<union> fs_used st"
    "fs_avail st' + 3 = fs_avail st" "{d, f, p} \<inter> fs_used st = {}" "same_volume st st'"
proof (rule fat16_open_file [OF assms, where io = io], goal_cases)
  case (1 d f p k)
  let ?st = "(file_item_state st k f p entry)\<lparr>descriptors := (descriptors st)(d \<mapsto> \<lparr>desc_item = f, desc_pos = 0\<rparr>)\<rparr>"
  have h: "fs_ok ?st" "fs_used ?st = {d, f, p} \<union> fs_used st" "fs_avail ?st + 3 = fs_avail st"
    using 1(8-10) by (simp_all add: file_item_state_def fs_ok_def fs_used_def fs_avail_def)
  have "open_file ?st d f p entry 0"
    unfolding open_file_def h(2) using 1(3-7,11) by (simp add: file_item_state_def)
  moreover have "same_volume st ?st" by (simp add: same_volume_def file_item_state_def)
  ultimately show ?case using that [OF 1(2) 1(5) _ h 1(4)] by simp
qed

lemma fat16_open_close:
  assumes "fs_ok st" "2 < fs_avail st" "root_file st s i entry" "0 \<notin> set s" "length s < 128"
    "part pp = name_buffer s" "attribute (item_of_bytes entry) AND FAT_FILE_SUBDIRECTORY = 0"
    "stores_in_use st"
  shows "\<exists>d st1 k. fat16_open io st [pp] FILE_MODE_READ = Some (d, st1) \<and> d \<noteq> 0
     \<and> fat16_close st1 d = Some (0, st\<lparr>fs_kmem := k\<rparr>) \<and> kheap_ok k \<and> kheap_used k = fs_used st
     \<and> kheap_avail k = fs_avail st"
proof (rule fat16_open_file [OF assms(1-7), where io = io], goal_cases)
  case (1 d f p k)
  let ?st = "(file_item_state st k f p entry)\<lparr>descriptors := (descriptors st)(d \<mapsto> \<lparr>desc_item = f, desc_pos = 0\<rparr>)\<rparr>"
  have h: "fs_ok ?st" "fs_used ?st = {d, f, p} \<union> fs_used st" "fs_avail ?st + 3 = fs_avail st"
    using 1(7-9) by (simp_all add: file_item_state_def fs_ok_def fs_used_def fs_avail_def)
  have "open_file ?st d f p entry 0"
    unfolding open_file_def h(2) using 1(2-6,10) by (simp add: file_item_state_def)
  from fat16_close_ok [OF h(1) this] obtain k' where
    c: "fat16_close ?st d = Some (0, (without (without (without ?st p) f) d)\<lparr>fs_kmem := k'\<rparr>)" "kheap_ok k'"
    "kheap_used k' = fs_used ?st - {d, f, p}" "kheap_avail k' = fs_avail ?st + 3" by blast
  have u: "x \<notin> fs_used st" if "x \<in> {d, f, p}" for x using 1(3) that by auto
  have n: "streams st x = None" "item_arrays st x = None" "directories st x = None" "fat_items st x = None"
    "descriptors st x = None" "privates st x = None" if "x \<in> {d, f, p}" for x
    using assms(8) u [OF that] by (simp_all add: stores_in_use_def)
  have "(without (without (without ?st p) f) d)\<lparr>fs_kmem := k'\<rparr> = st\<lparr>fs_kmem := k'\<rparr>"
    using n by (simp add: without_def file_item_state_def fun_upd_idem fun_upd_twist)
  moreover have "kheap_used k' = fs_used st" unfolding c(3) h(2) using 1(3) by blast
  moreover have "kheap_avail k' = fs_avail st" using c(4) h(3) by simp
  ultimately show ?case using 1(1,4) c(1,2) by auto
qed

section \<open>Reading an open file\<close>

definition first_cluster :: "cbuf \<Rightarrow> nat" where
  "first_cluster entry = unat (fat16_get_first_cluster (item_of_bytes entry))"

lemma sint_small:
  assumes "unat (w :: u32) < 2 ^ 31"
  shows "sint w = int (unat w)"
proof -
  have "int (unat w) < 2 ^ 31" using assms by (metis of_nat_less_iff of_nat_numeral of_nat_power)
  then have "c_int (int (unat w)) = int (unat w)" by (intro c_int_id) (linarith, assumption)
  then show ?thesis by (simp add: c_int_def)
qed

lemma unat_add_small: "unat (a :: u32) + unat b < 2 ^ 32 \<Longrightarrow> unat (a + b) = unat a + unat b"
  by (simp add: unat_word_ariths(1))

text \<open>Each of the \<open>n\<close> pieces of \<open>sz\<close> bytes starts a cluster or stays within one.\<close>

definition pieces_aligned :: "nat \<Rightarrow> nat \<Rightarrow> nat \<Rightarrow> nat \<Rightarrow> bool" where
  "pieces_aligned k ofs sz n \<longleftrightarrow> (\<forall>i<n. (ofs + i * sz) mod k = 0 \<or> (ofs + i * sz) mod k + sz \<le> k)"

lemma file_extent_mono: "file_extent img priv c m \<Longrightarrow> n \<le> m \<Longrightarrow> file_extent img priv c n"
  by (auto simp: file_extent_def)

lemma read_loop_ok:
  assumes "mounted io img pend priv st" "item_arrays st p = Some entry" "32 \<le> length entry"
    "first_cluster entry < 65536" "0 < cluster_size priv" "0 < unat sz"
    "unat ofs + n * unat sz < 2 ^ 31" "file_extent img priv (first_cluster entry) (unat ofs + n * unat sz)"
    "pieces_aligned (cluster_size priv) (unat ofs) (unat sz) n"
  shows "\<exists>st'. read_loop io p sz n ofs st =
    Some (0, file_bytes img priv (first_cluster entry) (unat ofs) (n * unat sz), st') \<and> moved st st'"
  using assms(1,2,7-9)
proof (induction n arbitrary: ofs st)
  case 0
  then show ?case by (auto simp: file_bytes_def)
next
  case (Suc n)
  let ?c = "first_cluster entry"
  have sz: "unat ofs + unat sz + n * unat sz < 2 ^ 31" using Suc.prems(3) by simp
  have sc: "sint (fat16_get_first_cluster (item_of_bytes entry)) = int ?c" "sint ofs = int (unat ofs)" "sint sz = int (unat sz)"
    unfolding first_cluster_def by (rule sint_small, use assms(4) sz in \<open>simp add: first_cluster_def\<close>)+
  have ext: "file_extent img priv ?c (unat ofs + unat sz)"
    by (rule file_extent_mono [OF Suc.prems(4)]) simp
  have al: "unat ofs mod cluster_size priv = 0 \<or> unat ofs mod cluster_size priv + unat sz \<le> cluster_size priv"
    using Suc.prems(5) by (auto simp: pieces_aligned_def dest: spec [of _ 0])
  obtain st1 where 1: "fat16_read_internal io st (int ?c) (int (unat ofs)) (int (unat sz)) =
      Some (0, file_bytes img priv ?c (unat ofs) (unat sz), st1)" "moved st st1"
    using fat16_read_internal_ok [OF Suc.prems(1) assms(4,5,6) ext al] by blast
  have u: "unat (ofs + sz) = unat ofs + unat sz" using sz by (intro unat_add_small) simp
  have m1: "mounted io img pend priv st1" "item_arrays st1 p = Some entry"
    using Suc.prems(1,2) moved_mounted [OF 1(2)] moved_same(3) [OF 1(2)] by simp_all
  have "pieces_aligned (cluster_size priv) (unat (ofs + sz)) (unat sz) n"
    using Suc.prems(5) unfolding pieces_aligned_def u by (auto dest: spec [of _ "Suc _"] simp: algebra_simps)
  then obtain st2 where 2: "read_loop io p sz n (ofs + sz) st1 =
      Some (0, file_bytes img priv ?c (unat ofs + unat sz) (n * unat sz), st2)" "moved st1 st2"
    using Suc.IH [OF m1, of "ofs + sz"] Suc.prems(4) sz u by (auto simp: algebra_simps)
  have "item_at entry 0 = Some entry" using assms(3) by (simp add: item_at_def)
  then show ?case
    using 1 2 sc Suc.prems(2) moved_trans [OF 1(2) 2(2)]
    by (simp add: file_bytes_append)
qed

lemma fat16_read_ok:
  assumes "mounted io img pend priv st" "open_file st d f p entry ofs"
    "first_cluster entry < 65536" "0 < cluster_size priv" "0 < unat sz"
    "unat ofs + unat nmemb * unat sz < 2 ^ 31"
    "file_extent img priv (first_cluster entry) (unat ofs + unat nmemb * unat sz)"
    "pieces_aligned (cluster_size priv) (unat ofs) (unat sz) (unat nmemb)"
  shows "\<exists>st'. fat16_read io st d sz nmemb =
    Some (int (unat nmemb), file_bytes img priv (first_cluster entry) (unat ofs) (unat nmemb * unat sz), st')
    \<and> moved st st'"
proof -
  have o: "descriptors st d = Some \<lparr>desc_item = f, desc_pos = ofs\<rparr>"
    "fat_items st f = Some \<lparr>item_ptr = p, item_type = FAT_ITEM_TYPE_FILE\<rparr>"
    "item_arrays st p = Some entry" "32 \<le> length entry"
    using assms(2) unfolding open_file_def by simp_all
  have "unat nmemb \<le> unat nmemb * unat sz" using assms(5) by simp
  then have "sint nmemb = int (unat nmemb)" using assms(6) by (intro sint_small) linarith
  then show ?thesis
    using read_loop_ok [OF assms(1) o(3,4) assms(3-8)] o by (auto simp: fat16_read_def)
qed

end
