(* ===== verification/Fat16Mount.thy ===== *)
theory Fat16Mount
  imports Fat16Proofs
begin

text \<open>
  Mounting a FAT16 volume: counting the items of a directory, loading the root directory, and
  \<^verbatim>\<open>fat16_resolve\<close>.
\<close>

section \<open>Counting directory items\<close>

text \<open>The items in use among the first \<open>k\<close> items at byte \<open>a\<close> of the image.\<close>

definition used_items :: "(nat \<Rightarrow> u16 list) \<Rightarrow> nat \<Rightarrow> nat \<Rightarrow> nat" where
  "used_items img a k = length (filter (\<lambda>j. img_byte img (a + 32 * j) \<noteq> 0xE5) [0..<k])"

text \<open>Item \<open>k\<close> is the first one with a zero first byte.\<close>

definition dir_end :: "(nat \<Rightarrow> u16 list) \<Rightarrow> nat \<Rightarrow> nat \<Rightarrow> bool" where
  "dir_end img a k \<longleftrightarrow> (\<forall>j<k. img_byte img (a + 32 * j) \<noteq> 0) \<and> img_byte img (a + 32 * k) = 0"

lemma used_items_Suc:
  "used_items img a (Suc k) = (if img_byte img a \<noteq> 0xE5 then 1 else 0) + used_items img (a + 32) k"
proof -
  have "[0..<Suc k] = 0 # map Suc [0..<k]" by (simp only: upt_conv_Cons map_Suc_upt zero_less_Suc)
  then show ?thesis by (simp add: used_items_def filter_map comp_def algebra_simps del: upt_Suc)
qed

lemma dir_end_Suc: "dir_end img a (Suc k) \<longleftrightarrow> img_byte img a \<noteq> 0 \<and> dir_end img (a + 32) k"
  by (auto simp: dir_end_def less_Suc_eq_0_disj algebra_simps)

lemma img_bytes_nth: "i < n \<Longrightarrow> img_bytes img a n ! i = img_byte img (a + i)"
  by (simp add: img_bytes_def)

lemma total_items_loop_ok:
  assumes "drive_serves io img pend" "streams st p = Some s" "sdisk s = TheDisk" "pos s = int a"
    "dir_end img a k" "a + 32 * (k + 1) < 2 ^ 31"
  shows "\<exists>st'. total_items_loop io p i st = Some (i + int (used_items img a k), st') \<and> moved st st'"
  using assms(2-6)
proof (induction k arbitrary: a i s st)
  case 0
  obtain st1 where 1: "stream_read io st p (int 32) = Some (0, img_bytes img a 32, st1)" "moved st st1"
    using stream_read_ok [OF assms(1) 0(1-3), of 32] 0(5) by auto
  have "img_bytes img a 32 ! 0 = 0" using 0(4) by (simp add: img_bytes_nth dir_end_def)
  then show ?case using 1 by (subst total_items_loop.simps) (auto simp: used_items_def)
next
  case (Suc k)
  obtain st1 s1 where 1: "stream_read io st p (int 32) = Some (0, img_bytes img a 32, st1)" "moved st st1"
    "streams st1 p = Some s1" "pos s1 = int (a + 32)" "sdisk s1 = TheDisk"
    using stream_read_ok [OF assms(1) Suc.prems(1-3), of 32] Suc.prems(5) by auto
  have b: "img_bytes img a 32 ! 0 = img_byte img a" "img_byte img a \<noteq> 0" "dir_end img (a + 32) k"
    using Suc.prems(4) by (simp_all add: img_bytes_nth dir_end_Suc)
  have lt: "a + 32 + 32 * (k + 1) < 2 ^ 31" using Suc.prems(5) by simp
  show ?case
  proof (cases "img_byte img a = 0xE5")
    case True
    obtain st2 where "total_items_loop io p i st1 = Some (i + int (used_items img (a + 32) k), st2)" "moved st1 st2"
      using Suc.IH [OF 1(3,5,4) b(3) lt] by blast
    then show ?thesis using 1 b True moved_trans [OF 1(2)]
      by (subst total_items_loop.simps) (auto simp: used_items_Suc)
  next
    case False
    obtain st2 where "total_items_loop io p (i + 1) st1 = Some (i + 1 + int (used_items img (a + 32) k), st2)" "moved st1 st2"
      using Suc.IH [OF 1(3,5,4) b(3) lt] by blast
    then show ?thesis using 1 b False moved_trans [OF 1(2)]
      by (subst total_items_loop.simps) (auto simp: used_items_Suc)
  qed
qed

lemma fat16_get_total_items_ok:
  assumes "drive_serves io img pend" "private_of st = Some priv" "sector_size (the_disk st) = 512"
    "open_stream st (directory_stream priv)" "dir_end img (512 * sector) k" "512 * sector + 32 * (k + 1) < 2 ^ 31"
  shows "\<exists>st'. fat16_get_total_items_for_directory io st (word_of_nat sector)
    = Some (int (used_items img (512 * sector) k), st') \<and> moved st st'"
proof -
  have "c_int (int (512 * sector)) = int (512 * sector)" using assms(6) by (intro c_int_id) simp_all
  then have sp: "sint (word_of_nat sector * (512 :: u32)) = int (512 * sector)"
    by (simp add: c_int_def mult.commute)
  obtain st1 s where 1: "stream_seek st (directory_stream priv) (int (512 * sector)) = Some (0, st1)" "moved st st1"
    "streams st1 (directory_stream priv) = Some s" "pos s = int (512 * sector)" "sdisk s = TheDisk"
    using stream_seek_ok [OF assms(4)] by blast
  obtain st2 where 2: "total_items_loop io (directory_stream priv) 0 st1 = Some (0 + int (used_items img (512 * sector) k), st2)"
    "moved st1 st2"
    using total_items_loop_ok [OF assms(1) 1(3,5,4) assms(5,6)] by blast
  show ?thesis
    using 1 2 sp assms(2,3) moved_trans [OF 1(2) 2(2)] by (simp add: fat16_get_total_items_for_directory_def)
qed

section \<open>The root directory\<close>

definition root_sector :: "fat_header \<Rightarrow> nat" where
  "root_sector ph = unat (fat_copies ph) * unat (sectors_per_fat ph) + unat (reserved_sectors ph)"
definition root_size :: "fat_header \<Rightarrow> nat" where
  "root_size ph = 32 * unat (root_dir_entries ph)"

text \<open>The directory the driver should load for the header \<open>ph\<close> into the array at \<open>p\<close>.\<close>

definition root_of :: "(nat \<Rightarrow> u16 list) \<Rightarrow> fat_header \<Rightarrow> nat \<Rightarrow> addr \<Rightarrow> fat_directory" where
  "root_of img ph k p = \<lparr>dir_item = p, dir_total = int (used_items img (512 * root_sector ph) k),
     sector_pos = int (root_sector ph), ending_sector_pos = int (root_sector ph + root_size ph div 512)\<rparr>"

lemma root_sector_less: "root_sector ph < 2 ^ 25"
proof -
  have "unat (fat_copies ph) \<le> 255" "unat (sectors_per_fat ph) \<le> 65535" "unat (reserved_sectors ph) \<le> 65535"
    using unsigned_less [of "fat_copies ph", where ?'a = nat] unsigned_less [of "sectors_per_fat ph", where ?'a = nat]
      unsigned_less [of "reserved_sectors ph", where ?'a = nat] by simp_all
  then have "unat (fat_copies ph) * unat (sectors_per_fat ph) \<le> 255 * 65535" by (intro mult_mono) simp_all
  then show ?thesis using \<open>unat (reserved_sectors ph) \<le> 65535\<close> by (simp add: root_sector_def)
qed

lemma word_of_nat_unat: "word_of_nat (unat x) = ucast x"
  by (simp only: ucast_eq uint_nat of_int_of_nat_eq)

lemma root_words:
  "ucast (fat_copies ph) * ucast (sectors_per_fat ph) + ucast (reserved_sectors ph) = (word_of_nat (root_sector ph) :: u32)"
  "ucast (root_dir_entries ph) * 32 = (word_of_nat (root_size ph) :: u32)"
  by (simp_all add: root_sector_def root_size_def word_of_nat_unat mult.commute)

lemma fat16_get_root_directory_ok:
  assumes ds: "drive_serves io img pend" and st: "private_of st = Some priv" "sector_size (the_disk st) = 512"
    "open_stream st (directory_stream priv)" "fs_ok st" "0 < fs_avail st"
    and ph: "ph = primary_header (header priv)" "0 < unat (root_dir_entries ph)" "unat (root_dir_entries ph) \<le> 128"
    and e: "dir_end img (512 * root_sector ph) k" "512 * root_sector ph + 32 * (k + 1) < 2 ^ 31"
      "512 * root_sector ph + 4096 < 2 ^ 31"
  obtains p h st1 where "fat16_get_root_directory io st (fs_private (the_disk st)) = Some (0,
      st1\<lparr>fs_kmem := h, item_arrays := (item_arrays st)(p \<mapsto> img_bytes img (512 * root_sector ph) (root_size ph)),
         privates := (privates st)(fs_private (the_disk st) \<mapsto> priv\<lparr>root_directory := root_of img ph k p\<rparr>)\<rparr>)"
    "moved st st1" "p \<noteq> 0" "p \<notin> fs_used st" "kheap_ok h" "kheap_used h = insert p (fs_used st)"
    "Suc (kheap_avail h) = fs_avail st"
proof -
  let ?r = "root_sector ph" and ?n = "root_size ph"
  let ?a = "512 * ?r"
  have hi: "uint (fat_copies ph) * uint (sectors_per_fat ph) + uint (reserved_sectors ph) = int ?r"
    "uint (root_dir_entries ph) * 32 = int ?n"
    by (simp_all add: root_sector_def root_size_def)
  have n: "?n \<le> 4096" "0 < ?n" using ph by (simp_all add: root_size_def)
  obtain st1 where 1: "fat16_get_total_items_for_directory io st (word_of_nat ?r) = Some (int (used_items img ?a k), st1)"
    "moved st st1"
    using fat16_get_total_items_ok [OF ds st(1-3) e(1,2)] by blast
  have "unat (word_of_nat ?n :: u32) = ?n" using n(1) by (simp add: unat_of_nat)
  then have "page_request (word_of_nat ?n)" using n by (simp add: page_request_def)
  moreover have "fs_ok st1" "0 < fs_avail st1" "fs_used st1 = fs_used st" "fs_avail st1 = fs_avail st"
    using st(4,5) moved_same(1) [OF 1(2)] by (simp_all add: fs_ok_def fs_avail_def fs_used_def)
  ultimately obtain p h where p: "fs_zalloc st1 (word_of_nat ?n) = Some (p, st1\<lparr>fs_kmem := h\<rparr>)" "kheap_ok h" "p \<noteq> 0"
    "p \<notin> fs_used st" "kheap_used h = insert p (fs_used st)" "Suc (kheap_avail h) = fs_avail st"
    using fs_zalloc_page [of st1 "word_of_nat ?n"] by metis
  let ?st1 = "st1\<lparr>fs_kmem := h\<rparr>"
  have "open_stream ?st1 (directory_stream priv)"
    using st(3) moved_open_stream [OF 1(2), of "directory_stream priv"] by (simp add: open_stream_def)
  moreover have "int ?a + int ?n < 2 ^ 31" using e(3) n(1) by simp
  ultimately obtain st2 st3 where 2: "stream_seek ?st1 (directory_stream priv) (int ?a) = Some (0, st2)"
    "stream_read io st2 (directory_stream priv) (int ?n) = Some (0, img_bytes img ?a ?n, st3)" "moved ?st1 st3"
    using seek_read_ok [OF ds] by blast
  have ab: "fat16_sector_to_absolute (the_disk st1) (int ?r) = int ?a"
    using moved_same(2) [OF 1(2)] st(2) e(2) c_int_id [of "int ?a"] by (simp add: fat16_sector_to_absolute_def mult.commute)
  have "filled (int ?n) (img_bytes img ?a ?n) = img_bytes img ?a ?n" by (simp add: filled_def)
  moreover have "int ?n sdiv 512 = int (?n div 512)" by (simp add: sdivmod_512)
  moreover obtain d sm where m3: "st3 = ?st1\<lparr>fs_dev := d, streams := sm\<rparr>"
    "\<forall>q. map_option sdisk (sm q) = map_option sdisk (streams st1 q)" using 2(3) by (auto simp: moved_def)
  ultimately have "fat16_get_root_directory io st (fs_private (the_disk st)) = Some (0,
      (st1\<lparr>fs_dev := d, streams := sm\<rparr>)\<lparr>fs_kmem := h, item_arrays := (item_arrays st)(p \<mapsto> img_bytes img ?a ?n),
         privates := (privates st)(fs_private (the_disk st) \<mapsto> priv\<lparr>root_directory := root_of img ph k p\<rparr>)\<rparr>)"
    using 1 2(1,2) p(1,3) st(1,2) hi ab moved_same [OF 1(2)]
    by (simp add: fat16_get_root_directory_def private_of_def c_div_def root_of_def Let_def root_words flip: ph(1))
  moreover have "moved st (st1\<lparr>fs_dev := d, streams := sm\<rparr>)"
    using 1(2) m3(2) by (fastforce simp: moved_def)
  ultimately show thesis using that p(2-6) by blast
qed

section \<open>fat16_resolve\<close>

abbreviation new_stream :: disk_stream where
  "new_stream \<equiv> \<lparr>pos = 0, sdisk = TheDisk\<rparr>"

lemma stream_new_ok:
  assumes "fs_ok st" "0 < fs_avail st"
  obtains p k where "stream_new st 0 = Some (p, st\<lparr>fs_kmem := k, streams := (streams st)(p \<mapsto> new_stream)\<rparr>)"
    "kheap_ok k" "p \<noteq> 0" "p \<notin> fs_used st" "kheap_used k = insert p (fs_used st)" "Suc (kheap_avail k) = fs_avail st"
proof -
  from kpage.alloc_page [of "fs_kmem st" 8] assms obtain p k where
    p: "kzalloc (fs_kmem st) 8 = Some (p, k)" "kheap_ok k" "p \<noteq> 0" "p \<notin> fs_used st"
    "kheap_used k = insert p (fs_used st)" "Suc (kheap_avail k) = fs_avail st"
    by (auto simp: fs_ok_def fs_used_def fs_avail_def)
  then have "stream_new st 0 = Some (p, st\<lparr>fs_kmem := k, streams := (streams st)(p \<mapsto> new_stream)\<rparr>)"
    by (simp add: stream_new_def diskstreamer_new_def disk_get_def)
  with p that show thesis by blast
qed

text \<open>The state in which the body of \<^verbatim>\<open>fat16_resolve\<close> runs.\<close>

definition resolve_state :: "'d fs_state \<Rightarrow> addr \<Rightarrow> addr list \<Rightarrow> kmem \<Rightarrow> 'd fs_state" where
  "resolve_state st private ss k = st\<lparr>fs_kmem := k,
     streams := (streams st)(ss ! 0 \<mapsto> new_stream, ss ! 1 \<mapsto> new_stream, ss ! 2 \<mapsto> new_stream, ss ! 3 \<mapsto> new_stream),
     privates := (privates st)(private \<mapsto> empty_private\<lparr>cluster_read_stream := ss ! 0,
       fat_read_stream := ss ! 1, directory_stream := ss ! 2\<rparr>),
     the_disk := (the_disk st)\<lparr>fs_private := private, disk_filesystem := Some Fat16_fs\<rparr>\<rparr>"

lemma fat16_resolve_setup:
  assumes st: "fs_ok st" "4 < fs_avail st" "disk_id (the_disk st) = 0"
  obtains q s1 s2 s3 s4 k where
    "fat16_resolve io st = do {
       (res, st) \<leftarrow> resolve_body io (resolve_state st q [s1, s2, s3, s4] k) q s4;
       st \<leftarrow> stream_close st s4;
       if res < 0 then do {
         st \<leftarrow> fs_free st q;
         Some (res, st\<lparr>the_disk := (the_disk st)\<lparr>fs_private := 0, disk_filesystem := None\<rparr>\<rparr>)
       }
       else Some (res, st) }"
    "distinct [q, s1, s2, s3, s4]" "0 \<notin> {q, s1, s2, s3, s4}" "{q, s1, s2, s3, s4} \<inter> fs_used st = {}"
    "kheap_ok k" "kheap_used k = {q, s1, s2, s3, s4} \<union> fs_used st" "kheap_avail k + 5 = fs_avail st"
proof -
  have pr: "page_request 92" by (simp add: page_request_def)
  have "0 < fs_avail st" using st(2) by simp
  from fs_zalloc_page [OF st(1) pr this] obtain q k0 where
    q: "fs_zalloc st 92 = Some (q, st\<lparr>fs_kmem := k0\<rparr>)" "kheap_ok k0" "q \<noteq> 0" "q \<notin> fs_used st"
    "kheap_used k0 = insert q (fs_used st)" "Suc (kheap_avail k0) = fs_avail st" by blast
  let ?a = "st\<lparr>fs_kmem := k0\<rparr>"
  have "fs_ok ?a" "0 < fs_avail ?a" using q st(2) by auto
  from stream_new_ok [OF this] obtain s1 k1 where 1: "stream_new ?a 0 = Some (s1, ?a\<lparr>fs_kmem := k1, streams := (streams ?a)(s1 \<mapsto> new_stream)\<rparr>)"
    "kheap_ok k1" "s1 \<noteq> 0" "s1 \<notin> fs_used ?a" "kheap_used k1 = insert s1 (fs_used ?a)" "Suc (kheap_avail k1) = fs_avail ?a" .
  let ?b = "?a\<lparr>fs_kmem := k1, streams := (streams ?a)(s1 \<mapsto> new_stream)\<rparr>"
  have b: "fs_ok ?b" "fs_used ?b = kheap_used k1" "fs_avail ?b = kheap_avail k1" using 1(2) by (simp_all add: fs_ok_def fs_used_def fs_avail_def)
  have "0 < fs_avail ?b" using b(3) 1(6) q(6) st(2) by simp
  from stream_new_ok [OF b(1) this] obtain s2 k2 where 2: "stream_new ?b 0 = Some (s2, ?b\<lparr>fs_kmem := k2, streams := (streams ?b)(s2 \<mapsto> new_stream)\<rparr>)"
    "kheap_ok k2" "s2 \<noteq> 0" "s2 \<notin> fs_used ?b" "kheap_used k2 = insert s2 (fs_used ?b)" "Suc (kheap_avail k2) = fs_avail ?b" .
  let ?c = "?b\<lparr>fs_kmem := k2, streams := (streams ?b)(s2 \<mapsto> new_stream)\<rparr>"
  have c: "fs_ok ?c" "fs_used ?c = kheap_used k2" "fs_avail ?c = kheap_avail k2" using 2(2) by (simp_all add: fs_ok_def fs_used_def fs_avail_def)
  have "0 < fs_avail ?c" using c(3) 2(6) b(3) 1(6) q(6) st(2) by simp
  from stream_new_ok [OF c(1) this] obtain s3 k3 where 3: "stream_new ?c 0 = Some (s3, ?c\<lparr>fs_kmem := k3, streams := (streams ?c)(s3 \<mapsto> new_stream)\<rparr>)"
    "kheap_ok k3" "s3 \<noteq> 0" "s3 \<notin> fs_used ?c" "kheap_used k3 = insert s3 (fs_used ?c)" "Suc (kheap_avail k3) = fs_avail ?c" .
  let ?e = "?c\<lparr>fs_kmem := k3, streams := (streams ?c)(s3 \<mapsto> new_stream),
    privates := (privates st)(q \<mapsto> empty_private\<lparr>cluster_read_stream := s1, fat_read_stream := s2, directory_stream := s3\<rparr>),
    the_disk := (the_disk st)\<lparr>fs_private := q, disk_filesystem := Some Fat16_fs\<rparr>\<rparr>"
  have e: "fs_ok ?e" "fs_used ?e = kheap_used k3" "fs_avail ?e = kheap_avail k3" using 3(2) by (simp_all add: fs_ok_def fs_used_def fs_avail_def)
  have "0 < fs_avail ?e" using e(3) 3(6) c(3) 2(6) b(3) 1(6) q(6) st(2) by simp
  from stream_new_ok [OF e(1) this] obtain s4 k4 where 4: "stream_new ?e 0 = Some (s4, ?e\<lparr>fs_kmem := k4, streams := (streams ?e)(s4 \<mapsto> new_stream)\<rparr>)"
    "kheap_ok k4" "s4 \<noteq> 0" "s4 \<notin> fs_used ?e" "kheap_used k4 = insert s4 (fs_used ?e)" "Suc (kheap_avail k4) = fs_avail ?e" .
  have init: "fat16_init_private ?a q = Some (?c\<lparr>fs_kmem := k3, streams := (streams ?c)(s3 \<mapsto> new_stream),
    privates := (privates st)(q \<mapsto> empty_private\<lparr>cluster_read_stream := s1, fat_read_stream := s2, directory_stream := s3\<rparr>)\<rparr>)"
    using 1(1) 2(1) 3(1) q(3) st(3) by (simp add: fat16_init_private_def)
  have f: "?e\<lparr>fs_kmem := k4, streams := (streams ?e)(s4 \<mapsto> new_stream)\<rparr> = resolve_state st q [s1, s2, s3, s4] k4"
    by (simp add: resolve_state_def)
  have u: "fs_used ?a = insert q (fs_used st)" using q(5) by simp
  show thesis
  proof (rule that [of q s1 s2 s3 s4 k4])
    show "fat16_resolve io st = do {
       (res, st) \<leftarrow> resolve_body io (resolve_state st q [s1, s2, s3, s4] k4) q s4;
       st \<leftarrow> stream_close st s4;
       if res < 0 then do {
         st \<leftarrow> fs_free st q;
         Some (res, st\<lparr>the_disk := (the_disk st)\<lparr>fs_private := 0, disk_filesystem := None\<rparr>\<rparr>)
       }
       else Some (res, st) }"
      unfolding fat16_resolve_def f [symmetric]
      using q(1) init 4(1,3) st(3) by (simp add: Let_def)
    show "distinct [q, s1, s2, s3, s4]" "{q, s1, s2, s3, s4} \<inter> fs_used st = {}"
      using q(4) 1(4,5) 2(4,5) 3(4,5) 4(4,5) unfolding u b(2) c(2) e(2) by auto
    show "0 \<notin> {q, s1, s2, s3, s4}" using q(3) 1(3) 2(3) 3(3) 4(3) by auto
    show "kheap_ok k4" by (rule 4(2))
    show "kheap_used k4 = {q, s1, s2, s3, s4} \<union> fs_used st"
      unfolding 4(5) e(2) 3(5) c(2) 2(5) b(2) 1(5) u by blast
    show "kheap_avail k4 + 5 = fs_avail st" using 4(6) e(3) 3(6) c(3) 2(6) b(3) 1(6) q(6) by simp
  qed
qed

text \<open>Reading the boot sector, the first step of the body.\<close>

definition boot_header :: "(nat \<Rightarrow> u16 list) \<Rightarrow> fat_h" where
  "boot_header img = fat_h_of_bytes (img_bytes img 0 62)"

definition resolve_private :: "(nat \<Rightarrow> u16 list) \<Rightarrow> addr \<Rightarrow> addr \<Rightarrow> addr \<Rightarrow> fat_private" where
  "resolve_private img s1 s2 s3 = empty_private\<lparr>cluster_read_stream := s1,
     fat_read_stream := s2, directory_stream := s3, header := boot_header img\<rparr>"

lemma resolve_body_header:
  assumes ds: "drive_serves io img pend" and "s4 \<noteq> 0"
  obtains st1 where "moved (resolve_state st q [s1, s2, s3, s4] k) st1"
    "privates st1 q = Some (empty_private\<lparr>cluster_read_stream := s1, fat_read_stream := s2, directory_stream := s3\<rparr>)"
    "resolve_body io (resolve_state st q [s1, s2, s3, s4] k) q s4 =
       (let st2 = st1\<lparr>privates := (privates st1)(q \<mapsto> resolve_private img s1 s2 s3)\<rparr>
        in if signature (extended_header (boot_header img)) \<noteq> 0x29 then Some (- EFSNOTUS, st2)
           else do { (r, st) \<leftarrow> fat16_get_root_directory io st2 q;
                     if r \<noteq> OK then Some (- EIO, st) else Some (0, st) })"
proof -
  let ?st = "resolve_state st q [s1, s2, s3, s4] k"
  have "streams ?st s4 = Some new_stream" by (simp add: resolve_state_def)
  from stream_read_ok [OF ds this, of 0 62] obtain st1 where
    1: "stream_read io ?st s4 62 = Some (0, img_bytes img 0 62, st1)" "moved ?st st1" by auto
  have p: "privates st1 q = Some (empty_private\<lparr>cluster_read_stream := s1, fat_read_stream := s2, directory_stream := s3\<rparr>)"
    using moved_same(7) [OF 1(2)] by (simp add: resolve_state_def)
  have "resolve_body io ?st q s4 =
       (let st2 = st1\<lparr>privates := (privates st1)(q \<mapsto> resolve_private img s1 s2 s3)\<rparr>
        in if signature (extended_header (boot_header img)) \<noteq> 0x29 then Some (- EFSNOTUS, st2)
           else do { (r, st) \<leftarrow> fat16_get_root_directory io st2 q;
                     if r \<noteq> OK then Some (- EIO, st) else Some (0, st) })"
    using 1(1) p assms(2) by (simp add: resolve_body_def resolve_private_def boot_header_def Let_def)
  from that [OF 1(2) p this] show thesis .
qed

text \<open>A disk without the FAT signature: refused, the disk left unmounted, three streams leaked.\<close>

lemma fat16_resolve_not_fat16:
  assumes "drive_serves io img pend" "fs_ok st" "4 < fs_avail st" "disk_id (the_disk st) = 0"
    "signature (extended_header (boot_header img)) \<noteq> 0x29"
  shows "\<exists>st'. fat16_resolve io st = Some (- EFSNOTUS, st') \<and> fs_private (the_disk st') = 0
    \<and> disk_filesystem (the_disk st') = None \<and> fs_ok st' \<and> fs_avail st' + 3 = fs_avail st"
proof (rule fat16_resolve_setup [OF assms(2-4), where io = io], goal_cases)
  case (1 q s1 s2 s3 s4 k)
  have "s4 \<noteq> 0" using 1(3) by auto
  from resolve_body_header [OF assms(1) this, of st q s1 s2 s3 k] obtain st1 where
    b1: "moved (resolve_state st q [s1, s2, s3, s4] k) st1" and
    b2: "resolve_body io (resolve_state st q [s1, s2, s3, s4] k) q s4 =
       (let st2 = st1\<lparr>privates := (privates st1)(q \<mapsto> resolve_private img s1 s2 s3)\<rparr>
        in if signature (extended_header (boot_header img)) \<noteq> 0x29 then Some (- EFSNOTUS, st2)
           else do { (r, st) \<leftarrow> fat16_get_root_directory io st2 q;
                     if r \<noteq> OK then Some (- EIO, st) else Some (0, st) })"
    by blast
  note b = b1 b2 [unfolded Let_def if_P [OF assms(5)]]
  let ?st2 = "st1\<lparr>privates := (privates st1)(q \<mapsto> resolve_private img s1 s2 s3)\<rparr>"
  have "fs_kmem ?st2 = k" using moved_same(1) [OF b(1)] by (simp add: resolve_state_def)
  then have h: "fs_ok ?st2" "fs_used ?st2 = kheap_used k" "fs_avail ?st2 = kheap_avail k"
    using 1(5) by (simp_all add: fs_ok_def fs_used_def fs_avail_def)
  have "s4 \<in> fs_used ?st2" using h(2) 1(6) by simp
  from fs_free_without [OF h(1) this] obtain k1 where f1: "fs_free ?st2 s4 = Some ((without ?st2 s4)\<lparr>fs_kmem := k1\<rparr>)"
    "kheap_ok k1" "kheap_used k1 = kheap_used k - {s4}" "kheap_avail k1 = Suc (kheap_avail k)" using h(2,3) by auto
  let ?st3 = "(without ?st2 s4)\<lparr>fs_kmem := k1\<rparr>"
  have "fs_ok ?st3" "q \<in> fs_used ?st3" using f1(2,3) 1(2,6) by auto
  from fs_free_without [OF this] obtain k2 where f2: "fs_free ?st3 q = Some ((without ?st3 q)\<lparr>fs_kmem := k2\<rparr>)"
    "kheap_ok k2" "kheap_avail k2 = Suc (kheap_avail k1)" by auto
  show ?case
    unfolding 1(1) b(2) using f1 f2 1(7)
    by (simp add: stream_close_def fs_ok_def fs_avail_def)
qed

text \<open>A FAT16 disk whose root directory fits a heap block is mounted.\<close>

lemma fat16_resolve_ok:
  assumes ds: "drive_serves io img pend" and st: "fs_ok st" "5 < fs_avail st" "disk_id (the_disk st) = 0"
      "sector_size (the_disk st) = 512"
    and sg: "signature (extended_header (boot_header img)) = 0x29"
    and ph: "ph = primary_header (boot_header img)" "0 < unat (root_dir_entries ph)" "unat (root_dir_entries ph) \<le> 128"
    and e: "dir_end img (512 * root_sector ph) n" "512 * root_sector ph + 32 * (n + 1) < 2 ^ 31"
      "512 * root_sector ph + 4096 < 2 ^ 31"
  shows "\<exists>st' priv p. fat16_resolve io st = Some (0, st') \<and> mounted io img pend priv st'
    \<and> disk_filesystem (the_disk st') = Some Fat16_fs \<and> header priv = boot_header img
    \<and> root_directory priv = root_of img ph n p \<and> p \<in> fs_used st'
    \<and> item_arrays st' p = Some (img_bytes img (512 * root_sector ph) (root_size ph))
    \<and> fs_ok st' \<and> fs_avail st' + 5 = fs_avail st"
proof (rule fat16_resolve_setup [OF st(1) _ st(3), where io = io], goal_cases)
  case 1
  show ?case using st(2) by simp
next
  case (2 q s1 s2 s3 s4 k)
  let ?st0 = "resolve_state st q [s1, s2, s3, s4] k"
  let ?priv = "resolve_private img s1 s2 s3"
  have "s4 \<noteq> 0" using 2(3) by auto
  from resolve_body_header [OF ds this, of st q s1 s2 s3 k] obtain st1 where
    b1: "moved (resolve_state st q [s1, s2, s3, s4] k) st1" and
    b2: "resolve_body io (resolve_state st q [s1, s2, s3, s4] k) q s4 =
       (let st2 = st1\<lparr>privates := (privates st1)(q \<mapsto> resolve_private img s1 s2 s3)\<rparr>
        in if signature (extended_header (boot_header img)) \<noteq> 0x29 then Some (- EFSNOTUS, st2)
           else do { (r, st) \<leftarrow> fat16_get_root_directory io st2 q;
                     if r \<noteq> OK then Some (- EIO, st) else Some (0, st) })"
    by blast
  have nsg: "\<not> signature (extended_header (boot_header img)) \<noteq> 0x29" using sg by simp
  note b = b1 b2 [unfolded Let_def if_not_P [OF nsg]]
  let ?st2 = "st1\<lparr>privates := (privates st1)(q \<mapsto> ?priv)\<rparr>"
  have km: "fs_kmem ?st2 = k" and dk: "the_disk ?st2 = (the_disk st)\<lparr>fs_private := q, disk_filesystem := Some Fat16_fs\<rparr>"
    using moved_same(1,2) [OF b(1)] by (simp_all add: resolve_state_def)
  have h: "fs_ok ?st2" "fs_used ?st2 = kheap_used k" "fs_avail ?st2 = kheap_avail k" "0 < fs_avail ?st2"
    using 2(5,7) st(2) km by (simp_all add: fs_ok_def fs_used_def fs_avail_def)
  have os: "open_stream ?st2 s" if "s \<in> {s1, s2, s3, s4}" for s
  proof -
    have "open_stream ?st0 s" using that 2(3) by (auto simp: open_stream_def resolve_state_def)
    then show ?thesis using moved_open_stream [OF b(1), of s] by (simp add: open_stream_def)
  qed
  have pv: "private_of ?st2 = Some ?priv" "sector_size (the_disk ?st2) = 512" "fs_private (the_disk ?st2) = q"
    using dk st(4) by (simp_all add: private_of_def)
  have pr: "ph = primary_header (header ?priv)" "directory_stream ?priv = s3" "cluster_read_stream ?priv = s1"
    "fat_read_stream ?priv = s2" "header ?priv = boot_header img"
    using ph(1) by (simp_all add: resolve_private_def)
  from fat16_get_root_directory_ok [OF ds pv(1,2) _ h(1,4) pr(1) ph(2,3) e] os [of s3] pr(2)
  obtain p k1 st3 where r: "fat16_get_root_directory io ?st2 q = Some (0,
      st3\<lparr>fs_kmem := k1, item_arrays := (item_arrays ?st2)(p \<mapsto> img_bytes img (512 * root_sector ph) (root_size ph)),
         privates := (privates ?st2)(q \<mapsto> ?priv\<lparr>root_directory := root_of img ph n p\<rparr>)\<rparr>)"
    "moved ?st2 st3" "p \<noteq> 0" "p \<notin> fs_used ?st2" "kheap_ok k1" "kheap_used k1 = insert p (fs_used ?st2)"
    "Suc (kheap_avail k1) = fs_avail ?st2" unfolding pv(3) by auto
  let ?st4 = "st3\<lparr>fs_kmem := k1, item_arrays := (item_arrays ?st2)(p \<mapsto> img_bytes img (512 * root_sector ph) (root_size ph)),
         privates := (privates ?st2)(q \<mapsto> ?priv\<lparr>root_directory := root_of img ph n p\<rparr>)\<rparr>"
  have f: "fs_ok ?st4" "fs_used ?st4 = insert p (kheap_used k)" "fs_avail ?st4 = kheap_avail k1"
    using r(5,6) h(2) by (simp_all add: fs_ok_def fs_used_def fs_avail_def)
  have "s4 \<in> fs_used ?st4" using f(2) 2(6) by simp
  from fs_free_without [OF f(1) this] obtain k2 where c: "fs_free ?st4 s4 = Some ((without ?st4 s4)\<lparr>fs_kmem := k2\<rparr>)"
    "kheap_ok k2" "kheap_used k2 = insert p (kheap_used k) - {s4}" "kheap_avail k2 = Suc (kheap_avail k1)"
    unfolding f(2,3) by blast
  let ?st5 = "(without ?st4 s4)\<lparr>fs_kmem := k2\<rparr>"
  have ne: "p \<noteq> s4" using r(4) h(2) 2(6) by auto
  have dk5: "the_disk ?st5 = (the_disk st)\<lparr>fs_private := q, disk_filesystem := Some Fat16_fs\<rparr>"
    using moved_same(2) [OF r(2)] dk by simp
  have pv5: "private_of ?st5 = Some (?priv\<lparr>root_directory := root_of img ph n p\<rparr>)"
    using dk5 2(2) by (simp add: private_of_def)
  have os5: "open_stream ?st5 s" if "s \<in> {s1, s2, s3}" for s
  proof -
    have "open_stream st3 s" using os [of s] that moved_open_stream [OF r(2)] by auto
    moreover have "s \<noteq> s4" using that 2(2) by auto
    ultimately show ?thesis by (simp add: open_stream_def)
  qed
  have m: "mounted io img pend (?priv\<lparr>root_directory := root_of img ph n p\<rparr>) ?st5"
    unfolding mounted_def using ds pv5 dk5 st(4) os5 pr by simp
  have "fat16_resolve io st = Some (0, ?st5)"
    unfolding 2(1) b(2) r(1) using c(1) by (simp add: stream_close_def)
  moreover have "item_arrays ?st5 p = Some (img_bytes img (512 * root_sector ph) (root_size ph))" using ne by simp
  moreover have "fs_ok ?st5" "p \<in> fs_used ?st5" "fs_avail ?st5 + 5 = fs_avail st"
    using c(2-4) ne r(7) h(3) 2(7) by (simp_all add: fs_ok_def fs_used_def fs_avail_def)
  ultimately show ?case
    using m dk5 pr(5) by (intro exI [of _ ?st5] exI [of _ "?priv\<lparr>root_directory := root_of img ph n p\<rparr>"] exI [of _ p]) simp
qed

end
