(* ===== verification/Vfs.thy ===== *)
theory Vfs
  imports Fat16Mount
begin

text \<open>
  The file layer (\<^verbatim>\<open>src/fs/file.c\<close>) and the disk's initialisation
  (\<^verbatim>\<open>disk_search_and_init\<close> of \<^verbatim>\<open>src/disk/disk.c\<close>).  The function pointers of
  \<^verbatim>\<open>struct filesystem\<close> are a record of functions; \<open>vt\<close> gives the record a filesystem pointer
  leads to, and \<open>fat16_vtable\<close> is the one of the kernel.
\<close>

section \<open>Data (file.h)\<close>

definition RASOS_MAX_FILESYSTEMS :: nat where [simp]: "RASOS_MAX_FILESYSTEMS = 12"
definition RASOS_MAX_FILEDESCRIPTORS :: nat where [simp]: "RASOS_MAX_FILEDESCRIPTORS = 512"

record 'd filesystem_ops =
  fs_resolve_op :: "'d fs_state \<Rightarrow> (int \<times> 'd fs_state) option"
  fs_open_op :: "'d fs_state \<Rightarrow> path_part list \<Rightarrow> u32 \<Rightarrow> (addr \<times> 'd fs_state) option"
  fs_read_op :: "'d fs_state \<Rightarrow> addr \<Rightarrow> u32 \<Rightarrow> u32 \<Rightarrow> (int \<times> cbuf \<times> 'd fs_state) option"
  fs_seek_op :: "'d fs_state \<Rightarrow> addr \<Rightarrow> u32 \<Rightarrow> u32 \<Rightarrow> (int \<times> 'd fs_state) option"
  fs_stat_op :: "'d fs_state \<Rightarrow> addr \<Rightarrow> file_stat \<Rightarrow> (int \<times> file_stat) option"
  fs_close_op :: "'d fs_state \<Rightarrow> addr \<Rightarrow> (int \<times> 'd fs_state) option"

type_synonym 'd vtable = "filesystem \<Rightarrow> 'd filesystem_ops"

definition fat16_vtable :: "'d ports \<Rightarrow> 'd vtable" where
  "fat16_vtable io fs = (case fs of Fat16_fs \<Rightarrow> \<lparr>
     fs_resolve_op = fat16_resolve io, fs_open_op = fat16_open io, fs_read_op = fat16_read io,
     fs_seek_op = fat16_seek, fs_stat_op = fat16_stat, fs_close_op = fat16_close\<rparr>)"

record file_descriptor =
  fd_index :: int
  fd_filesystem :: "filesystem option"
  private_data :: addr
  fd_disk :: disk_ref

text \<open>
  The two global arrays, the file descriptors on the heap, and the state of the filesystem below.
\<close>

record 'd vfs_state =
  filesystems :: "filesystem option list"
  file_descriptors :: "addr list"
  fd_store :: "addr \<Rightarrow> file_descriptor option"
  lower :: "'d fs_state"

section \<open>Filesystems\<close>

fun free_slot :: "filesystem option list \<Rightarrow> nat \<Rightarrow> nat option" where
  "free_slot [] i = None"
| "free_slot (f # fss) i = (if f = None then Some i else free_slot fss (i + 1))"

definition fs_get_free_filesystem :: "'d vfs_state \<Rightarrow> nat option" where
  "fs_get_free_filesystem v = free_slot (filesystems v) 0"

text \<open>With a full table the kernel prints a message and loops for ever.\<close>

definition fs_insert_filesystem :: "'d vfs_state \<Rightarrow> filesystem \<Rightarrow> 'd vfs_state option" where
  "fs_insert_filesystem v fs = do {
     i \<leftarrow> fs_get_free_filesystem v;
     Some (v\<lparr>filesystems := (filesystems v)[i := Some fs]\<rparr>)
   }"

definition fs_static_load :: "'d vfs_state \<Rightarrow> 'd vfs_state option" where
  "fs_static_load v = do { (fs, name) \<leftarrow> fat16_init; fs_insert_filesystem v fs }"

definition fs_load :: "'d vfs_state \<Rightarrow> 'd vfs_state option" where
  "fs_load v = fs_static_load (v\<lparr>filesystems := replicate RASOS_MAX_FILESYSTEMS None\<rparr>)"

definition fs_init :: "'d vfs_state \<Rightarrow> 'd vfs_state option" where
  "fs_init v = fs_load (v\<lparr>file_descriptors := replicate RASOS_MAX_FILEDESCRIPTORS 0\<rparr>)"

fun resolve_loop :: "'d vtable \<Rightarrow> filesystem option list \<Rightarrow> 'd fs_state \<Rightarrow> (filesystem option \<times> 'd fs_state) option" where
  "resolve_loop vt [] st = Some (None, st)"
| "resolve_loop vt (None # fss) st = resolve_loop vt fss st"
| "resolve_loop vt (Some fs # fss) st = do {
     (res, st) \<leftarrow> fs_resolve_op (vt fs) st;
     if res = 0 then Some (Some fs, st) else resolve_loop vt fss st
   }"

definition fs_resolve :: "'d vtable \<Rightarrow> 'd vfs_state \<Rightarrow> (filesystem option \<times> 'd vfs_state) option" where
  "fs_resolve vt v = do {
     (fs, st) \<leftarrow> resolve_loop vt (filesystems v) (lower v);
     Some (fs, v\<lparr>lower := st\<rparr>)
   }"

definition disk_search_and_init :: "'d vtable \<Rightarrow> 'd vfs_state \<Rightarrow> 'd vfs_state option" where
  "disk_search_and_init vt v = do {
     let v = v\<lparr>lower := (lower v)\<lparr>the_disk := \<lparr>disk_type = RASOS_DISK_TYPE_REAL,
       sector_size = RASOS_SECTOR_SIZE, disk_id = 0, disk_filesystem = None, fs_private = 0\<rparr>\<rparr>\<rparr>;
     (fs, v) \<leftarrow> fs_resolve vt v;
     Some (v\<lparr>lower := (lower v)\<lparr>the_disk := (the_disk (lower v))\<lparr>disk_filesystem := fs\<rparr>\<rparr>\<rparr>)
   }"

section \<open>File descriptors\<close>

fun free_index :: "addr list \<Rightarrow> nat \<Rightarrow> nat option" where
  "free_index [] i = None"
| "free_index (a # as) i = (if a = 0 then Some i else free_index as (i + 1))"

text \<open>The result and, when it is 0, the new descriptor.\<close>

definition file_new_descriptor :: "'d vfs_state \<Rightarrow> (int \<times> addr \<times> 'd vfs_state) option" where
  "file_new_descriptor v =
     (case free_index (file_descriptors v) 0 of
        None \<Rightarrow> Some (- ENOMEM, 0, v)
      | Some i \<Rightarrow> do {
          (desc, st) \<leftarrow> fs_zalloc (lower v) 16;
          if desc = 0 then None
          else Some (0, desc, v\<lparr>lower := st, file_descriptors := (file_descriptors v)[i := desc],
            fd_store := (fd_store v)(desc \<mapsto> \<lparr>fd_index = int i + 1, fd_filesystem = None,
              private_data = 0, fd_disk = NullDisk\<rparr>)\<rparr>)
        })"

definition file_free_descriptor :: "'d vfs_state \<Rightarrow> addr \<Rightarrow> 'd vfs_state option" where
  "file_free_descriptor v desc = do {
     d \<leftarrow> fd_store v desc;
     let i = fd_index d - 1;
     if 0 \<le> i \<and> nat i < length (file_descriptors v) then do {
       st \<leftarrow> fs_free (lower v) desc;
       Some (v\<lparr>file_descriptors := (file_descriptors v)[nat i := 0], lower := st,
         fd_store := (fd_store v)(desc := None)\<rparr>)
     }
     else None
   }"

definition file_get_descriptor :: "'d vfs_state \<Rightarrow> int \<Rightarrow> addr" where
  "file_get_descriptor v fd =
     (if fd \<le> 0 \<or> fd \<ge> int RASOS_MAX_FILEDESCRIPTORS then 0
      else file_descriptors v ! nat (fd - 1))"

definition file_get_mode_by_string :: "cbuf \<Rightarrow> u32 option" where
  "file_get_mode_by_string str = do {
     r \<leftarrow> strncmp str [114, 0] 1;
     if r = 0 then Some FILE_MODE_READ
     else do {
       w \<leftarrow> strncmp str [119, 0] 1;
       if w = 0 then Some FILE_MODE_WRITE
       else do {
         a \<leftarrow> strncmp str [97, 0] 1;
         if a = 0 then Some FILE_MODE_APPEND else Some FILE_MODE_INVALID
       }
     }
   }"

section \<open>The file operations\<close>

text \<open>The code up to \<^verbatim>\<open>out:\<close>; the parsed path is never freed.\<close>

definition fopen_body :: "'d vtable \<Rightarrow> 'd vfs_state \<Rightarrow> cbuf \<Rightarrow> cbuf \<Rightarrow> (int \<times> 'd vfs_state) option" where
  "fopen_body vt v fname mode_str = do {
     (root_path, k) \<leftarrow> pathparser_parse (fs_kmem (lower v)) fname;
     let v = v\<lparr>lower := (lower v)\<lparr>fs_kmem := k\<rparr>\<rparr>;
     case root_path of
       None \<Rightarrow> Some (- EINVARG, v)
     | Some root \<Rightarrow>
         if first_parts root = [] then Some (- EINVARG, v)
         else if disk_get (drive_number root) = NullDisk then Some (- EIO, v)
         else (case disk_filesystem (the_disk (lower v)) of
           None \<Rightarrow> Some (- EIO, v)
         | Some fs \<Rightarrow> do {
             mode \<leftarrow> file_get_mode_by_string mode_str;
             if mode = FILE_MODE_INVALID then Some (- EINVARG, v)
             else do {
               (p, st) \<leftarrow> fs_open_op (vt fs) (lower v) (first_parts root) mode;
               let v = v\<lparr>lower := st\<rparr>;
               if ISERR p then Some (ERROR_I p, v)
               else do {
                 (res, descriptor, v) \<leftarrow> file_new_descriptor v;
                 if res < 0 then Some (res, v)
                 else do {
                   d \<leftarrow> fd_store v descriptor;
                   Some (fd_index d, v\<lparr>fd_store := (fd_store v)(descriptor \<mapsto>
                     d\<lparr>fd_filesystem := Some fs, private_data := p, fd_disk := disk_get (drive_number root)\<rparr>)\<rparr>)
                 }
               }
             }
           })
   }"

definition fopen :: "'d vtable \<Rightarrow> 'd vfs_state \<Rightarrow> cbuf \<Rightarrow> cbuf \<Rightarrow> (int \<times> 'd vfs_state) option" where
  "fopen vt v fname mode_str = do {
     (res, v) \<leftarrow> fopen_body vt v fname mode_str;
     Some (if res < 0 then 0 else res, v)
   }"

definition fread :: "'d vtable \<Rightarrow> 'd vfs_state \<Rightarrow> u32 \<Rightarrow> u32 \<Rightarrow> int \<Rightarrow> (int \<times> cbuf \<times> 'd vfs_state) option" where
  "fread vt v sz nmemb fd =
     (if sz \<le> 0 \<or> nmemb \<le> 0 \<or> fd < 1 then Some (- EINVARG, [], v)
      else (let descriptor = file_get_descriptor v fd in
        if descriptor = 0 then Some (- EINVARG, [], v)
        else do {
          d \<leftarrow> fd_store v descriptor;
          fs \<leftarrow> fd_filesystem d;
          (res, out, st) \<leftarrow> fs_read_op (vt fs) (lower v) (private_data d) sz nmemb;
          Some (res, out, v\<lparr>lower := st\<rparr>)
        }))"

text \<open>The guard tests \<^verbatim>\<open>fd\<close>, not the descriptor, and the error code is positive.\<close>

definition fseek :: "'d vtable \<Rightarrow> 'd vfs_state \<Rightarrow> int \<Rightarrow> int \<Rightarrow> u32 \<Rightarrow> (int \<times> 'd vfs_state) option" where
  "fseek vt v fd offset whence =
     (let desc = file_get_descriptor v fd in
      if fd = 0 then Some (EINVARG, v)
      else do {
        d \<leftarrow> fd_store v desc;
        fs \<leftarrow> fd_filesystem d;
        (res, st) \<leftarrow> fs_seek_op (vt fs) (lower v) (private_data d) (word_of_int offset) whence;
        Some (res, v\<lparr>lower := st\<rparr>)
      })"

definition fstat :: "'d vtable \<Rightarrow> 'd vfs_state \<Rightarrow> int \<Rightarrow> file_stat \<Rightarrow> (int \<times> file_stat) option" where
  "fstat vt v fd stat =
     (let desc = file_get_descriptor v fd in
      if desc = 0 then Some (- EINVARG, stat)
      else do {
        d \<leftarrow> fd_store v desc;
        fs \<leftarrow> fd_filesystem d;
        fs_stat_op (vt fs) (lower v) (private_data d) stat
      })"

definition fclose :: "'d vtable \<Rightarrow> 'd vfs_state \<Rightarrow> int \<Rightarrow> (int \<times> 'd vfs_state) option" where
  "fclose vt v fd =
     (let desc = file_get_descriptor v fd in
      if desc = 0 then Some (- EINVARG, v)
      else do {
        d \<leftarrow> fd_store v desc;
        fs \<leftarrow> fd_filesystem d;
        (res, st) \<leftarrow> fs_close_op (vt fs) (lower v) (private_data d);
        let v = v\<lparr>lower := st\<rparr>;
        if res = OK then do { v \<leftarrow> file_free_descriptor v desc; Some (res, v) }
        else Some (res, v)
      })"

section \<open>The interface to a filesystem driver\<close>

text \<open>
  What the file layer relies on for an open handle: \<open>view s h len ofs\<close> says that \<open>h\<close> is open in
  \<open>s\<close> on a file of \<open>len\<close> bytes at position \<open>ofs\<close>.
\<close>

locale file_driver =
  fixes seek :: "'s \<Rightarrow> addr \<Rightarrow> u32 \<Rightarrow> u32 \<Rightarrow> (int \<times> 's) option"
    and stat :: "'s \<Rightarrow> addr \<Rightarrow> file_stat \<Rightarrow> (int \<times> file_stat) option"
    and close :: "'s \<Rightarrow> addr \<Rightarrow> (int \<times> 's) option"
    and view :: "'s \<Rightarrow> addr \<Rightarrow> u32 \<Rightarrow> u32 \<Rightarrow> bool"
  assumes seek_set: "view s h len ofs \<Longrightarrow> off < len \<Longrightarrow>
      \<exists>s'. seek s h off SEEK_SET = Some (0, s') \<and> view s' h len off"
    and seek_cur: "view s h len ofs \<Longrightarrow> off < len \<Longrightarrow>
      \<exists>s'. seek s h off SEEK_CUR = Some (0, s') \<and> view s' h len (ofs + off)"
    and seek_past: "view s h len ofs \<Longrightarrow> len \<le> off \<Longrightarrow> seek s h off whence = Some (- EIO, s)"
    and stat_len: "view s h len ofs \<Longrightarrow> \<exists>fl. stat s h b = Some (0, \<lparr>stat_flags = fl, stat_filesize = len\<rparr>)"
    and close_view: "view s h len ofs \<Longrightarrow> \<exists>s'. close s h = Some (0, s') \<and> \<not> view s' h len' ofs'"
begin

text \<open>A run of absolute seeks, errors ignored.\<close>

primrec seeks :: "'s \<Rightarrow> addr \<Rightarrow> u32 list \<Rightarrow> 's option" where
  "seeks s h [] = Some s"
| "seeks s h (off # offs) = Option.bind (seek s h off SEEK_SET) (\<lambda>(r, s). seeks s h offs)"

lemma seeks_view:
  "view s h len ofs \<Longrightarrow> \<exists>s'. seeks s h offs = Some s' \<and> view s' h len (last (ofs # filter (\<lambda>off. off < len) offs))"
proof (induction offs arbitrary: s ofs)
  case (Cons off offs)
  show ?case
  proof (cases "off < len")
    case True
    from seek_set [OF Cons.prems this] obtain s1 where "seek s h off SEEK_SET = Some (0, s1)" "view s1 h len off" by blast
    with Cons.IH [of s1 off] True show ?thesis by auto
  next
    case False
    then have "seek s h off SEEK_SET = Some (- EIO, s)" using seek_past [OF Cons.prems] by simp
    with Cons.IH [OF Cons.prems] False show ?thesis by auto
  qed
qed simp

lemma seeks_stat:
  assumes "view s h len ofs"
  shows "\<exists>s' fl. seeks s h offs = Some s' \<and> stat s' h b = Some (0, \<lparr>stat_flags = fl, stat_filesize = len\<rparr>)"
  using seeks_view [OF assms, of offs] stat_len by blast

end

definition fat16_view :: "'d fs_state \<Rightarrow> addr \<Rightarrow> u32 \<Rightarrow> u32 \<Rightarrow> bool" where
  "fat16_view st h len ofs \<longleftrightarrow>
     fs_ok st \<and> (\<exists>f p e. open_file st h f p e ofs \<and> filesize (item_of_bytes e) = len)"

interpretation fat16_files: file_driver fat16_seek fat16_stat fat16_close fat16_view
proof unfold_locales
  fix st :: "'d fs_state" and h len ofs off whence b len' ofs'
  assume v: "fat16_view st h len ofs"
  then obtain f p e where o: "fs_ok st" "open_file st h f p e ofs" "filesize (item_of_bytes e) = len"
    by (auto simp: fat16_view_def)
  have keep: "fs_ok st'" if "st' = st\<lparr>descriptors := descriptors st'\<rparr>" for st'
    using o(1) that by (metis fs_heap_stores(1))
  have seek: "\<exists>st'. fat16_seek st h off mode = Some (0, st') \<and> fat16_view st' h len ofs2"
    if r: "seek_result len ofs off mode = Inr ofs2" for mode ofs2
  proof -
    from fat16_seek_ok [OF o(2), of off mode, unfolded o(3) r sum.case] obtain st' where
      "fat16_seek st h off mode = Some (0, st')" "open_file st' h f p e ofs2"
      "st' = st\<lparr>descriptors := descriptors st'\<rparr>" by blast
    then show ?thesis using keep o(3) unfolding fat16_view_def by blast
  qed
  show "\<exists>st'. fat16_seek st h off SEEK_SET = Some (0, st') \<and> fat16_view st' h len off" if "off < len"
    by (rule seek) (use that in \<open>simp add: seek_result_def\<close>)
  show "\<exists>st'. fat16_seek st h off SEEK_CUR = Some (0, st') \<and> fat16_view st' h len (ofs + off)" if "off < len"
    by (rule seek) (use that in \<open>simp add: seek_result_def\<close>)
  show "fat16_seek st h off whence = Some (- EIO, st)" if "len \<le> off"
    using fat16_seek_ok [OF o(2), of off whence] that o(3) by (simp add: seek_result_def)
  show "\<exists>fl. fat16_stat st h b = Some (0, \<lparr>stat_flags = fl, stat_filesize = len\<rparr>)"
    using fat16_stat_ok [OF o(2), of b] o(3) by auto
  from fat16_close_ok [OF o(1,2)] obtain k where
    k: "fat16_close st h = Some (0, (without (without (without st p) f) h)\<lparr>fs_kmem := k\<rparr>)" by blast
  then show "\<exists>st'. fat16_close st h = Some (0, st') \<and> \<not> fat16_view st' h len' ofs'"
    by (auto simp: fat16_view_def open_file_def)
qed

section \<open>The descriptor table\<close>

text \<open>Slot \<open>i\<close> of the table is empty or leads to a descriptor on the heap with index \<open>i + 1\<close>.\<close>

definition vfs_ok :: "'d vfs_state \<Rightarrow> bool" where
  "vfs_ok v \<longleftrightarrow> fs_ok (lower v) \<and> length (file_descriptors v) = 512
     \<and> (\<forall>i<512. file_descriptors v ! i \<noteq> 0 \<longrightarrow> file_descriptors v ! i \<in> fs_used (lower v)
          \<and> (\<exists>d. fd_store v (file_descriptors v ! i) = Some d \<and> fd_index d = int i + 1))"

lemma free_index_Some:
  "free_index as k = Some i \<longleftrightarrow> k \<le> i \<and> i < k + length as \<and> as ! (i - k) = 0 \<and> (\<forall>j<i - k. as ! j \<noteq> 0)"
proof (induction as arbitrary: k)
  case (Cons a as)
  show ?case
  proof (cases "a = 0")
    case True
    then show ?thesis by (auto simp: nth_Cons')
  next
    case False
    show ?thesis
    proof (cases "k < i")
      case True
      then obtain m where "i - k = Suc m" "i - Suc k = m" by (metis Suc_diff_Suc)
      then show ?thesis using False Cons.IH [of "Suc k"] True
        by (auto simp: less_Suc_eq_0_disj)
    next
      case False': False
      then show ?thesis using False Cons.IH [of "Suc k"] by (auto simp: nth_Cons')
    qed
  qed
qed simp

lemma free_index_None: "free_index as k = None \<longleftrightarrow> 0 \<notin> set as"
  by (induction as arbitrary: k) auto

text \<open>The lowest free slot is taken, or the table is full.\<close>

lemma file_new_descriptor_full:
  "0 \<notin> set (file_descriptors v) \<Longrightarrow> file_new_descriptor v = Some (- ENOMEM, 0, v)"
  by (simp add: file_new_descriptor_def iffD2 [OF free_index_None])

definition new_fd :: "nat \<Rightarrow> file_descriptor" where
  "new_fd i = \<lparr>fd_index = int i + 1, fd_filesystem = None, private_data = 0, fd_disk = NullDisk\<rparr>"

lemma file_new_descriptor_ok:
  assumes v: "vfs_ok v" "0 < fs_avail (lower v)" and i: "free_index (file_descriptors v) 0 = Some i"
  obtains desc k where "file_new_descriptor v = Some (0, desc, v\<lparr>lower := (lower v)\<lparr>fs_kmem := k\<rparr>,
      file_descriptors := (file_descriptors v)[i := desc], fd_store := (fd_store v)(desc \<mapsto> new_fd i)\<rparr>)"
    "desc \<noteq> 0" "desc \<notin> fs_used (lower v)" "kheap_ok k" "kheap_used k = insert desc (fs_used (lower v))"
    "Suc (kheap_avail k) = fs_avail (lower v)"
proof -
  have "fs_ok (lower v)" using v(1) by (simp add: vfs_ok_def)
  moreover have "page_request 16" by (simp add: page_request_def)
  ultimately obtain desc k where d: "fs_zalloc (lower v) 16 = Some (desc, (lower v)\<lparr>fs_kmem := k\<rparr>)" "kheap_ok k"
    "desc \<noteq> 0" "desc \<notin> fs_used (lower v)" "kheap_used k = insert desc (fs_used (lower v))"
    "Suc (kheap_avail k) = fs_avail (lower v)" by (rule fs_zalloc_page [OF _ _ v(2)])
  have "file_new_descriptor v = Some (0, desc, v\<lparr>lower := (lower v)\<lparr>fs_kmem := k\<rparr>,
      file_descriptors := (file_descriptors v)[i := desc], fd_store := (fd_store v)(desc \<mapsto> new_fd i)\<rparr>)"
    using i d(1,3) by (simp add: file_new_descriptor_def new_fd_def)
  from that [OF this d(3,4,2,5,6)] show thesis .
qed

lemma vfs_ok_new:
  assumes v: "vfs_ok v" and i: "i < 512" and d: "desc \<notin> fs_used (lower v)" "fd_index nd = int i + 1"
    and k: "kheap_ok k" "kheap_used k = insert desc (fs_used (lower v))"
  shows "vfs_ok (v\<lparr>lower := (lower v)\<lparr>fs_kmem := k\<rparr>, file_descriptors := (file_descriptors v)[i := desc],
      fd_store := (fd_store v)(desc \<mapsto> nd)\<rparr>)"
  using assms unfolding vfs_ok_def by (auto simp: nth_list_update)

lemma file_get_descriptor_new:
  assumes "length (file_descriptors v) = 512" "i < 511"
  shows "file_get_descriptor (v\<lparr>file_descriptors := (file_descriptors v)[i := desc]\<rparr>) (int i + 1) = desc"
  using assms by (simp add: file_get_descriptor_def)

text \<open>The last slot is handed out under number 512, which no operation accepts.\<close>

lemma file_get_descriptor_512: "file_get_descriptor v 512 = 0"
  by (simp add: file_get_descriptor_def)

lemma fd_512_unusable:
  "0 < sz \<Longrightarrow> 0 < nmemb \<Longrightarrow> fread vt v sz nmemb 512 = Some (- EINVARG, [], v)"
  "fstat vt v 512 stat = Some (- EINVARG, stat)" "fclose vt v 512 = Some (- EINVARG, v)"
  by (simp_all add: fread_def fstat_def fclose_def file_get_descriptor_512)

text \<open>A number that is not open: an error, except from \<^verbatim>\<open>fseek\<close>, which dereferences NULL.\<close>

lemma closed_fd:
  assumes "file_get_descriptor v fd = 0" "fd_store v 0 = None"
  shows "fstat vt v fd stat = Some (- EINVARG, stat)" "fclose vt v fd = Some (- EINVARG, v)"
    "fd \<noteq> 0 \<Longrightarrow> fseek vt v fd off whence = None" "fseek vt v 0 off whence = Some (2, v)"
  using assms by (simp_all add: fstat_def fclose_def fseek_def)

text \<open>The operations on an open number reach the driver with its handle.\<close>

definition fd_open :: "'d vfs_state \<Rightarrow> int \<Rightarrow> addr \<Rightarrow> bool" where
  "fd_open v fd h \<longleftrightarrow> (\<exists>d. file_get_descriptor v fd \<noteq> 0 \<and> fd_store v (file_get_descriptor v fd) = Some d
     \<and> fd_index d = fd \<and> fd_filesystem d = Some Fat16_fs \<and> private_data d = h)"

lemma file_get_descriptor_range: "file_get_descriptor v fd \<noteq> 0 \<Longrightarrow> 0 < fd \<and> fd < 512"
  by (auto simp: file_get_descriptor_def split: if_splits)

lemma fseek_open:
  assumes "fd_open v fd h"
  shows "fseek (fat16_vtable io) v fd off whence =
    map_option (\<lambda>(r, st). (r, v\<lparr>lower := st\<rparr>)) (fat16_seek (lower v) h (word_of_int off) whence)"
  using assms file_get_descriptor_range [of v fd]
  by (auto simp: fd_open_def fseek_def fat16_vtable_def split: bind_splits)

lemma fstat_open:
  "fd_open v fd h \<Longrightarrow> fstat (fat16_vtable io) v fd stat = fat16_stat (lower v) h stat"
  by (auto simp: fd_open_def fstat_def fat16_vtable_def)

lemma fread_open:
  assumes "fd_open v fd h" "0 < sz" "0 < nmemb"
  shows "fread (fat16_vtable io) v sz nmemb fd =
    map_option (\<lambda>(r, out, st). (r, out, v\<lparr>lower := st\<rparr>)) (fat16_read io (lower v) h sz nmemb)"
  using assms file_get_descriptor_range [of v fd]
  by (auto simp: fd_open_def fread_def fat16_vtable_def split: bind_splits)

section \<open>Opening a file by its path\<close>

text \<open>Heap addresses are not taken for error codes.\<close>

lemma used_not_error:
  assumes "fs_ok st" "p \<in> fs_used st"
  shows "\<not> ISERR p"
proof -
  let ?h = "kernel_heap (fs_kmem st)"
  have wf: "heap_wf ?h" using assms(1) by (simp add: fs_ok_def kheap_ok_def)
  obtain b where b: "p = block_addr ?h b" "b < length (entries_of ?h)"
    using assms(2) by (auto simp: fs_used_def kheap_used_def taken_blocks_def)
  have "unat p = unat (hp_start ?h) + 4096 * b" using b unat_block_addr [OF wf, of b] by simp
  then have "unat p < 2 ^ 31" using wf b(2) by (simp add: heap_wf_def)
  then show ?thesis using sint_small [of p] by (simp add: ISERR_def)
qed

lemma root_file_heap:
  assumes "root_file st s i entry" "fs_used st \<subseteq> kheap_used k"
  shows "root_file (st\<lparr>fs_kmem := k\<rparr>) s i entry"
proof -
  have p: "private_of (st\<lparr>fs_kmem := k\<rparr>) = private_of st" by (simp add: private_of_def)
  have i: "item_arrays (st\<lparr>fs_kmem := k\<rparr>) = item_arrays st" by simp
  show ?thesis
    using assms(1) subsetD [OF assms(2)] unfolding root_file_def p i fs_heap_update(2) by blast
qed

lemma open_file_heap:
  "open_file st d f p e ofs \<Longrightarrow> fs_used st \<subseteq> kheap_used k \<Longrightarrow> open_file (st\<lparr>fs_kmem := k\<rparr>) d f p e ofs"
  unfolding open_file_def by auto

lemma file_get_mode_read: "file_get_mode_by_string (114 # m) = Some FILE_MODE_READ"
  by (cases m) (simp_all add: file_get_mode_by_string_def)

lemma single_component:
  assumes "components t = [name]" "0 \<notin> set t"
  shows "0 \<notin> set name" "length name \<le> length t"
proof -
  have "name = head_name t"
    using assms(1) by (subst (asm) components.simps) (auto simp: Let_def split: if_splits)
  then show "0 \<notin> set name" "length name \<le> length t"
    using assms(2) by (auto dest: set_takeWhileD simp: length_takeWhile_le)
qed

lemma vfs_ok_lower:
  assumes "vfs_ok v" "fs_ok st" "fs_used (lower v) \<subseteq> fs_used st"
  shows "vfs_ok (v\<lparr>lower := st\<rparr>)"
  using assms unfolding vfs_ok_def by auto

lemma vfs_ok_store:
  assumes "vfs_ok v" "fd_store v desc = Some d" "fd_index d' = fd_index d"
  shows "vfs_ok (v\<lparr>fd_store := (fd_store v)(desc \<mapsto> d')\<rparr>)"
  using assms unfolding vfs_ok_def by auto

text \<open>No slot of the table leads to one of the given objects.\<close>

definition fd_apart :: "'d vfs_state \<Rightarrow> addr set \<Rightarrow> bool" where
  "fd_apart v os \<longleftrightarrow> (\<forall>i<512. file_descriptors v ! i \<notin> os)"

lemma fopen_ok:
  assumes v: "vfs_ok v" "7 \<le> fs_avail (lower v)" and fs: "disk_filesystem (the_disk (lower v)) = Some Fat16_fs"
    and s: "0 \<notin> set s" "valid_path s" "s ! 0 = 48" "components (drop 3 s) = [name]"
    and root: "root_file (lower v) name i entry"
    and reg: "attribute (item_of_bytes entry) AND FAT_FILE_SUBDIRECTORY = 0"
    and j: "free_index (file_descriptors v) 0 = Some j"
  shows "\<exists>v' h f p. fopen (fat16_vtable io) v (s @ 0 # r) (114 # m) = Some (int j + 1, v') \<and> vfs_ok v'
     \<and> (j < 511 \<longrightarrow> fd_open v' (int j + 1) h) \<and> open_file (lower v') h f p entry 0
     \<and> fd_apart v' {h, f, p} \<and> fs_avail (lower v') + 7 = fs_avail (lower v)
     \<and> fs_used (lower v) \<subseteq> fs_used (lower v') \<and> file_descriptors v' = (file_descriptors v)[j := file_descriptors v' ! j]
     \<and> insert (file_descriptors v' ! j) {h, f, p} \<inter> fs_used (lower v) = {} \<and> same_volume (lower v) (lower v')"
proof -
  let ?st = "lower v"
  have ok: "kheap_ok (fs_kmem ?st)" "fs_ok ?st" using v(1) by (simp_all add: vfs_ok_def fs_ok_def)
  have "2 * length (components (drop 3 s)) + 3 < kheap_avail (fs_kmem ?st)"
    using v(2) s(4) by (simp add: fs_avail_def)
  from pathparser_parse_ok [OF ok(1) this s(1), of r] s(2-4) obtain root k1 where
    p: "pathparser_parse (fs_kmem ?st) (s @ 0 # r) = Some (Some root, k1)" "drive_number root = 0"
    "map part (first_parts root) = [name_buffer name]" "holds_root (fs_kmem ?st) root k1"
    by auto
  then obtain pp where pp: "first_parts root = [pp]" "part pp = name_buffer name" by auto
  have k1: "kheap_ok k1" "fs_used ?st \<subseteq> kheap_used k1" "kheap_avail k1 + 3 = fs_avail ?st"
    using p(4) pp(1) by (auto simp: holds_root_def fs_used_def fs_avail_def)
  let ?st1 = "?st\<lparr>fs_kmem := k1\<rparr>"
  have st1: "fs_ok ?st1" "2 < fs_avail ?st1" "root_file ?st1 name i entry"
    using k1 v(2) root_file_heap [OF root k1(2)] by simp_all
  have nm: "0 \<notin> set name" "length name < 128"
  proof -
    have "0 \<notin> set (drop 3 s)" using s(1) by (auto dest: in_set_dropD)
    from single_component [OF s(4) this] show "0 \<notin> set name" "length name < 128"
      using s(2) by (auto simp: valid_path_def)
  qed
  obtain h f q st2 where o: "fat16_open io ?st1 [pp] FILE_MODE_READ = Some (h, st2)" "h \<noteq> 0"
    "open_file st2 h f q entry 0" "fs_ok st2" "fs_used st2 = {h, f, q} \<union> fs_used ?st1"
    "fs_avail st2 + 3 = fs_avail ?st1" "{h, f, q} \<inter> fs_used ?st1 = {}" "same_volume ?st1 st2"
    by (rule fat16_open_ok [OF st1 nm pp(2) reg])
  have ne: "\<not> ISERR h" by (rule used_not_error [OF o(4)]) (use o(5) in simp)
  let ?v2 = "v\<lparr>lower := st2\<rparr>"
  have v2: "vfs_ok ?v2" by (rule vfs_ok_lower [OF v(1) o(4)]) (use o(5) k1(2) in auto)
  have "0 < fs_avail (lower ?v2)" using o(6) k1(3) v(2) by simp
  moreover have "free_index (file_descriptors ?v2) 0 = Some j" using j by simp
  ultimately obtain desc k2 where n: "file_new_descriptor ?v2 = Some (0, desc, ?v2\<lparr>lower := (lower ?v2)\<lparr>fs_kmem := k2\<rparr>,
      file_descriptors := (file_descriptors ?v2)[j := desc], fd_store := (fd_store ?v2)(desc \<mapsto> new_fd j)\<rparr>)"
    "desc \<noteq> 0" "desc \<notin> fs_used (lower ?v2)" "kheap_ok k2" "kheap_used k2 = insert desc (fs_used (lower ?v2))"
    "Suc (kheap_avail k2) = fs_avail (lower ?v2)"
    by (rule file_new_descriptor_ok [OF v2])
  have j512: "j < 512" "length (file_descriptors v) = 512"
    using j v(1) by (simp_all add: free_index_Some vfs_ok_def)
  let ?d = "(new_fd j)\<lparr>fd_filesystem := Some Fat16_fs, private_data := h, fd_disk := TheDisk\<rparr>"
  let ?v3 = "?v2\<lparr>lower := st2\<lparr>fs_kmem := k2\<rparr>, file_descriptors := (file_descriptors v)[j := desc],
      fd_store := (fd_store v)(desc \<mapsto> ?d)\<rparr>"
  have "fopen_body (fat16_vtable io) v (s @ 0 # r) (114 # m) = Some (int j + 1, ?v3)"
    using p(1,2) pp(1) fs o(1) ne n(1)
    by (simp add: fopen_body_def disk_get_def file_get_mode_read fat16_vtable_def new_fd_def)
  then have "fopen (fat16_vtable io) v (s @ 0 # r) (114 # m) = Some (int j + 1, ?v3)"
    by (simp add: fopen_def)
  moreover have "vfs_ok ?v3"
    using vfs_ok_new [OF v2 j512(1) n(3) _ n(4,5), of ?d] by (simp add: new_fd_def)
  moreover have "fd_open ?v3 (int j + 1) h" if "j < 511"
    using that j512(2) n(2) by (simp add: fd_open_def file_get_descriptor_def new_fd_def)
  moreover have "open_file (lower ?v3) h f q entry 0"
    using open_file_heap [OF o(3), of k2] n(5) by auto
  moreover have "fd_apart ?v3 {h, f, q}"
    unfolding fd_apart_def
  proof (intro allI impI)
    fix i assume i: "i < (512 :: nat)"
    have "desc \<notin> {h, f, q}" using n(3) o(5) by auto
    moreover have "file_descriptors v ! i \<notin> {h, f, q}"
    proof (cases "file_descriptors v ! i = 0")
      case True
      then show ?thesis using o(3) by (auto simp: open_file_def)
    next
      case False
      then have "file_descriptors v ! i \<in> fs_used ?st1"
        using v(1) i k1(2) by (auto simp: vfs_ok_def)
      then show ?thesis using o(7) by blast
    qed
    ultimately show "file_descriptors ?v3 ! i \<notin> {h, f, q}" using i j512 by (simp add: nth_list_update)
  qed
  moreover have "fs_avail (lower ?v3) + 7 = fs_avail ?st" using n(6) o(6) k1(3) by simp
  moreover have "fs_used ?st \<subseteq> fs_used (lower ?v3)" using n(5) o(5) k1(2) by auto
  moreover have "file_descriptors ?v3 = (file_descriptors v)[j := file_descriptors ?v3 ! j]" using j512 by simp
  moreover have "insert (file_descriptors ?v3 ! j) {h, f, q} \<inter> fs_used ?st = {}"
    using n(3) o(5,7) k1(2) j512 by auto
  moreover have "same_volume ?st (lower ?v3)" using o(8) by (simp add: same_volume_def)
  ultimately show ?thesis by blast
qed

text \<open>Closing gives back the file's objects and the slot, not the parsed path.\<close>

lemma fclose_ok:
  assumes v: "vfs_ok v" "fd_open v fd h" and h: "open_file (lower v) h f p e ofs"
    and apart: "fd_apart v {h, f, p}"
  shows "\<exists>v'. fclose (fat16_vtable io) v fd = Some (0, v') \<and> file_get_descriptor v' fd = 0 \<and> vfs_ok v'
     \<and> fs_avail (lower v') = fs_avail (lower v) + 4
     \<and> fs_used (lower v') = fs_used (lower v) - insert (file_get_descriptor v fd) {h, f, p}"
proof -
  let ?a = "file_get_descriptor v fd"
  obtain d where d: "?a \<noteq> 0" "fd_store v ?a = Some d" "fd_index d = fd" "fd_filesystem d = Some Fat16_fs" "private_data d = h"
    using v(2) by (auto simp: fd_open_def)
  have fd: "0 < fd" "fd < 512" using file_get_descriptor_range [OF d(1)] by simp_all
  have a: "?a = file_descriptors v ! nat (fd - 1)" "nat (fd - 1) < 512" using fd by (simp_all add: file_get_descriptor_def)
  have len: "length (file_descriptors v) = 512" and ok: "fs_ok (lower v)" using v(1) by (simp_all add: vfs_ok_def)
  have au: "?a \<in> fs_used (lower v)" using v(1) a d(1) unfolding vfs_ok_def by metis
  have ds: "?a \<notin> {h, f, p}" using apart a unfolding fd_apart_def by metis
  from fat16_close_ok [OF ok h] obtain k1 where
    c: "fat16_close (lower v) h = Some (0, (without (without (without (lower v) p) f) h)\<lparr>fs_kmem := k1\<rparr>)" "kheap_ok k1"
    "kheap_used k1 = fs_used (lower v) - {h, f, p}" "kheap_avail k1 = fs_avail (lower v) + 3" by blast
  let ?st = "(without (without (without (lower v) p) f) h)\<lparr>fs_kmem := k1\<rparr>"
  have "fs_ok ?st" "?a \<in> fs_used ?st" using c(2,3) au ds by auto
  from fs_free_without [OF this] obtain k2 where f: "fs_free ?st ?a = Some ((without ?st ?a)\<lparr>fs_kmem := k2\<rparr>)"
    "kheap_ok k2" "kheap_used k2 = fs_used ?st - {?a}" "kheap_avail k2 = Suc (fs_avail ?st)" by blast
  let ?v = "v\<lparr>file_descriptors := (file_descriptors v)[nat (fd - 1) := 0], lower := (without ?st ?a)\<lparr>fs_kmem := k2\<rparr>,
      fd_store := (fd_store v)(?a := None)\<rparr>"
  have "file_free_descriptor (v\<lparr>lower := ?st\<rparr>) ?a = Some ?v"
    using d(2,3) fd len f(1) a(2) by (simp add: file_free_descriptor_def)
  then have "fclose (fat16_vtable io) v fd = Some (0, ?v)"
    using d c(1) by (simp add: fclose_def fat16_vtable_def Let_def)
  moreover have "file_get_descriptor ?v fd = 0" using fd len by (simp add: file_get_descriptor_def)
  moreover have "vfs_ok ?v"
    unfolding vfs_ok_def
  proof (intro conjI allI impI)
    fix i assume i: "i < 512" "file_descriptors ?v ! i \<noteq> 0"
    then have ni: "i \<noteq> nat (fd - 1)" using len by auto
    then have fi: "file_descriptors ?v ! i = file_descriptors v ! i" "file_descriptors v ! i \<noteq> 0" using i(2) by simp_all
    have "int i + 1 \<noteq> fd" using ni fd by auto
    moreover have st: "file_descriptors v ! i \<in> fs_used (lower v)"
      "\<exists>d. fd_store v (file_descriptors v ! i) = Some d \<and> fd_index d = int i + 1"
      using v(1) i(1) fi(2) unfolding vfs_ok_def by metis+
    ultimately have "file_descriptors v ! i \<noteq> ?a" using d(2,3) by auto
    moreover have "file_descriptors v ! i \<notin> {h, f, p}" using apart i(1) unfolding fd_apart_def by blast
    moreover note st
    ultimately show "file_descriptors ?v ! i \<in> fs_used (lower ?v)"
      "\<exists>d. fd_store ?v (file_descriptors ?v ! i) = Some d \<and> fd_index d = int i + 1"
      unfolding fi(1) using f(3) c(3) by auto
  qed (use f(2) len in simp_all)
  moreover have "fs_avail (lower ?v) = fs_avail (lower v) + 4" using f(4) c(4) by simp
  moreover have "fs_used (lower ?v) = fs_used (lower v) - insert ?a {h, f, p}" using f(3) c(3) by auto
  ultimately show ?thesis by blast
qed

text \<open>Closing frees objects, which leaves memory as it is.\<close>

lemma fs_free_phys: "fs_free st p = Some st' \<Longrightarrow> phys (fs_kmem st') = phys (fs_kmem st)"
  by (auto simp: fs_free_def kfree_phys split: bind_splits)

lemma fat16_close_phys: "fat16_close st p = Some (r, st') \<Longrightarrow> phys (fs_kmem st') = phys (fs_kmem st)"
  by (auto simp: fat16_close_def fat16_free_file_descriptor_def fat16_fat_item_free_def fat16_free_directory_def Let_def
      dest!: fs_free_phys split: bind_splits if_splits)

lemma fclose_phys:
  "fclose (fat16_vtable io) v fd = Some (r, v') \<Longrightarrow> phys (fs_kmem (lower v')) = phys (fs_kmem (lower v))"
  by (auto simp: fclose_def file_free_descriptor_def fat16_vtable_def Let_def split: bind_splits if_splits filesystem.splits
      dest!: fs_free_phys fat16_close_phys)

text \<open>Opening and closing leaves nothing behind but the three blocks of the parsed path.\<close>

lemma fopen_fclose:
  assumes "vfs_ok v" "7 \<le> fs_avail (lower v)" "disk_filesystem (the_disk (lower v)) = Some Fat16_fs"
    "0 \<notin> set s" "valid_path s" "s ! 0 = 48" "components (drop 3 s) = [name]" "root_file (lower v) name i entry"
    "attribute (item_of_bytes entry) AND FAT_FILE_SUBDIRECTORY = 0" "free_index (file_descriptors v) 0 = Some j" "j < 511"
  shows "\<exists>v1 v2. fopen (fat16_vtable io) v (s @ 0 # r) (114 # m) = Some (int j + 1, v1)
     \<and> fclose (fat16_vtable io) v1 (int j + 1) = Some (0, v2) \<and> file_get_descriptor v2 (int j + 1) = 0 \<and> vfs_ok v2
     \<and> fs_avail (lower v2) + 3 = fs_avail (lower v)"
proof -
  obtain v1 h f p where o: "fopen (fat16_vtable io) v (s @ 0 # r) (114 # m) = Some (int j + 1, v1)" "vfs_ok v1"
    "fd_open v1 (int j + 1) h" "open_file (lower v1) h f p entry 0" "fd_apart v1 {h, f, p}"
    "fs_avail (lower v1) + 7 = fs_avail (lower v)"
    using fopen_ok [OF assms(1-10), of io r m] assms(11) by blast
  from fclose_ok [OF o(2-5), of io] o(1,6) show ?thesis by auto
qed

section \<open>Finding the filesystem of the disk\<close>

lemma fat16_init_eq: "\<exists>name. fat16_init = Some (Fat16_fs, name)"
  by (simp add: fat16_init_def strcpy_eq)

lemma fs_init_eq:
  "fs_init v = Some (v\<lparr>file_descriptors := replicate 512 0, filesystems := Some Fat16_fs # replicate 11 None\<rparr>)"
proof -
  have r: "replicate 12 None = None # replicate 11 None" by (simp flip: replicate_Suc)
  obtain name where n: "fat16_init = Some (Fat16_fs, name)" using fat16_init_eq by blast
  show ?thesis
    by (simp add: fs_init_def fs_load_def fs_static_load_def n fs_insert_filesystem_def fs_get_free_filesystem_def r)
qed

lemma resolve_loop_none: "resolve_loop vt (replicate n None) st = Some (None, st)"
  by (induction n) simp_all

lemma disk_search_and_init_one:
  assumes "filesystems v = Some Fat16_fs # replicate n None"
    "st0 = (lower v)\<lparr>the_disk := \<lparr>disk_type = 0, sector_size = 512, disk_id = 0, disk_filesystem = None, fs_private = 0\<rparr>\<rparr>"
    "fat16_resolve io st0 = Some (res, st)"
  shows "disk_search_and_init (fat16_vtable io) v = Some (v\<lparr>lower := st\<lparr>the_disk := (the_disk st)
    \<lparr>disk_filesystem := (if res = 0 then Some Fat16_fs else None)\<rparr>\<rparr>\<rparr>)"
  using assms by (simp add: disk_search_and_init_def fs_resolve_def fat16_vtable_def resolve_loop_none)

text \<open>A disk that is not FAT16 leaves the kernel without a filesystem: no file can be opened.\<close>

lemma fopen_no_filesystem:
  assumes "kheap_ok (fs_kmem (lower v))" "2 * length (components (drop 3 s)) + 3 < fs_avail (lower v)" "0 \<notin> set s"
    "disk_filesystem (the_disk (lower v)) = None"
  shows "\<exists>k'. fopen vt v (s @ 0 # r) m = Some (0, v\<lparr>lower := (lower v)\<lparr>fs_kmem := k'\<rparr>\<rparr>) \<and> kheap_ok k'
     \<and> fs_avail (lower v) \<le> kheap_avail k' + 2 * length (components (drop 3 s)) + 1"
proof -
  let ?k = "fs_kmem (lower v)" and ?c = "components (drop 3 s)"
  have "\<exists>res k. pathparser_parse ?k (s @ 0 # r) = Some (res, k) \<and> kheap_ok k \<and> kheap_avail ?k \<le> kheap_avail k + 2 * length ?c + 1"
  proof -
    have "length (first_parts root) = length ?c" if "map part (first_parts root) = map name_buffer ?c" for root
      using map_eq_imp_length_eq [OF that] .
    moreover obtain res k where "pathparser_parse ?k (s @ 0 # r) = Some (res, k)"
      "if \<not> valid_path s then res = None \<and> k = ?k
       else if ?c = [] then res = None \<and> kheap_ok k \<and> Suc (kheap_avail k) = kheap_avail ?k
       else \<exists>root. res = Some root \<and> drive_number root = sint (s ! 0) - 48
         \<and> map part (first_parts root) = map name_buffer ?c \<and> holds_root ?k root k"
      using pathparser_parse_ok [OF assms(1) _ assms(3), of r] assms(2) by (auto simp: fs_avail_def)
    ultimately show ?thesis using assms(1) by (fastforce simp: holds_root_def split: if_splits)
  qed
  then obtain res k where p: "pathparser_parse ?k (s @ 0 # r) = Some (res, k)"
    and k: "kheap_ok k" "fs_avail (lower v) \<le> kheap_avail k + 2 * length ?c + 1"
    by (auto simp: fs_avail_def)
  show ?thesis
    using p assms(4) k by (cases res) (auto simp: fopen_def fopen_body_def disk_get_def Let_def)
qed

end
