(* ===== verification/Paging.thy ===== *)
theory Paging
  imports KHeap
begin

text \<open>
  Two-level page tables, \<^verbatim>\<open>src/memory/paging/paging.c\<close>.  Directories and tables are arrays of
  1024 32-bit entries in physical memory, a chunk is a heap object whose only field is the
  address of its directory.  A dereference of a NULL that \<^verbatim>\<open>kzalloc\<close> returned is \<open>None\<close>.
\<close>

section \<open>Constants and state (paging.h)\<close>

definition PAGING_CACHE_DISABLE :: byte where "PAGING_CACHE_DISABLE = 0x10"
definition PAGING_WRITE_THROUGH :: byte where "PAGING_WRITE_THROUGH = 0x08"
definition PAGING_ACCESS_BY_ALL :: byte where "PAGING_ACCESS_BY_ALL = 0x04"
definition PAGING_IS_WRITABLE :: byte where "PAGING_IS_WRITABLE = 0x02"
definition PAGING_IS_PRESENT :: byte where "PAGING_IS_PRESENT = 0x01"
definition PAGE_DIRECTORY_TOTAL_ENTRIES :: nat where [simp]: "PAGE_DIRECTORY_TOTAL_ENTRIES = 1024"
definition PAGE_TABLE_TOTAL_ENTRIES :: nat where [simp]: "PAGE_TABLE_TOTAL_ENTRIES = 1024"
definition PAGE_SIZE :: u32 where [simp]: "PAGE_SIZE = 4096"

text \<open>The directory base register that \<^verbatim>\<open>paging_load_directory\<close> sets, and the file's static.\<close>

record mmu =
  cr3 :: addr
  current_directory :: addr

section \<open>Operations (paging.c)\<close>

text \<open>Entry \<open>i\<close> of the \<^verbatim>\<open>uint32_t\<close> array at \<open>a\<close>.\<close>

definition table_entry :: "ram \<Rightarrow> addr \<Rightarrow> nat \<Rightarrow> u32" where
  "table_entry m a i = load32 m (a + 4 * of_nat i)"

definition set_table_entry :: "ram \<Rightarrow> addr \<Rightarrow> nat \<Rightarrow> u32 \<Rightarrow> ram" where
  "set_table_entry m a i v = store32 m (a + 4 * of_nat i) v"

definition directory_entry :: "ram \<Rightarrow> addr \<Rightarrow> addr" where
  "directory_entry m chunk = load32 m chunk"

text \<open>The inner loop of \<^verbatim>\<open>paging_new_4gb\<close> after \<open>j\<close> iterations.\<close>

primrec fill_table :: "ram \<Rightarrow> addr \<Rightarrow> u32 \<Rightarrow> byte \<Rightarrow> nat \<Rightarrow> ram" where
  "fill_table m table offset flags 0 = m"
| "fill_table m table offset flags (Suc j) =
     set_table_entry (fill_table m table offset flags j) table j
       ((offset + of_nat j * PAGE_SIZE) OR ucast flags)"

text \<open>The outer loop after \<open>i\<close> iterations; \<open>offset\<close> has grown by 4 MiB in each.\<close>

primrec new_tables :: "kmem \<Rightarrow> addr \<Rightarrow> byte \<Rightarrow> nat \<Rightarrow> kmem option" where
  "new_tables k directory flags 0 = Some k"
| "new_tables k directory flags (Suc i) = do {
     k \<leftarrow> new_tables k directory flags i;
     let offset = of_nat i * (PAGE_SIZE * of_nat PAGE_TABLE_TOTAL_ENTRIES);
     (table, k) \<leftarrow> kzalloc k (4 * of_nat PAGE_TABLE_TOTAL_ENTRIES);
     if table = 0 \<or> directory = 0 then None
     else
       let m = fill_table (phys k) table offset flags PAGE_TABLE_TOTAL_ENTRIES
       in Some (k\<lparr>phys := set_table_entry m directory i (table OR ucast flags OR ucast PAGING_IS_WRITABLE)\<rparr>)
   }"

definition paging_new_4gb :: "kmem \<Rightarrow> byte \<Rightarrow> (addr \<times> kmem) option" where
  "paging_new_4gb k flags = do {
     (directory, k) \<leftarrow> kzalloc k (4 * of_nat PAGE_DIRECTORY_TOTAL_ENTRIES);
     k \<leftarrow> new_tables k directory flags PAGE_DIRECTORY_TOTAL_ENTRIES;
     (chunk_4gb, k) \<leftarrow> kzalloc k 4;
     if chunk_4gb = 0 then None
     else Some (chunk_4gb, k\<lparr>phys := store32 (phys k) chunk_4gb directory\<rparr>)
   }"

definition paging_switch :: "ram \<Rightarrow> mmu \<Rightarrow> addr \<Rightarrow> mmu" where
  "paging_switch m u chunk =
     u\<lparr>cr3 := directory_entry m chunk, current_directory := directory_entry m chunk\<rparr>"

definition paging_4gb_chunk_get_directory :: "ram \<Rightarrow> addr \<Rightarrow> addr" where
  "paging_4gb_chunk_get_directory m chunk = directory_entry m chunk"

definition paging_is_aligned :: "addr \<Rightarrow> bool" where
  "paging_is_aligned address \<longleftrightarrow> address mod PAGE_SIZE = 0"

text \<open>The two out-parameters keep their old values when the address is not aligned.\<close>

definition paging_get_indexes :: "addr \<Rightarrow> u32 \<Rightarrow> u32 \<Rightarrow> int \<times> u32 \<times> u32" where
  "paging_get_indexes virtual_address directory_index table_index =
     (if \<not> paging_is_aligned virtual_address then (- EINVARG, directory_index, table_index)
      else
        let page_number = virtual_address div PAGE_SIZE;
            d = page_number div of_nat PAGE_TABLE_TOTAL_ENTRIES
        in (0, d, page_number - d * of_nat PAGE_TABLE_TOTAL_ENTRIES))"

definition paging_set :: "ram \<Rightarrow> addr \<Rightarrow> addr \<Rightarrow> u32 \<Rightarrow> int \<times> ram" where
  "paging_set m directory virtual_address val =
     (if \<not> paging_is_aligned virtual_address then (- EINVARG, m)
      else
        let (res, directory_index, table_index) = paging_get_indexes virtual_address 0 0 in
        if res < 0 then (res, m)
        else
          let page_directory_entry = table_entry m directory (unat directory_index);
              page_table_address = page_directory_entry AND 0xFFFFF000
          in (0, set_table_entry m page_table_address (unat table_index) val))"

primrec free_tables :: "kmem \<Rightarrow> addr \<Rightarrow> nat \<Rightarrow> kmem option" where
  "free_tables k chunk 0 = Some k"
| "free_tables k chunk (Suc i) = do {
     k \<leftarrow> free_tables k chunk i;
     let entry = table_entry (phys k) (directory_entry (phys k) chunk) i;
     kfree k (entry AND 0xFFFFF000)
   }"

definition paging_free_4gb :: "kmem \<Rightarrow> addr \<Rightarrow> kmem option" where
  "paging_free_4gb k chunk = do {
     k \<leftarrow> free_tables k chunk 1024;
     k \<leftarrow> kfree k (directory_entry (phys k) chunk);
     kfree k chunk
   }"

definition paging_align_address :: "addr \<Rightarrow> addr" where
  "paging_align_address ptr =
     (if ptr mod PAGE_SIZE = 0 then ptr else ptr + PAGE_SIZE - ptr mod PAGE_SIZE)"

definition paging_map :: "ram \<Rightarrow> addr \<Rightarrow> addr \<Rightarrow> addr \<Rightarrow> u32 \<Rightarrow> int \<times> ram" where
  "paging_map m chunk virt phy flags =
     (if virt mod PAGE_SIZE \<noteq> 0 \<or> phy mod PAGE_SIZE \<noteq> 0 then (- EINVARG, m)
      else paging_set m (directory_entry m chunk) virt (phy OR flags))"

primrec map_range_loop :: "ram \<Rightarrow> addr \<Rightarrow> addr \<Rightarrow> addr \<Rightarrow> u32 \<Rightarrow> int \<Rightarrow> nat \<Rightarrow> int \<times> ram" where
  "map_range_loop m chunk virt phy flags res 0 = (res, m)"
| "map_range_loop m chunk virt phy flags res (Suc n) =
     (let (res, m) = paging_map m chunk virt phy flags in
      if res < 0 then (res, m)
      else map_range_loop m chunk (virt + PAGE_SIZE) (phy + PAGE_SIZE) flags res n)"

definition paging_map_range :: "ram \<Rightarrow> addr \<Rightarrow> addr \<Rightarrow> addr \<Rightarrow> int \<Rightarrow> u32 \<Rightarrow> int \<times> ram" where
  "paging_map_range m chunk virt phy count flags = map_range_loop m chunk virt phy flags 0 (nat count)"

definition paging_map_to :: "ram \<Rightarrow> addr \<Rightarrow> addr \<Rightarrow> addr \<Rightarrow> addr \<Rightarrow> u32 \<Rightarrow> int \<times> ram" where
  "paging_map_to m chunk virt phy phys_end flags =
     (if virt mod PAGE_SIZE \<noteq> 0 then (- EINVARG, m)
      else if phy mod PAGE_SIZE \<noteq> 0 then (- EINVARG, m)
      else if phys_end mod PAGE_SIZE \<noteq> 0 then (- EINVARG, m)
      else if phys_end < phy then (- EINVARG, m)
      else
        let total_bytes = phys_end - phy;
            total_pages = uint (total_bytes div PAGE_SIZE)
        in paging_map_range m chunk virt phy total_pages flags)"

definition paging_get_table_entry :: "ram \<Rightarrow> addr \<Rightarrow> addr \<Rightarrow> u32" where
  "paging_get_table_entry m directory virtual_address =
     (let (res, directory_index, table_index) = paging_get_indexes virtual_address 0 0;
          entry = table_entry m directory (unat directory_index);
          table = entry AND 0xFFFFF000
      in table_entry m table (unat table_index))"

definition paging_align_to_lower_page :: "addr \<Rightarrow> addr" where
  "paging_align_to_lower_page addr = addr - addr mod PAGE_SIZE"

section \<open>Entries of page-aligned arrays\<close>

lemma table_entry_set:
  assumes "page_aligned p" "page_aligned q" "i < 1024" "j < 1024"
  shows "table_entry (set_table_entry m p i v) q j =
     (if p = q \<and> i = j then v else table_entry m q j)"
proof (cases "p = q \<and> i = j")
  case False
  have u: "unat (p + 4 * of_nat i) = unat p + 4 * i" "unat (q + 4 * of_nat j) = unat q + 4 * j"
    using assms by (simp_all add: unat_slot)
  have d: "4096 dvd unat p" "4096 dvd unat q" using assms by (simp_all add: page_aligned_unat)
  then obtain x y where xy: "unat p = 4096 * x" "unat q = 4096 * y" by (auto elim!: dvdE)
  have "4 dvd unat (p + 4 * of_nat i)" "4 dvd unat (q + 4 * of_nat j)"
    unfolding u xy by (auto intro!: dvd_add dvd_mult2)
  moreover have "p + 4 * of_nat i \<noteq> q + 4 * of_nat j"
  proof
    assume "p + 4 * of_nat i = q + 4 * of_nat j"
    then have "4096 * x + 4 * i = 4096 * y + 4 * j" using u xy by simp
    then have e: "1024 * x + i = 1024 * y + j" by simp
    then have "(1024 * x + i) div 1024 = (1024 * y + j) div 1024" by (simp only:)
    then have "x = y" using assms(3,4) by simp
    with e have "i = j" by simp
    from xy \<open>x = y\<close> have "unat p = unat q" by simp
    then have "p = q" by (simp only: word_unat_eq_iff)
    with False \<open>i = j\<close> show False by simp
  qed
  ultimately show ?thesis
    using False by (auto simp: table_entry_def set_table_entry_def load32_store32_other)
qed (simp add: table_entry_def set_table_entry_def)

lemma table_entry_outside:
  assumes "\<And>a. page_base a = q \<Longrightarrow> m' a = m a" "page_aligned q" "i < 1024"
  shows "table_entry m' q i = table_entry m q i"
proof -
  have "page_base (q + 4 * of_nat i + of_nat b) = q" if "b < 4" for b
  proof -
    have u: "unat (q + 4 * of_nat i) = unat q + 4 * i" using assms by (simp add: unat_slot)
    obtain x where x: "unat q = 4096 * x" using assms(2) by (auto simp: page_aligned_unat elim!: dvdE)
    then have "x < 1048576" using unat_less_4G [of q] by simp
    then have "unat q + 4 * i + b < 4294967296" using x assms(3) that by simp
    then have "unat (q + 4 * of_nat i + of_nat b) = unat q + 4 * i + b"
      using that by (simp add: unat_word_ariths(1) [of "q + 4 * of_nat i"] u unat_of_nat)
    moreover have "(4096 * x + 4 * i + b) div 4096 = x" using assms(3) that by simp
    ultimately have "unat (page_base (q + 4 * of_nat i + of_nat b)) = unat q"
      unfolding unat_page_base using x by simp
    then show ?thesis by (simp only: word_unat_eq_iff)
  qed
  from this [of 0] this [of 1] this [of 2] this [of 3] show ?thesis
    by (simp add: table_entry_def load32_def assms(1))
qed


lemma table_entry_kzalloc:
  assumes "kzalloc k n = Some (p, k')" "unat n \<le> 4096" "page_aligned p" "page_aligned q" "p \<noteq> q" "i < 1024"
  shows "table_entry (phys k') q i = table_entry (phys k) q i"
proof (rule table_entry_outside)
  fix a assume "page_base a = q"
  with assms(5) have "page_base a \<noteq> p" by simp
  then have "\<not> unat (a - p) < unat n"
    using assms(2,3) page_base_in_page [of p "a - p"] by auto
  then show "phys k' a = phys k a" using kzalloc_phys [OF assms(1), of a] by simp
qed (use assms in auto)

lemma table_entry_fill:
  assumes "page_aligned p" "page_aligned q" "n \<le> 1024" "j < 1024"
  shows "table_entry (fill_table m p off flags n) q j =
     (if p = q \<and> j < n then (off + of_nat j * 4096) OR ucast flags else table_entry m q j)"
  using assms(3)
proof (induction n)
  case (Suc n)
  then show ?case
    using assms by (auto simp: table_entry_set less_Suc_eq)
qed simp

lemma directory_entry_eq: "directory_entry m chunk = table_entry m chunk 0"
  by (simp add: directory_entry_def table_entry_def)

lemma store_chunk_eq: "store32 m chunk d = set_table_entry m chunk 0 d"
  by (simp add: set_table_entry_def)

section \<open>Directories\<close>

abbreviation table_addr :: "ram \<Rightarrow> addr \<Rightarrow> nat \<Rightarrow> addr" where
  "table_addr m d i \<equiv> page_base (table_entry m d i)"

text \<open>The tables of a directory are pairwise different pages and none of them is the directory.\<close>

definition wf_directory :: "ram \<Rightarrow> addr \<Rightarrow> bool" where
  "wf_directory m d \<longleftrightarrow> page_aligned d \<and> inj_on (table_addr m d) {..<1024} \<and> d \<notin> table_addr m d ` {..<1024}"

definition dir_index :: "addr \<Rightarrow> nat" where
  "dir_index va = unat va div 4194304"

definition tab_index :: "addr \<Rightarrow> nat" where
  "tab_index va = unat va div 4096 mod 1024"

lemma dir_index_less [simp]: "dir_index va < 1024"
  using unat_less_4G [of va] by (simp add: dir_index_def less_mult_imp_div_less)

lemma tab_index_less [simp]: "tab_index va < 1024"
  by (simp add: tab_index_def)

lemma paging_is_aligned_eq: "paging_is_aligned va = page_aligned va"
  by (simp add: paging_is_aligned_def page_aligned_def)

lemma paging_get_indexes_aligned:
  assumes "page_aligned va"
  shows "paging_get_indexes va d t = (0, of_nat (dir_index va), of_nat (tab_index va))"
proof -
  let ?n = "unat va div 4096"
  have n: "va div 4096 = of_nat ?n" by (simp add: word_arith_nat_div)
  have d: "va div 4096 div 1024 = of_nat (dir_index va)"
  proof (rule word_unat_eq_iff [THEN iffD2])
    have "dir_index va < 4294967296" by (rule less_trans [OF dir_index_less]) simp
    then show "unat (va div 4096 div 1024) = unat (of_nat (dir_index va) :: u32)"
      by (simp add: unat_div_distrib unat_of_nat del: dir_index_less)
         (simp add: dir_index_def flip: div_mult2_eq)
  qed
  have "va div 4096 - of_nat (dir_index va) * 1024 = (of_nat (?n mod 1024) :: u32)"
  proof -
    have "dir_index va = ?n div 1024" by (simp add: dir_index_def flip: div_mult2_eq)
    then have "?n = dir_index va * 1024 + ?n mod 1024" by (simp only: div_mult_mod_eq)
    then have "(of_nat ?n :: u32) = of_nat (dir_index va) * 1024 + of_nat (?n mod 1024)"
      by (metis of_nat_add of_nat_mult of_nat_numeral)
    then show ?thesis unfolding n by simp
  qed
  with assms d show ?thesis
    by (simp add: paging_get_indexes_def paging_is_aligned_eq Let_def tab_index_def)
qed

lemma unat_index [simp]:
  "unat (of_nat (dir_index va) :: u32) = dir_index va"
  "unat (of_nat (tab_index va) :: u32) = tab_index va"
  using dir_index_less [of va] tab_index_less [of va] by (simp_all add: unat_of_nat del: dir_index_less tab_index_less)

lemma same_page_index:
  assumes "page_aligned va" "page_aligned wa" "dir_index va = dir_index wa" "tab_index va = tab_index wa"
  shows "va = wa"
proof -
  have "unat v = 4096 * (1024 * dir_index v + tab_index v)" if al: "page_aligned v" for v
  proof -
    obtain x where "unat v = 4096 * x" using al by (auto simp: page_aligned_unat elim!: dvdE)
    then show ?thesis
      by (simp add: dir_index_def tab_index_def div_mult2_eq [of _ 4096 1024, simplified])
  qed
  then have "unat va = unat wa" using assms by metis
  then show ?thesis by (simp only: word_unat_eq_iff)
qed

lemma paging_get_table_entry_eq:
  "page_aligned va \<Longrightarrow> paging_get_table_entry m d va =
     table_entry m (table_addr m d (dir_index va)) (tab_index va)"
  by (simp add: paging_get_table_entry_def paging_get_indexes_aligned page_base_def)

lemma paging_set_eq:
  "paging_set m d va v =
     (if page_aligned va
      then (0, set_table_entry m (table_addr m d (dir_index va)) (tab_index va) v)
      else (- EINVARG, m))"
  by (simp add: paging_set_def paging_is_aligned_eq paging_get_indexes_aligned page_base_def Let_def)

text \<open>Directory entries are not touched by a store into a table.\<close>

lemma table_addr_set:
  assumes "wf_directory m d" "i < 1024" "j < 1024" "l < 1024"
  shows "table_entry (set_table_entry m (table_addr m d i) j v) d l = table_entry m d l"
proof -
  have "table_addr m d i \<noteq> d" using assms(1,2) by (metis imageI lessThan_iff wf_directory_def)
  then show ?thesis using assms by (simp add: wf_directory_def table_entry_set)
qed

lemma wf_directory_set:
  assumes "wf_directory m d" "i < 1024" "j < 1024"
  shows "wf_directory (set_table_entry m (table_addr m d i) j v) d"
proof -
  have "table_addr (set_table_entry m (table_addr m d i) j v) d l = table_addr m d l" if "l < 1024" for l
    by (simp add: table_addr_set [OF assms that])
  then show ?thesis
    using assms(1) unfolding wf_directory_def by (auto simp: inj_on_def)
qed

lemma paging_set_lookup:
  assumes wf: "wf_directory m d" and va: "page_aligned va" "page_aligned wa"
    and set: "paging_set m d va v = (r, m')"
  shows "paging_get_table_entry m' d wa = (if wa = va then v else paging_get_table_entry m d wa)"
    and "wf_directory m' d" and "r = 0"
proof -
  let ?T = "table_addr m d"
  from set va have m': "m' = set_table_entry m (?T (dir_index va)) (tab_index va) v" "r = 0"
    by (simp_all add: paging_set_eq)
  show "wf_directory m' d" unfolding m' using wf by (simp add: wf_directory_set)
  show "r = 0" by (rule m')
  have T: "table_addr m' d (dir_index wa) = ?T (dir_index wa)"
    unfolding m' using wf by (simp add: table_addr_set)
  have "?T (dir_index va) = ?T (dir_index wa) \<longleftrightarrow> dir_index va = dir_index wa"
    using wf by (auto simp: wf_directory_def dest: inj_onD)
  then have "?T (dir_index va) = ?T (dir_index wa) \<and> tab_index va = tab_index wa \<longleftrightarrow> wa = va"
    using same_page_index [OF va] by auto
  then show "paging_get_table_entry m' d wa = (if wa = va then v else paging_get_table_entry m d wa)"
    using va(2) by (simp add: paging_get_table_entry_eq T) (simp add: m' table_entry_set)
qed


section \<open>Building the 4 GiB directory\<close>

text \<open>
  State of \<open>new_tables\<close> after \<open>i\<close> iterations from \<open>k\<close>: the tables \<open>T 0 .. T (i - 1)\<close> are
  new blocks, filled with the identity mapping of their 4 MiB, entered in the directory, and
  no other array of a block in use has changed.
\<close>

definition tables_done :: "kmem \<Rightarrow> addr \<Rightarrow> byte \<Rightarrow> nat \<Rightarrow> kmem \<Rightarrow> (nat \<Rightarrow> addr) \<Rightarrow> bool" where
  "tables_done k d flags i k' T \<longleftrightarrow>
     kheap_ok k' \<and> kheap_avail k' + i = kheap_avail k
     \<and> kheap_used k' = kheap_used k \<union> T ` {..<i}
     \<and> inj_on T {..<i} \<and> T ` {..<i} \<inter> kheap_used k = {}
     \<and> (\<forall>j<i. page_aligned (T j)
          \<and> table_entry (phys k') d j = T j OR ucast (flags OR PAGING_IS_WRITABLE)
          \<and> (\<forall>l<1024. table_entry (phys k') (T j) l = (of_nat j * 4194304 + of_nat l * 4096) OR ucast flags))
     \<and> (\<forall>q l. page_aligned q \<longrightarrow> q \<in> kheap_used k \<longrightarrow> l < 1024 \<longrightarrow> (q = d \<longrightarrow> i \<le> l) \<longrightarrow>
          table_entry (phys k') q l = table_entry (phys k) q l)"

lemma tables_done_step:
  assumes d: "page_aligned d" "d \<noteq> 0" "d \<in> kheap_used k" and i: "i < 1024" "i < kheap_avail k"
    and new: "new_tables k d flags i = Some k1" and td: "tables_done k d flags i k1 T"
  shows "\<exists>k2 p. new_tables k d flags (Suc i) = Some k2 \<and> tables_done k d flags (Suc i) k2 (T(i := p))"
proof -
  have k1: "kheap_ok k1" "kheap_avail k1 + i = kheap_avail k" "kheap_used k1 = kheap_used k \<union> T ` {..<i}"
    "inj_on T {..<i}" "T ` {..<i} \<inter> kheap_used k = {}"
    and T: "\<And>j. j < i \<Longrightarrow> page_aligned (T j)"
    "\<And>j. j < i \<Longrightarrow> table_entry (phys k1) d j = T j OR ucast (flags OR PAGING_IS_WRITABLE)"
    "\<And>j l. j < i \<Longrightarrow> l < 1024 \<Longrightarrow> table_entry (phys k1) (T j) l = (of_nat j * 4194304 + of_nat l * 4096) OR ucast flags"
    and old: "\<And>q l. page_aligned q \<Longrightarrow> q \<in> kheap_used k \<Longrightarrow> l < 1024 \<Longrightarrow> (q = d \<longrightarrow> i \<le> l) \<Longrightarrow>
          table_entry (phys k1) q l = table_entry (phys k) q l"
    using td unfolding tables_done_def by blast+
  have "0 < kheap_avail k1" using k1(2) i(2) by simp
  with k1(1) obtain p k2 where p: "kzalloc k1 4096 = Some (p, k2)" "kheap_ok k2" "p \<noteq> 0" "page_aligned p"
    "p \<notin> kheap_used k1" "kheap_used k2 = insert p (kheap_used k1)" "Suc (kheap_avail k2) = kheap_avail k1"
    using kpage.alloc_page [of k1 4096] by auto
  let ?off = "of_nat i * 4194304 :: u32"
  let ?m = "set_table_entry (fill_table (phys k2) p ?off flags 1024) d i (p OR ucast (flags OR PAGING_IS_WRITABLE))"
  let ?k3 = "k2\<lparr>phys := ?m\<rparr>"
  have run: "new_tables k d flags (Suc i) = Some ?k3"
    using new p d(2) by (simp add: unsigned_or_eq)
  have pd: "p \<noteq> d" "p \<notin> kheap_used k" "p \<notin> T ` {..<i}" using p(5) d(3) k1(3) by auto
  have entry: "table_entry ?m q l =
      (if q = d \<and> l = i then p OR ucast (flags OR PAGING_IS_WRITABLE)
       else if q = p then (?off + of_nat l * 4096) OR ucast flags
       else table_entry (phys k1) q l)"
    if q: "page_aligned q" "l < 1024" for q l
    using q p(4) d(1) i(1) pd(1)
    by (auto simp: table_entry_set table_entry_fill table_entry_kzalloc [OF p(1)])
  have Td: "T j \<noteq> d" "T j \<noteq> p" if "j < i" for j
    using that k1(5) d(3) pd(3) by blast+
  have "tables_done k d flags (Suc i) ?k3 (T(i := p))"
    unfolding tables_done_def
  proof (intro conjI allI impI)
    show "kheap_ok ?k3" using p(2) by simp
    show "kheap_avail ?k3 + Suc i = kheap_avail k" using p(7) k1(2) by simp
    show "kheap_used ?k3 = kheap_used k \<union> (T(i := p)) ` {..<Suc i}"
      using p(6) k1(3) by (auto simp: lessThan_Suc)
    show "inj_on (T(i := p)) {..<Suc i}"
      using k1(4) pd(3) by (auto simp: lessThan_Suc inj_on_def)
    show "(T(i := p)) ` {..<Suc i} \<inter> kheap_used k = {}"
      using k1(5) pd(2) by (auto simp: lessThan_Suc)
  next
    fix j assume "j < Suc i"
    then show "page_aligned ((T(i := p)) j)" using T(1) p(4) by (auto simp: less_Suc_eq)
    show "table_entry (phys ?k3) d j = (T(i := p)) j OR ucast (flags OR PAGING_IS_WRITABLE)"
      using \<open>j < Suc i\<close> T(2) [of j] d(1) i(1) pd(1) entry [of d j] by (auto simp: less_Suc_eq)
    fix l :: nat assume "l < 1024"
    show "table_entry (phys ?k3) ((T(i := p)) j) l = (of_nat j * 4194304 + of_nat l * 4096) OR ucast flags"
    proof (cases "j = i")
      case True
      then show ?thesis using entry [OF p(4) \<open>l < 1024\<close>] pd(1) by simp
    next
      case False
      with \<open>j < Suc i\<close> have "j < i" by simp
      then show ?thesis using entry [OF T(1) \<open>l < 1024\<close>] Td T(3) \<open>l < 1024\<close> False by simp
    qed
  next
    fix q l assume q: "page_aligned q" "q \<in> kheap_used k" "l < (1024::nat)" "q = d \<longrightarrow> Suc i \<le> l"
    then show "table_entry (phys ?k3) q l = table_entry (phys k) q l"
      using entry [OF q(1,3)] old [OF q(1-3)] pd(2) by auto
  qed
  with run show ?thesis by blast
qed

lemma new_tables_done:
  assumes "kheap_ok k" "page_aligned d" "d \<noteq> 0" "d \<in> kheap_used k" "i \<le> 1024" "i \<le> kheap_avail k"
  shows "\<exists>k' T. new_tables k d flags i = Some k' \<and> tables_done k d flags i k' T"
  using assms(5,6)
proof (induction i)
  case 0
  then show ?case using assms(1) by (simp add: tables_done_def)
next
  case (Suc i)
  then obtain k' T where "new_tables k d flags i = Some k'" "tables_done k d flags i k' T" by auto
  then show ?case
    using tables_done_step [OF assms(2-4), of i flags k' T] Suc.prems by (meson Suc_le_lessD)
qed


text \<open>
  The heap blocks an address space consists of: the chunk object, the directory and the 1024
  tables.  \<open>wf_chunk\<close> says that they are different pages, \<open>owns_chunk\<close> that they are blocks in use.
\<close>

definition chunk_pages :: "ram \<Rightarrow> addr \<Rightarrow> addr set" where
  "chunk_pages m c = {c, directory_entry m c} \<union> table_addr m (directory_entry m c) ` {..<1024}"

definition wf_chunk :: "ram \<Rightarrow> addr \<Rightarrow> bool" where
  "wf_chunk m c \<longleftrightarrow> page_aligned c \<and> wf_directory m (directory_entry m c)
     \<and> c \<noteq> directory_entry m c \<and> c \<notin> table_addr m (directory_entry m c) ` {..<1024}"

definition owns_chunk :: "kmem \<Rightarrow> addr \<Rightarrow> bool" where
  "owns_chunk k c \<longleftrightarrow> wf_chunk (phys k) c \<and> chunk_pages (phys k) c \<subseteq> kheap_used k"

definition identity_mapped :: "ram \<Rightarrow> addr \<Rightarrow> byte \<Rightarrow> bool" where
  "identity_mapped m d flags \<longleftrightarrow>
     (\<forall>va. paging_get_table_entry m d (page_base va) = page_base va OR ucast flags)"

text \<open>The processor walks a table only when its directory entry is present.\<close>

definition present_tables :: "ram \<Rightarrow> addr \<Rightarrow> bool" where
  "present_tables m d \<longleftrightarrow> (\<forall>i<1024. bit (table_entry m d i) 0)"

text \<open>It lets user mode through, for writing too, when bits 1 and 2 of the entry are set.\<close>

definition user_tables :: "ram \<Rightarrow> addr \<Rightarrow> bool" where
  "user_tables m d \<longleftrightarrow> (\<forall>i<1024. bit (table_entry m d i) 1 \<and> bit (table_entry m d i) 2)"

lemma unat_ucast_byte: "unat (ucast (b :: byte) :: u32) < 4096"
proof -
  have b: "unat b < 256" using unsigned_less [of b, where ?'a = nat] by simp
  then have "unat (ucast b :: u32) = unat b"
    by (simp add: unsigned_ucast_eq take_bit_nat_eq_self_iff)
  with b show ?thesis by simp
qed

lemma page_base_flags: "page_aligned a \<Longrightarrow> page_base (a OR ucast (b :: byte)) = a"
  by (rule page_base_add) (auto simp: unat_ucast_byte)

lemma index_sum:
  assumes "page_aligned va"
  shows "of_nat (dir_index va) * 4194304 + of_nat (tab_index va) * 4096 = va"
proof -
  obtain x where x: "unat va = 4096 * x" using assms by (auto simp: page_aligned_unat elim!: dvdE)
  have e: "dir_index va = x div 1024" "tab_index va = x mod 1024"
    using x by (simp_all add: dir_index_def tab_index_def div_mult2_eq [of _ 4096 1024, simplified])
  have "dir_index va * 4194304 + tab_index va * 4096 = unat va"
    unfolding e x using div_mult_mod_eq [of x 1024] by linarith
  then have "(of_nat (dir_index va * 4194304 + tab_index va * 4096) :: u32) = of_nat (unat va)"
    by (simp only:)
  then show ?thesis by simp
qed

lemma paging_new_4gb_ok:
  assumes k: "kheap_ok k" "1026 \<le> kheap_avail k"
  shows "\<exists>c k'. paging_new_4gb k flags = Some (c, k') \<and> kheap_ok k' \<and> c \<noteq> 0 \<and> owns_chunk k' c
     \<and> identity_mapped (phys k') (directory_entry (phys k') c) flags
     \<and> (bit flags 0 \<longrightarrow> present_tables (phys k') (directory_entry (phys k') c))
     \<and> (bit flags 2 \<longrightarrow> user_tables (phys k') (directory_entry (phys k') c))
     \<and> kheap_avail k' + 1026 = kheap_avail k
     \<and> kheap_used k' = kheap_used k \<union> chunk_pages (phys k') c
     \<and> chunk_pages (phys k') c \<inter> kheap_used k = {}"
proof -
  from k obtain d k1 where d: "kzalloc k 4096 = Some (d, k1)" "kheap_ok k1" "d \<noteq> 0" "page_aligned d"
    "d \<notin> kheap_used k" "kheap_used k1 = insert d (kheap_used k)" "Suc (kheap_avail k1) = kheap_avail k"
    using kpage.alloc_page [of k 4096] by auto
  have dk1: "d \<in> kheap_used k1" "1024 \<le> kheap_avail k1" using d k(2) by auto
  from new_tables_done [OF d(2,4,3) dk1(1) _ dk1(2), of flags] obtain k2 T
    where run: "new_tables k1 d flags 1024 = Some k2" and td: "tables_done k1 d flags 1024 k2 T" by auto
  have k2: "kheap_ok k2" "kheap_avail k2 + 1024 = kheap_avail k1" "kheap_used k2 = kheap_used k1 \<union> T ` {..<1024}"
    "inj_on T {..<1024}" "T ` {..<1024} \<inter> kheap_used k1 = {}"
    and T: "\<And>j. j < 1024 \<Longrightarrow> page_aligned (T j)"
    "\<And>j. j < 1024 \<Longrightarrow> table_entry (phys k2) d j = T j OR ucast (flags OR PAGING_IS_WRITABLE)"
    "\<And>j l. j < 1024 \<Longrightarrow> l < 1024 \<Longrightarrow> table_entry (phys k2) (T j) l = (of_nat j * 4194304 + of_nat l * 4096) OR ucast flags"
    using td unfolding tables_done_def by blast+
  have "0 < kheap_avail k2" using k2(2) d(7) k(2) by simp
  with k2(1) obtain c k3 where c: "kzalloc k2 4 = Some (c, k3)" "kheap_ok k3" "c \<noteq> 0" "page_aligned c"
    "c \<notin> kheap_used k2" "kheap_used k3 = insert c (kheap_used k2)" "Suc (kheap_avail k3) = kheap_avail k2"
    using kpage.alloc_page [of k2 4] by auto
  let ?m = "store32 (phys k3) c d"
  let ?k' = "k3\<lparr>phys := ?m\<rparr>"
  have new: "paging_new_4gb k flags = Some (c, ?k')"
    using d(1) run c(1,3) by (simp add: paging_new_4gb_def)
  have entry: "table_entry ?m q l = (if q = c then if l = 0 then d else table_entry (phys k3) q l
      else table_entry (phys k2) q l)" if "page_aligned q" "l < 1024" for q l
    using that c(4) by (auto simp: store_chunk_eq table_entry_set table_entry_kzalloc [OF c(1)])
  have dir: "directory_entry ?m c = d" by (simp add: directory_entry_eq entry c(4))
  have cd: "c \<noteq> d" "c \<notin> T ` {..<1024}" using c(5) k2(3) dk1 by auto
  have dT: "d \<notin> T ` {..<1024}" using k2(5) dk1(1) by blast
  have TA: "table_addr ?m d j = T j" if "j < 1024" for j
    using that cd(1) by (simp add: entry [OF d(4)] T page_base_flags)
  then have im: "table_addr ?m d ` {..<1024} = T ` {..<1024}" by simp
  have inj: "inj_on (table_addr ?m d) {..<1024}"
    using k2(4) TA by (auto simp: inj_on_def)
  have pages: "chunk_pages ?m c = {c, d} \<union> T ` {..<1024}"
    by (simp only: chunk_pages_def dir im)
  have used: "kheap_used ?k' = kheap_used k \<union> chunk_pages ?m c"
    unfolding pages using c(6) k2(3) d(6) by auto
  have "identity_mapped ?m d flags"
    unfolding identity_mapped_def
  proof
    fix va
    let ?va = "page_base va"
    have "T (dir_index ?va) \<noteq> c" using cd(2) by auto
    then show "paging_get_table_entry ?m d ?va = ?va OR ucast flags"
      by (simp add: paging_get_table_entry_eq TA entry T index_sum)
  qed
  moreover have "present_tables ?m d" if "bit flags 0"
  proof -
    have "bit (ucast (flags OR PAGING_IS_WRITABLE) :: u32) 0" using that by (simp add: bit_simps)
    then show ?thesis unfolding present_tables_def
      using cd(1) by (simp add: entry [OF d(4)] T bit_or_iff)
  qed
  moreover have "user_tables ?m d" if "bit flags 2"
  proof -
    have "bit (ucast (flags OR PAGING_IS_WRITABLE) :: u32) 1" "bit (ucast (flags OR PAGING_IS_WRITABLE) :: u32) 2"
      using that by (simp_all add: bit_simps PAGING_IS_WRITABLE_def)
    then show ?thesis unfolding user_tables_def
      using cd(1) by (simp add: entry [OF d(4)] T bit_or_iff)
  qed
  moreover have "owns_chunk ?k' c"
    using c(4) inj dT cd d(4) used by (simp add: owns_chunk_def wf_chunk_def wf_directory_def dir im)
  moreover have "chunk_pages ?m c \<inter> kheap_used k = {}"
    unfolding pages using c(5) k2(3,5) d(5,6) by auto
  moreover have "kheap_avail ?k' + 1026 = kheap_avail k" using c(7) k2(2) d(7) by simp
  ultimately show ?thesis using new used c(2,3) dir by fastforce
qed

section \<open>Freeing an address space\<close>

lemma free_tables_ok:
  assumes own: "owns_chunk k c" and ok: "kheap_ok k" and "i \<le> 1024"
  shows "\<exists>k'. free_tables k c i = Some k' \<and> kheap_ok k' \<and> phys k' = phys k
     \<and> kheap_used k' = kheap_used k - table_addr (phys k) (directory_entry (phys k) c) ` {..<i}
     \<and> kheap_avail k' = kheap_avail k + i"
  using assms(3)
proof (induction i)
  case (Suc i)
  let ?T = "table_addr (phys k) (directory_entry (phys k) c)"
  from Suc obtain k1 where k1: "free_tables k c i = Some k1" "kheap_ok k1" "phys k1 = phys k"
    "kheap_used k1 = kheap_used k - ?T ` {..<i}" "kheap_avail k1 = kheap_avail k + i" by auto
  have "inj_on ?T {..<1024}" "?T ` {..<1024} \<subseteq> kheap_used k"
    using own by (auto simp: owns_chunk_def wf_chunk_def wf_directory_def chunk_pages_def)
  then have "?T i \<notin> ?T ` {..<i}" "?T i \<in> kheap_used k"
    using Suc.prems by (auto dest: inj_onD)
  then have "?T i \<in> kheap_used k1" using k1(4) by simp
  then obtain k2 where k2: "kfree k1 (?T i) = Some k2" "kheap_ok k2"
    "kheap_used k2 = kheap_used k1 - {?T i}" "kheap_avail k2 = Suc (kheap_avail k1)"
    using kpage.release_page [OF k1(2)] by blast
  then have "free_tables k c (Suc i) = Some k2" using k1 by (simp add: page_base_def)
  moreover have "kheap_used k2 = kheap_used k - ?T ` {..<Suc i}"
    using k2(3) k1(4) by (auto simp: lessThan_Suc)
  ultimately show ?case using k2 k1 kfree_phys [OF k2(1)] by auto
qed (use ok in simp)

lemma paging_free_4gb_ok:
  assumes own: "owns_chunk k c" and ok: "kheap_ok k"
  shows "\<exists>k'. paging_free_4gb k c = Some k' \<and> kheap_ok k' \<and> phys k' = phys k
     \<and> kheap_used k' = kheap_used k - chunk_pages (phys k) c \<and> kheap_avail k' = kheap_avail k + 1026"
proof -
  let ?d = "directory_entry (phys k) c"
  let ?T = "table_addr (phys k) ?d"
  from free_tables_ok [OF own ok order_refl] obtain k1 where k1: "free_tables k c 1024 = Some k1" "kheap_ok k1"
    "phys k1 = phys k" "kheap_used k1 = kheap_used k - ?T ` {..<1024}" "kheap_avail k1 = kheap_avail k + 1024"
    by auto
  have o: "?d \<in> kheap_used k1" "c \<in> kheap_used k1" "c \<noteq> ?d"
    using own k1(4) unfolding owns_chunk_def wf_chunk_def wf_directory_def chunk_pages_def by auto
  from kpage.release_page [OF k1(2) o(1)] obtain k2 where k2: "kfree k1 ?d = Some k2" "kheap_ok k2"
    "kheap_used k2 = kheap_used k1 - {?d}" "kheap_avail k2 = Suc (kheap_avail k1)" by blast
  have "c \<in> kheap_used k2" using k2(3) o by simp
  from kpage.release_page [OF k2(2) this] obtain k3 where k3: "kfree k2 c = Some k3" "kheap_ok k3"
    "kheap_used k3 = kheap_used k2 - {c}" "kheap_avail k3 = Suc (kheap_avail k2)" by blast
  have "paging_free_4gb k c = Some k3"
    using k1 k2(1) k3(1) by (simp add: paging_free_4gb_def)
  moreover have "kheap_used k3 = kheap_used k - chunk_pages (phys k) c"
    using k3(3) k2(3) k1(4) by (auto simp: chunk_pages_def)
  ultimately show ?thesis
    using k3 k2(4) k1(3,5) kfree_phys [OF k2(1)] kfree_phys [OF k3(1)] by auto
qed


text \<open>Without 1026 free blocks some allocation fails and the code goes on to dereference NULL.\<close>

lemma new_tables_none:
  assumes "kheap_ok k" "page_aligned d" "d \<noteq> 0" "d \<in> kheap_used k" "kheap_avail k < i" "i \<le> 1024"
  shows "new_tables k d flags i = None"
  using assms(5,6)
proof (induction i)
  case (Suc i)
  show ?case
  proof (cases "kheap_avail k < i")
    case True
    with Suc show ?thesis by simp
  next
    case False
    with Suc.prems have i: "i = kheap_avail k" "i \<le> 1024" by auto
    then obtain k' T where k': "new_tables k d flags i = Some k'" "tables_done k d flags i k' T"
      using new_tables_done [OF assms(1-4)] by blast
    then have "kheap_ok k'" "kheap_avail k' = 0" using i by (auto simp: tables_done_def)
    then have "kzalloc k' 4096 = Some (0, k')" by (simp add: kpage.alloc_full)
    with k'(1) show ?thesis by simp
  qed
qed simp

lemma paging_new_4gb_none:
  assumes k: "kheap_ok k" "kheap_avail k < 1026"
  shows "paging_new_4gb k flags = None"
  using k(1) page_request_4096
proof (cases rule: kpage.alloc_cases)
  case full
  have "new_tables k 0 flags 1024 = None" if "kzalloc k 4096 = Some (0, k)"
  proof -
    have "new_tables k 0 flags (Suc i) = None" for i
      by (auto split: bind_splits prod.splits simp: Option.bind_eq_None_conv)
    from this [of 1023] show ?thesis by (simp only: Suc_numeral) simp
  qed
  with full show ?thesis by (simp add: paging_new_4gb_def)
next
  case (page d k1)
  then have d: "d \<in> kheap_used k1" by simp
  show ?thesis
  proof (cases "kheap_avail k1 < 1024")
    case True
    with page d show ?thesis by (simp add: paging_new_4gb_def new_tables_none)
  next
    case False
    then have "kheap_avail k1 = 1024" using page(8) k(2) by simp
    then obtain k2 T where k2: "new_tables k1 d flags 1024 = Some k2" "tables_done k1 d flags 1024 k2 T"
      using new_tables_done [OF page(3,5,4) d order_refl, of flags] by auto
    then have "kheap_ok k2" "kheap_avail k2 = 0"
      using \<open>kheap_avail k1 = 1024\<close> by (auto simp: tables_done_def)
    then have "kzalloc k2 4 = Some (0, k2)" by (simp add: kpage.alloc_full)
    with page(2) k2(1) show ?thesis by (simp add: paging_new_4gb_def)
  qed
qed

section \<open>Mapping ranges\<close>

abbreviation lookup_page :: "ram \<Rightarrow> addr \<Rightarrow> addr \<Rightarrow> u32" where
  "lookup_page m c va \<equiv> paging_get_table_entry m (directory_entry m c) va"

text \<open>A change of page tables: the directory and all memory outside of the tables stay.\<close>

definition tables_only :: "ram \<Rightarrow> addr \<Rightarrow> ram \<Rightarrow> bool" where
  "tables_only m c m' \<longleftrightarrow> directory_entry m' c = directory_entry m c
     \<and> (\<forall>l<1024. table_entry m' (directory_entry m c) l = table_entry m (directory_entry m c) l)
     \<and> (\<forall>a. page_base a \<notin> table_addr m (directory_entry m c) ` {..<1024} \<longrightarrow> m' a = m a)"

lemma tables_only_refl [simp]: "tables_only m c m"
  by (simp add: tables_only_def)

lemma tables_only_trans:
  assumes "tables_only m c m1" "tables_only m1 c m2"
  shows "tables_only m c m2"
proof -
  have "table_addr m1 (directory_entry m c) ` {..<1024} = table_addr m (directory_entry m c) ` {..<1024}"
    using assms(1) unfolding tables_only_def by (intro image_cong) auto
  then show ?thesis using assms unfolding tables_only_def by auto
qed

lemma tables_only_present:
  "tables_only m c m' \<Longrightarrow> present_tables m' (directory_entry m' c) = present_tables m (directory_entry m c)"
  by (simp add: tables_only_def present_tables_def)

lemma tables_only_user:
  "tables_only m c m' \<Longrightarrow> user_tables m' (directory_entry m' c) = user_tables m (directory_entry m c)"
  by (simp add: tables_only_def user_tables_def)

lemma set_table_entry_outside:
  assumes "page_aligned t" "j < 1024" "page_base a \<noteq> t"
  shows "set_table_entry m t j v a = m a"
proof -
  have "page_base (t + 4 * of_nat j + of_nat b) = t" if b: "b < 4" for b
  proof -
    have "unat (4 * of_nat j + of_nat b :: u32) = 4 * j + b"
      using assms(2) b by (simp add: unat_word_ariths unat_of_nat)
    then have "unat (4 * of_nat j + of_nat b :: u32) < 4096" using assms(2) b by simp
    from page_base_in_page [OF assms(1) this] show ?thesis by (simp add: add.assoc)
  qed
  from this [of 0] this [of 1] this [of 2] this [of 3] assms(3) show ?thesis
    by (auto simp: set_table_entry_def store32_def)
qed

lemma paging_set_ok:
  assumes wf: "wf_chunk m c" and al: "page_aligned va"
  obtains m' where "paging_set m (directory_entry m c) va v = (0, m')" "wf_chunk m' c"
    "directory_entry m' c = directory_entry m c"
    "\<And>wa. page_aligned wa \<Longrightarrow> lookup_page m' c wa = (if wa = va then v else lookup_page m c wa)"
    "tables_only m c m'"
proof -
  let ?d = "directory_entry m c"
  let ?m' = "set_table_entry m (table_addr m ?d (dir_index va)) (tab_index va) v"
  have wd: "wf_directory m ?d" and c: "page_aligned c" "c \<noteq> ?d" "c \<notin> table_addr m ?d ` {..<1024}"
    using wf by (auto simp: wf_chunk_def)
  have set: "paging_set m ?d va v = (0, ?m')" using al by (simp add: paging_set_eq)
  have "table_addr m ?d (dir_index va) \<noteq> c" using c(3) by (metis dir_index_less imageI lessThan_iff)
  then have dir: "directory_entry ?m' c = ?d"
    using c(1) by (simp add: directory_entry_eq table_entry_set)
  note look = paging_set_lookup [OF wd al _ set]
  have wd': "wf_directory ?m' ?d" using look(2) [OF al] .
  have "table_addr ?m' ?d l = table_addr m ?d l" if "l < 1024" for l
    by (simp add: table_addr_set [OF wd _ _ that])
  then have "wf_chunk ?m' c" using wd' c by (simp add: wf_chunk_def dir)
  moreover have "tables_only m c ?m'"
    unfolding tables_only_def dir
  proof (intro conjI allI impI)
    fix l :: nat assume "l < 1024"
    then show "table_entry ?m' ?d l = table_entry m ?d l" by (simp add: table_addr_set [OF wd])
  next
    fix a assume "page_base a \<notin> table_addr m ?d ` {..<1024}"
    then have "page_base a \<noteq> table_addr m ?d (dir_index va)" by (metis dir_index_less imageI lessThan_iff)
    then show "?m' a = m a" by (simp add: set_table_entry_outside)
  qed simp
  ultimately show thesis using that [OF set _ dir] by (simp add: dir look(1))
qed

lemma paging_map_ok:
  assumes wf: "wf_chunk m c" and al: "page_aligned va" "page_aligned pa"
  obtains m' where "paging_map m c va pa flags = (0, m')" "wf_chunk m' c"
    "directory_entry m' c = directory_entry m c"
    "\<And>wa. page_aligned wa \<Longrightarrow> lookup_page m' c wa = (if wa = va then pa OR flags else lookup_page m c wa)"
    "tables_only m c m'"
  using paging_set_ok [OF wf al(1), of "pa OR flags"] al by (auto simp: paging_map_def page_aligned_def)

lemma page_offset:
  assumes "page_aligned va" "page_aligned wa"
  shows "unat (wa - va) = 4096 * (unat (wa - va) div 4096)"
proof -
  have "4096 dvd unat (wa - va)"
  proof (cases "va \<le> wa")
    case True
    then show ?thesis using assms by (simp add: page_aligned_unat unat_sub)
  next
    case False
    then have "unat (wa - va) = unat wa + 4294967296 - unat va"
      by (simp add: unat_sub_if' word_le_nat_alt)
    then show ?thesis using assms by (simp add: page_aligned_unat dvd_diff_nat)
  qed
  then show ?thesis by simp
qed

lemma map_range_loop_ok:
  assumes "wf_chunk m c" "page_aligned va" "page_aligned pa" "n \<le> 1048576"
  shows "\<exists>m'. map_range_loop m c va pa flags 0 n = (0, m') \<and> wf_chunk m' c \<and> tables_only m c m'
     \<and> directory_entry m' c = directory_entry m c
     \<and> (\<forall>wa. page_aligned wa \<longrightarrow> lookup_page m' c wa =
          (if unat (wa - va) div 4096 < n then (pa + (wa - va)) OR flags else lookup_page m c wa))"
  using assms
proof (induction n arbitrary: m va pa)
  case (Suc n)
  obtain m1 where m1: "paging_map m c va pa flags = (0, m1)" "wf_chunk m1 c"
    "directory_entry m1 c = directory_entry m c"
    and look: "\<And>wa. page_aligned wa \<Longrightarrow> lookup_page m1 c wa = (if wa = va then pa OR flags else lookup_page m c wa)"
    and only1: "tables_only m c m1"
    using paging_map_ok [OF Suc.prems(1-3), of flags] by blast
  have al: "page_aligned (va + 4096)" "page_aligned (pa + 4096)"
    using Suc.prems(2,3) by (simp_all add: page_aligned_next)
  from Suc.IH [OF m1(2) al] Suc.prems(4) obtain m' where m': "map_range_loop m1 c (va + 4096) (pa + 4096) flags 0 n = (0, m')"
    "wf_chunk m' c" "directory_entry m' c = directory_entry m1 c" "tables_only m1 c m'"
    and rest: "\<And>wa. page_aligned wa \<Longrightarrow> lookup_page m' c wa =
          (if unat (wa - (va + 4096)) div 4096 < n then (pa + 4096 + (wa - (va + 4096))) OR flags
           else lookup_page m1 c wa)"
    by auto
  have "lookup_page m' c wa =
      (if unat (wa - va) div 4096 < Suc n then (pa + (wa - va)) OR flags else lookup_page m c wa)"
    if wa: "page_aligned wa" for wa
  proof (cases "wa = va")
    case True
    have "unat (- 4096 :: u32) div 4096 = 1048575" by simp
    then have "\<not> unat (wa - (va + 4096)) div 4096 < n" using True Suc.prems(4) by simp
    then show ?thesis using rest [OF wa] look [OF wa] True by simp
  next
    case False
    then have "unat (wa - va) \<noteq> 0" by (simp add: unat_eq_zero)
    then have "unat (wa - va) div 4096 \<noteq> 0"
      using page_offset [OF Suc.prems(2) wa] by (metis mult_0_right)
    then have ge: "4096 \<le> unat (wa - va)" by (metis div_less not_less)
    then have "(4096::u32) \<le> wa - va" by (simp add: word_le_nat_alt)
    then have "unat (wa - va - 4096) = unat (wa - va) - 4096" by (simp add: unat_sub)
    then have "unat (wa - (va + 4096)) div 4096 < n \<longleftrightarrow> unat (wa - va) div 4096 < Suc n"
      using ge by (simp add: diff_diff_eq div_if [of "unat (wa - va)" 4096] flip: diff_diff_eq)
    then show ?thesis using rest [OF wa] look [OF wa] False by (simp add: algebra_simps)
  qed
  then show ?case using m' m1 tables_only_trans [OF only1 m'(4)] by auto
qed simp


lemma paging_map_to_ok:
  assumes "wf_chunk m c" "page_aligned va" "page_aligned pa" "page_aligned pe" "pa \<le> pe"
  shows "\<exists>m'. paging_map_to m c va pa pe flags = (0, m') \<and> wf_chunk m' c \<and> tables_only m c m'
     \<and> directory_entry m' c = directory_entry m c
     \<and> (\<forall>wa. page_aligned wa \<longrightarrow> lookup_page m' c wa =
          (if wa - va < pe - pa then (pa + (wa - va)) OR flags else lookup_page m c wa))"
proof -
  let ?n = "unat (pe - pa) div 4096"
  have "?n \<le> 1048576" using unat_less_4G [of "pe - pa"] by (simp add: less_imp_le less_mult_imp_div_less)
  from map_range_loop_ok [OF assms(1-3) this, of flags] obtain m' where
    m': "map_range_loop m c va pa flags 0 ?n = (0, m')" "wf_chunk m' c" "tables_only m c m'"
    "directory_entry m' c = directory_entry m c"
    and look: "\<And>wa. page_aligned wa \<Longrightarrow> lookup_page m' c wa =
          (if unat (wa - va) div 4096 < ?n then (pa + (wa - va)) OR flags else lookup_page m c wa)"
    by blast
  have "nat (uint ((pe - pa) div 4096)) = ?n" by (simp add: unat_div_distrib flip: unat_eq_nat_uint)
  then have "paging_map_to m c va pa pe flags = (0, m')"
    using assms m'(1) by (simp add: paging_map_to_def paging_map_range_def Let_def page_aligned_def not_less)
  moreover have "unat (wa - va) div 4096 < ?n \<longleftrightarrow> wa - va < pe - pa" if "page_aligned wa" for wa
    using page_offset [OF assms(2) that] page_offset [OF assms(3,4)]
    by (simp add: word_less_nat_alt) linarith
  ultimately show ?thesis using m' look by auto
qed

lemma paging_map_to_error:
  "paging_map_to m c va pa pe flags = (- EINVARG, m)"
  if "\<not> (page_aligned va \<and> page_aligned pa \<and> page_aligned pe \<and> pa \<le> pe)"
  using that by (auto simp: paging_map_to_def page_aligned_def not_le)

section \<open>Alignment\<close>

lemma paging_align_to_lower_page_eq: "paging_align_to_lower_page a = page_base a"
proof -
  have "unat (a - a mod 4096) = unat a - unat a mod 4096"
    by (simp add: unat_sub word_le_nat_alt unat_mod_distrib)
  also have "\<dots> = 4096 * (unat a div 4096)" by (simp add: minus_mod_eq_mult_div)
  finally show ?thesis
    by (simp add: paging_align_to_lower_page_def word_unat_eq_iff unat_page_base)
qed

lemma paging_align_address_eq:
  assumes "unat a \<le> 4294963200"
  shows "unat (paging_align_address a) = 4096 * ((unat a + 4095) div 4096)"
    "page_aligned (paging_align_address a)" "a \<le> paging_align_address a"
proof -
  obtain q r where qr: "unat a = 4096 * q + r" "r < 4096"
    by (metis mod_less_divisor mult_div_mod_eq zero_less_numeral)
  have m: "unat (a mod 4096) = r" using qr by (simp add: unat_mod_distrib)
  have z: "a mod 4096 = 0 \<longleftrightarrow> r = 0" using m by (metis unat_eq_zero)
  have u: "unat (paging_align_address a) = (if r = 0 then 4096 * q else 4096 * (q + 1))"
  proof (cases "r = 0")
    case False
    have "unat (a + 4096 - a mod 4096) = 4096 * q + 4096"
    proof (cases "unat a + 4096 < 4294967296")
      case True
      then have "unat (a + 4096) = unat a + 4096" by (simp add: unat_word_ariths(1))
      moreover from this have "a mod 4096 \<le> a + 4096" using m qr(2) by (simp add: word_le_nat_alt)
      ultimately show ?thesis using m qr by (simp add: unat_sub)
    next
      case over: False
      then have a: "unat a = 4294963200" using assms by simp
      have "r = unat a mod 4096" using qr by simp
      then show ?thesis using a False by simp
    qed
    with False z show ?thesis by (simp add: paging_align_address_def)
  qed (use z qr in \<open>simp add: paging_align_address_def\<close>)
  have "(4096 * q + r + 4095) div 4096 = (if r = 0 then q else q + 1)"
    using qr(2) by (auto intro!: div_nat_eqI)
  then show *: "unat (paging_align_address a) = 4096 * ((unat a + 4095) div 4096)"
    using u qr(1) by simp
  then show "page_aligned (paging_align_address a)" by (simp add: page_aligned_unat)
  show "a \<le> paging_align_address a" using u qr by (auto simp: word_le_nat_alt)
qed

end
