(* ===== verification/Gdt.thy ===== *)
theory Gdt
  imports Prelude
begin

text \<open>
  The encoding of segment descriptors, \<^verbatim>\<open>src/gdt/gdt.c\<close>, with the decoding the processor applies
  (its documented descriptor format) as the specification.  \<^verbatim>\<open>panic\<close> prints its message and
  never returns: the result \<open>Inl\<close> of the message.
\<close>

section \<open>The code\<close>

record gdt_structured =
  gs_base :: u32
  gs_limit :: u32
  gs_access_byte :: byte

definition encode_gdt_entry :: "gdt_structured \<Rightarrow> string + cbuf" where
  "encode_gdt_entry inp =
     (if gs_limit inp > 65536 \<and> gs_limit inp AND 0xFFF \<noteq> 0xFFF
      then Inl (''encode_gdt_entry: Invalid Argument'' @ [CHR 0x0A])
      else
        let out6 = 0x40;
            (limit, out6) = (if gs_limit inp > 65536 then (drop_bit 12 (gs_limit inp), 0xC0)
                             else (gs_limit inp, out6));
            base = gs_base inp
        in Inr [ucast (limit AND 0xFF), ucast (drop_bit 8 limit AND 0xFF),
                ucast (base AND 0xFF), ucast (drop_bit 8 base AND 0xFF), ucast (drop_bit 16 base AND 0xFF),
                gs_access_byte inp, out6 OR ucast (drop_bit 16 limit AND 0x0F),
                ucast (drop_bit 24 base AND 0xFF)])"

text \<open>The table, entry by entry, into the bytes of the packed array.\<close>

primrec gdt_structured_to_gdt :: "gdt_structured list \<Rightarrow> string + cbuf" where
  "gdt_structured_to_gdt [] = Inr []"
| "gdt_structured_to_gdt (g # gs) =
     (case encode_gdt_entry g of
        Inl msg \<Rightarrow> Inl msg
      | Inr bs \<Rightarrow> (case gdt_structured_to_gdt gs of Inl msg \<Rightarrow> Inl msg | Inr rest \<Rightarrow> Inr (bs @ rest)))"

text \<open>The kernel's table (\<^verbatim>\<open>src/kernel.c\<close>); the TSS lies at \<open>tss\<close> and has 100 bytes.\<close>

definition kernel_gdt :: "addr \<Rightarrow> gdt_structured list" where
  "kernel_gdt tss = [
     \<lparr>gs_base = 0, gs_limit = 0, gs_access_byte = 0\<rparr>,
     \<lparr>gs_base = 0, gs_limit = 0xFFFFFFFF, gs_access_byte = 0x9A\<rparr>,
     \<lparr>gs_base = 0, gs_limit = 0xFFFFFFFF, gs_access_byte = 0x92\<rparr>,
     \<lparr>gs_base = 0, gs_limit = 0xFFFFFFFF, gs_access_byte = 0xF8\<rparr>,
     \<lparr>gs_base = 0, gs_limit = 0xFFFFFFFF, gs_access_byte = 0xF2\<rparr>,
     \<lparr>gs_base = tss, gs_limit = 100, gs_access_byte = 0xE9\<rparr>]"

section \<open>What the processor reads\<close>

definition desc_base :: "cbuf \<Rightarrow> u32" where
  "desc_base d = ucast (d ! 2) OR push_bit 8 (ucast (d ! 3)) OR push_bit 16 (ucast (d ! 4))
     OR push_bit 24 (ucast (d ! 7))"

text \<open>The 20-bit limit, in bytes, or in pages of which the last byte counts.\<close>

definition desc_limit :: "cbuf \<Rightarrow> u32" where
  "desc_limit d =
     (let l = ucast (d ! 0) OR push_bit 8 (ucast (d ! 1)) OR push_bit 16 (ucast (d ! 6 AND 0x0F))
      in if bit (d ! 6) 7 then push_bit 12 l OR 0xFFF else l)"

definition desc_access :: "cbuf \<Rightarrow> byte" where "desc_access d = d ! 5"

text \<open>32-bit segment: bit 6 of byte 6 set, bits 5 and 4 clear.\<close>

definition desc_is_32bit :: "cbuf \<Rightarrow> bool" where
  "desc_is_32bit d \<longleftrightarrow> d ! 6 AND 0x70 = 0x40"

section \<open>The processor reads what was encoded\<close>

definition representable :: "u32 \<Rightarrow> bool" where
  "representable l \<longleftrightarrow> l \<le> 65536 \<or> l AND 0xFFF = 0xFFF"

lemma mask_words:
  "(0xFF :: u32) = mask 8" "(0x0F :: u32) = mask 4" "(0x0F :: byte) = mask 4" "(0xFFF :: u32) = mask 12"
  by (simp_all add: mask_eq_exp_minus_1)

lemma base_bytes:
  "(ucast (ucast (b AND 0xFF) :: byte) OR push_bit 8 (ucast (ucast (drop_bit 8 b AND 0xFF) :: byte))
     OR push_bit 16 (ucast (ucast (drop_bit 16 b AND 0xFF) :: byte))
     OR push_bit 24 (ucast (ucast (drop_bit 24 b AND 0xFF) :: byte))) = (b :: u32)"
proof (rule bit_word_eqI)
  fix n assume "n < LENGTH(32)"
  then consider "n < 8" | "8 \<le> n" "n < 16" | "16 \<le> n" "n < 24" | "24 \<le> n" "n < 32" by fastforce
  then show "bit (ucast (ucast (b AND 0xFF) :: byte) OR push_bit 8 (ucast (ucast (drop_bit 8 b AND 0xFF) :: byte))
     OR push_bit 16 (ucast (ucast (drop_bit 16 b AND 0xFF) :: byte))
     OR push_bit 24 (ucast (ucast (drop_bit 24 b AND 0xFF) :: byte)) :: u32) n = bit b n"
    unfolding mask_words by cases (auto simp: bit_simps)
qed

definition limit_of_bytes :: "byte \<Rightarrow> byte \<Rightarrow> byte \<Rightarrow> u32" where
  "limit_of_bytes a b c = ucast a OR push_bit 8 (ucast b) OR push_bit 16 (ucast (c AND 0x0F))"

lemma limit_bytes:
  assumes "f = 0x40 \<or> f = 0xC0"
  shows "limit_of_bytes (ucast (l AND 0xFF)) (ucast (drop_bit 8 l AND 0xFF))
     (f OR ucast (drop_bit 16 l AND 0x0F)) = take_bit 20 l"
proof (rule bit_word_eqI)
  fix n assume "n < LENGTH(32)"
  have "f AND 0x0F = 0" using assms by auto
  then have "\<not> bit (f AND mask 4) k" for k by (simp add: mask_words)
  then have f: "\<not> bit f k" if "k < 4" for k
  proof -
    have "k < LENGTH(8)" using that by simp
    then show ?thesis using \<open>\<And>k. \<not> bit (f AND mask 4) k\<close> [of k] that by (simp add: bit_and_iff bit_mask_iff)
  qed
  consider "n < 8" | "8 \<le> n" "n < 16" | "16 \<le> n" "n < 20" | "20 \<le> n" "n < 32"
    using \<open>n < LENGTH(32)\<close> by fastforce
  then show "bit (limit_of_bytes (ucast (l AND 0xFF)) (ucast (drop_bit 8 l AND 0xFF))
     (f OR ucast (drop_bit 16 l AND 0x0F))) n = bit (take_bit 20 l) n"
    unfolding mask_words limit_of_bytes_def
    by cases (auto simp: bit_simps f)
qed

lemma encode_gdt_entry_panics:
  "\<not> representable (gs_limit g) \<Longrightarrow>
     encode_gdt_entry g = Inl (''encode_gdt_entry: Invalid Argument'' @ [CHR 0x0A])"
  by (simp add: encode_gdt_entry_def representable_def not_le)

lemma take_bit_small: "l \<le> 65536 \<Longrightarrow> take_bit 20 l = l" for l :: u32
proof -
  assume "l \<le> 65536"
  then have "unat l \<le> 65536" using word_le_nat_alt [of l 65536] by simp
  then have "take_bit 20 (unat l) = unat l" by (simp add: take_bit_nat_eq_self_iff)
  then show ?thesis by (metis unsigned_take_bit_eq word_unat_eq_iff nat_le_linear unsigned_take_bit_eq)
qed

lemma take_bit_pages: "take_bit 20 (drop_bit 12 l) = drop_bit 12 (l :: u32)"
  by (rule bit_word_eqI) (auto simp: bit_simps dest: bit_imp_le_length)

lemma page_limit:
  assumes "l AND 0xFFF = (0xFFF :: u32)"
  shows "push_bit 12 (drop_bit 12 l) OR 0xFFF = l"
proof (rule bit_word_eqI)
  fix n assume "n < LENGTH(32)"
  have "bit (l AND mask 12) n = bit (mask 12 :: u32) n" using assms by (simp add: mask_words)
  then show "bit (push_bit 12 (drop_bit 12 l) OR 0xFFF) n = bit l n"
    using \<open>n < LENGTH(32)\<close> unfolding mask_words by (cases "n < 12") (auto simp: bit_simps)
qed

lemma flag_bits:
  assumes "f = 0x40 \<or> f = 0xC0"
  shows "(f OR ucast (l AND 0x0F :: u32)) AND 0x70 = (0x40 :: byte)"
    and "bit (f OR ucast (l AND 0x0F :: u32) :: byte) 7 \<longleftrightarrow> f = 0xC0"
proof -
  have h: "(0x70 :: byte) = push_bit 4 (mask 3)" by (simp add: mask_eq_exp_minus_1)
  have "ucast (l AND 0x0F) AND (0x70 :: byte) = 0"
    unfolding h mask_words by (rule bit_word_eqI) (auto simp: bit_simps)
  then show "(f OR ucast (l AND 0x0F :: u32)) AND 0x70 = (0x40 :: byte)"
    using assms by (auto simp: bit.conj_disj_distrib2)
  have "(0x80 :: byte) = push_bit 7 1" by simp
  then have "bit f 7 \<longleftrightarrow> f = 0xC0" using assms by (auto simp: bit_iff_and_push_bit_not_eq_0)
  moreover have "\<not> bit (ucast (l AND 0x0F :: u32) :: byte) 7"
    unfolding mask_words by (simp add: bit_simps)
  ultimately show "bit (f OR ucast (l AND 0x0F :: u32) :: byte) 7 \<longleftrightarrow> f = 0xC0"
    by (simp add: bit_or_iff)
qed

text \<open>The bytes for a 20-bit limit field, the base, the access byte and the flags.\<close>

definition descriptor :: "byte \<Rightarrow> u32 \<Rightarrow> u32 \<Rightarrow> byte \<Rightarrow> cbuf" where
  "descriptor f l base a = [ucast (l AND 0xFF), ucast (drop_bit 8 l AND 0xFF),
     ucast (base AND 0xFF), ucast (drop_bit 8 base AND 0xFF), ucast (drop_bit 16 base AND 0xFF),
     a, f OR ucast (drop_bit 16 l AND 0x0F), ucast (drop_bit 24 base AND 0xFF)]"

lemma descriptor_fields:
  assumes "f = 0x40 \<or> f = 0xC0"
  shows "length (descriptor f l b a) = 8" "desc_base (descriptor f l b a) = b"
    "desc_access (descriptor f l b a) = a" "desc_is_32bit (descriptor f l b a)"
    "desc_limit (descriptor f l b a) = (if f = 0xC0 then push_bit 12 (take_bit 20 l) OR 0xFFF else take_bit 20 l)"
  using base_bytes [of b] flag_bits [OF assms, of "drop_bit 16 l"] limit_bytes [OF assms, of l]
  by (simp_all add: descriptor_def desc_base_def desc_access_def desc_is_32bit_def desc_limit_def
      limit_of_bytes_def Let_def)

text \<open>The base, the limit in bytes and the access byte come back, for every limit that is accepted.\<close>

lemma encode_gdt_entry_ok:
  assumes "representable (gs_limit g)"
  shows "\<exists>d. encode_gdt_entry g = Inr d \<and> length d = 8 \<and> desc_base d = gs_base g
    \<and> desc_limit d = gs_limit g \<and> desc_access d = gs_access_byte g \<and> desc_is_32bit d"
proof (cases "gs_limit g > 65536")
  case True
  then have m: "gs_limit g AND 0xFFF = 0xFFF" using assms by (auto simp: representable_def)
  have "encode_gdt_entry g = Inr (descriptor 0xC0 (drop_bit 12 (gs_limit g)) (gs_base g) (gs_access_byte g))"
    using True m by (simp add: encode_gdt_entry_def descriptor_def Let_def)
  then show ?thesis
    using descriptor_fields [of "0xC0" "drop_bit 12 (gs_limit g)" "gs_base g" "gs_access_byte g"]
    by (simp add: take_bit_pages page_limit [OF m])
next
  case False
  have "encode_gdt_entry g = Inr (descriptor 0x40 (gs_limit g) (gs_base g) (gs_access_byte g))"
    using False by (simp add: encode_gdt_entry_def descriptor_def Let_def)
  moreover have "take_bit 20 (gs_limit g) = gs_limit g" using False by (intro take_bit_small) simp
  ultimately show ?thesis
    using descriptor_fields [of "0x40" "gs_limit g" "gs_base g" "gs_access_byte g"] by simp
qed

text \<open>A whole table: entry \<open>i\<close> occupies the bytes \<open>8 i .. 8 i + 7\<close>.\<close>

definition gdt_entry_ok :: "gdt_structured \<Rightarrow> cbuf \<Rightarrow> bool" where
  "gdt_entry_ok g d \<longleftrightarrow> desc_base d = gs_base g \<and> desc_limit d = gs_limit g
     \<and> desc_access d = gs_access_byte g \<and> desc_is_32bit d"

lemma gdt_structured_to_gdt_ok:
  assumes "\<forall>g \<in> set gs. representable (gs_limit g)"
  shows "\<exists>bs. gdt_structured_to_gdt gs = Inr bs \<and> length bs = 8 * length gs
    \<and> (\<forall>i<length gs. gdt_entry_ok (gs ! i) (take 8 (drop (8 * i) bs)))"
  using assms
proof (induction gs)
  case (Cons g gs)
  obtain d where d: "encode_gdt_entry g = Inr d" "length d = 8" "gdt_entry_ok g d"
    using encode_gdt_entry_ok [of g] Cons.prems by (auto simp: gdt_entry_ok_def)
  obtain bs where bs: "gdt_structured_to_gdt gs = Inr bs" "length bs = 8 * length gs"
    "\<forall>i<length gs. gdt_entry_ok (gs ! i) (take 8 (drop (8 * i) bs))"
    using Cons by auto
  have "gdt_entry_ok ((g # gs) ! i) (take 8 (drop (8 * i) (d @ bs)))" if "i < length (g # gs)" for i
    using that d(2,3) bs(3) by (cases i) auto
  then show ?case using d bs by auto
qed simp

lemma kernel_gdt_ok:
  "\<exists>bs. gdt_structured_to_gdt (kernel_gdt tss) = Inr bs \<and> length bs = 48
    \<and> (\<forall>i<6. gdt_entry_ok (kernel_gdt tss ! i) (take 8 (drop (8 * i) bs)))"
proof -
  have "length (kernel_gdt tss) = 6" "\<forall>g \<in> set (kernel_gdt tss). representable (gs_limit g)"
    by (simp_all add: kernel_gdt_def representable_def)
  then show ?thesis using gdt_structured_to_gdt_ok [of "kernel_gdt tss"] by simp
qed

end
