(* ===== verification/Display.thy ===== *)
theory Display
  imports CString
begin

text \<open>
  The text terminal, \<^verbatim>\<open>src/display/display.c\<close>.  The video memory is the function of its cells;
  like the code, a write tests no bound.  A row number at or above 25 lies beyond the cells the
  screen shows.
\<close>

section \<open>The code\<close>

definition VGA_WIDTH :: u16 where [simp]: "VGA_WIDTH = 80"
definition VGA_HEIGHT :: nat where [simp]: "VGA_HEIGHT = 20"

record terminal =
  video_mem :: "nat \<Rightarrow> u16"
  terminal_current_row :: u16
  terminal_current_col :: u16

text \<open>Both characters are signed and promoted to \<^verbatim>\<open>int\<close>.\<close>

definition terminal_make_char :: "byte \<Rightarrow> byte \<Rightarrow> u16" where
  "terminal_make_char c colour = push_bit 8 (scast colour) OR scast c"

definition terminal_putchar :: "terminal \<Rightarrow> nat \<Rightarrow> nat \<Rightarrow> byte \<Rightarrow> byte \<Rightarrow> terminal" where
  "terminal_putchar t x y c colour =
     t\<lparr>video_mem := (video_mem t)(y * 80 + x := terminal_make_char c colour)\<rparr>"

function terminal_backspace :: "terminal \<Rightarrow> terminal"
  and terminal_default_putchar :: "terminal \<Rightarrow> byte \<Rightarrow> byte \<Rightarrow> terminal" where
  "terminal_backspace t =
     (if terminal_current_row t = 0 \<and> terminal_current_col t = 0 then t
      else
        let t = (if terminal_current_col t = 0
                 then t\<lparr>terminal_current_row := terminal_current_row t - 1, terminal_current_col := VGA_WIDTH\<rparr>
                 else t);
            t = t\<lparr>terminal_current_col := terminal_current_col t - 1\<rparr>;
            t = terminal_default_putchar t 0x20 15
        in t\<lparr>terminal_current_col := terminal_current_col t - 1\<rparr>)"
| "terminal_default_putchar t c colour =
     (if c = 0x0A then t\<lparr>terminal_current_row := terminal_current_row t + 1, terminal_current_col := 0\<rparr>
      else if c = 0x08 then terminal_backspace t
      else
        let t = terminal_putchar t (unat (terminal_current_col t)) (unat (terminal_current_row t)) c colour;
            t = t\<lparr>terminal_current_col := terminal_current_col t + 1\<rparr>
        in if terminal_current_col t \<ge> VGA_WIDTH
           then t\<lparr>terminal_current_col := 0, terminal_current_row := terminal_current_row t + 1\<rparr>
           else t)"
  by pat_completeness auto
termination
  by (relation "measure (\<lambda>x. case x of Inl t \<Rightarrow> 1 | Inr (t, c, colour) \<Rightarrow> if c = 0x08 then 2 else 0)") auto

declare terminal_backspace.simps [simp del] terminal_default_putchar.simps [simp del]

primrec print_loop :: "terminal \<Rightarrow> cbuf \<Rightarrow> nat \<Rightarrow> terminal" where
  "print_loop t str 0 = t"
| "print_loop t str (Suc n) = print_loop (terminal_default_putchar t (hd str) 15) (tl str) n"

definition terminal_print :: "terminal \<Rightarrow> cbuf \<Rightarrow> terminal option" where
  "terminal_print t str = do { len \<leftarrow> strlen str; Some (print_loop t str len) }"

definition terminal_initialize :: "terminal \<Rightarrow> terminal" where
  "terminal_initialize t =
     fold (\<lambda>y t. fold (\<lambda>x t. terminal_putchar t x y 0x20 0) [0..<80] t) [0..<VGA_HEIGHT] t"

section \<open>The screen as a stream of cells\<close>

text \<open>
  The cursor as a cell number, for a cursor within the line.  Printing a character that is
  neither a newline nor a backspace writes the cell under the cursor and moves to the next one.
\<close>

definition cursor :: "terminal \<Rightarrow> nat" where
  "cursor t = unat (terminal_current_row t) * 80 + unat (terminal_current_col t)"

definition cursor_ok :: "terminal \<Rightarrow> bool" where
  "cursor_ok t \<longleftrightarrow> terminal_current_col t < 80"

definition plain :: "byte \<Rightarrow> bool" where
  "plain c \<longleftrightarrow> c \<noteq> 0x0A \<and> c \<noteq> 0x08"

lemma unat_inc_col: "c < 80 \<Longrightarrow> unat (c + 1 :: u16) = unat c + 1"
  using word_less_nat_alt [of c 80] by (simp add: unat_word_ariths(1))

lemma unat_inc_row: "unat r < 65535 \<Longrightarrow> unat (r + 1 :: u16) = unat r + 1"
  by (simp add: unat_word_ariths(1))

lemma putchar_plain:
  assumes "plain c" "cursor_ok t" "unat (terminal_current_row t) < 65535"
  shows "video_mem (terminal_default_putchar t c col) = (video_mem t)(cursor t := terminal_make_char c col)"
    "cursor (terminal_default_putchar t c col) = cursor t + 1"
    "cursor_ok (terminal_default_putchar t c col)"
    "unat (terminal_current_row (terminal_default_putchar t c col)) \<le> unat (terminal_current_row t) + 1"
proof -
  let ?c = "terminal_current_col t"
  have c: "unat ?c < 80" using assms(2) word_less_nat_alt [of ?c 80] by (simp add: cursor_ok_def)
  have u: "unat (?c + 1) = unat ?c + 1" using assms(2) by (simp add: cursor_ok_def unat_inc_col)
  have ge: "80 \<le> ?c + 1 \<longleftrightarrow> unat ?c = 79" using word_le_nat_alt [of 80 "?c + 1"] u c by auto
  have less: "?c + 1 < 80 \<longleftrightarrow> unat ?c \<noteq> 79" using ge by (simp add: not_le [symmetric])
  show "video_mem (terminal_default_putchar t c col) = (video_mem t)(cursor t := terminal_make_char c col)"
    using assms(1) by (simp add: terminal_default_putchar.simps plain_def terminal_putchar_def cursor_def Let_def)
  show "cursor (terminal_default_putchar t c col) = cursor t + 1" "cursor_ok (terminal_default_putchar t c col)"
    "unat (terminal_current_row (terminal_default_putchar t c col)) \<le> unat (terminal_current_row t) + 1"
    using assms(1) u ge less unat_inc_row [OF assms(3)]
    by (auto simp: terminal_default_putchar.simps plain_def terminal_putchar_def cursor_def cursor_ok_def Let_def)
qed

text \<open>Printing a text without control characters fills the cells from the cursor on.\<close>

lemma no_cell [simp]: "(a \<le> i \<and> i < (a::nat)) = False"
  by auto

lemma print_loop_plain:
  assumes "\<forall>c \<in> set s. plain c" "cursor_ok t" "unat (terminal_current_row t) + length s \<le> 65535"
  shows "let t' = print_loop t (s @ r) (length s) in
     cursor t' = cursor t + length s \<and> cursor_ok t'
     \<and> video_mem t' = (\<lambda>i. if cursor t \<le> i \<and> i < cursor t + length s
           then terminal_make_char (s ! (i - cursor t)) 15 else video_mem t i)"
  using assms
proof (induction s arbitrary: t)
  case Nil
  then show ?case by (simp add: Let_def)
next
  case (Cons c s)
  let ?t = "terminal_default_putchar t c 15"
  have c: "plain c" "cursor_ok t" "unat (terminal_current_row t) < 65535" using Cons.prems by simp_all
  note p = putchar_plain [OF c, of 15]
  have "let t' = print_loop ?t (s @ r) (length s) in
     cursor t' = cursor ?t + length s \<and> cursor_ok t'
     \<and> video_mem t' = (\<lambda>i. if cursor ?t \<le> i \<and> i < cursor ?t + length s
           then terminal_make_char (s ! (i - cursor ?t)) 15 else video_mem ?t i)"
    using Cons.prems p(3,4) by (intro Cons.IH) auto
  then show ?case
    unfolding Let_def p(1,2) by (auto simp: fun_eq_iff nth_Cons')
qed

lemma terminal_print_plain:
  assumes "\<forall>c \<in> set s. plain c" "0 \<notin> set s" "cursor_ok t" "unat (terminal_current_row t) + length s \<le> 65535"
  shows "\<exists>t'. terminal_print t (s @ 0 # r) = Some t' \<and> cursor t' = cursor t + length s \<and> cursor_ok t'
     \<and> video_mem t' = (\<lambda>i. if cursor t \<le> i \<and> i < cursor t + length s
           then terminal_make_char (s ! (i - cursor t)) 15 else video_mem t i)"
proof -
  have "strlen (s @ 0 # r) = Some (length s)" using assms(2) by (induction s) auto
  then show ?thesis
    using print_loop_plain [OF assms(1,3,4), of "0 # r"] by (simp add: terminal_print_def Let_def)
qed

section \<open>Line breaks\<close>

text \<open>The screen does not scroll: line breaks move the cursor down, past the last line too.\<close>

lemma print_loop_newlines:
  "print_loop t (replicate n 0x0A @ s) (n + m) =
     print_loop (if n = 0 then t else t\<lparr>terminal_current_row := terminal_current_row t + of_nat n, terminal_current_col := 0\<rparr>) s m"
proof (induction n arbitrary: t)
  case (Suc n)
  have "terminal_default_putchar t 0x0A 15 = t\<lparr>terminal_current_row := terminal_current_row t + 1, terminal_current_col := 0\<rparr>"
    by (simp add: terminal_default_putchar.simps)
  then show ?case using Suc [of "terminal_default_putchar t 0x0A 15"] by (simp add: add.assoc)
qed simp

section \<open>Backspace\<close>

text \<open>Within a line a backspace goes one cell back and blanks it.\<close>

lemma backspace_in_line:
  assumes "cursor_ok t" "terminal_current_col t \<noteq> 0"
  shows "terminal_backspace t = t\<lparr>terminal_current_col := terminal_current_col t - 1,
    video_mem := (video_mem t)(cursor t - 1 := terminal_make_char 0x20 15)\<rparr>"
proof -
  let ?c = "terminal_current_col t"
  have c: "0 < unat ?c" "unat ?c < 80"
    using assms word_less_nat_alt [of ?c 80] by (simp_all add: cursor_ok_def unat_gt_0)
  have u: "unat (?c - 1) = unat ?c - 1" using c by (simp add: unat_minus_one unat_gt_0)
  have "\<not> 80 \<le> ?c" using assms(1) by (simp add: cursor_ok_def)
  then show ?thesis
    using assms c u by (simp add: terminal_backspace.simps terminal_default_putchar.simps terminal_putchar_def
        cursor_def Let_def)
qed

text \<open>At the start of a line the blank wraps the column, and the cursor leaves the line.\<close>

lemma backspace_at_line_start:
  assumes "terminal_current_col t = 0" "terminal_current_row t \<noteq> 0"
  shows "terminal_backspace t = t\<lparr>terminal_current_col := 0xFFFF,
    video_mem := (video_mem t)(unat (terminal_current_row t - 1) * 80 + 79 := terminal_make_char 0x20 15)\<rparr>"
  using assms
  by (simp add: terminal_backspace.simps terminal_default_putchar.simps terminal_putchar_def Let_def)

text \<open>So the character typed next is written far from the screen's cells.\<close>

lemma putchar_after_backspace_at_line_start:
  assumes "terminal_current_col t = 0" "terminal_current_row t \<noteq> 0" "plain c"
  shows "let t' = terminal_default_putchar (terminal_default_putchar t 0x08 15) c 15 in
     video_mem t' (unat (terminal_current_row t) * 80 + 65535) = terminal_make_char c 15
     \<and> terminal_current_col t' = 0 \<and> terminal_current_row t' = terminal_current_row t"
  using assms
  by (simp add: terminal_default_putchar.simps [of t] backspace_at_line_start plain_def
      terminal_default_putchar.simps [of _ c] terminal_putchar_def Let_def)

text \<open>A plain character and a backspace cancel out, but for the blanked cell.\<close>

lemma putchar_backspace:
  assumes "plain c" "terminal_current_col t < 79"
  shows "terminal_default_putchar (terminal_default_putchar t c 15) 0x08 15 =
    t\<lparr>video_mem := (video_mem t)(cursor t := terminal_make_char 0x20 15)\<rparr>"
proof -
  let ?c = "terminal_current_col t" and ?t = "terminal_default_putchar t c 15"
  have c: "unat ?c < 79" using assms(2) word_less_nat_alt [of ?c 79] by simp
  then have c80: "?c < 80" using word_less_nat_alt [of ?c 80] by simp
  then have u: "unat (?c + 1) = unat ?c + 1" by (rule unat_inc_col)
  then have l: "?c + 1 < 80" "?c + 1 \<noteq> 0" using c word_less_nat_alt [of "?c + 1" 80] by auto
  have t: "?t = t\<lparr>terminal_current_col := ?c + 1, video_mem := (video_mem t)(cursor t := terminal_make_char c 15)\<rparr>"
    using assms(1) l(1) by (simp add: terminal_default_putchar.simps plain_def terminal_putchar_def cursor_def Let_def not_le)
  have "terminal_default_putchar ?t 0x08 15 = terminal_backspace ?t" by (subst terminal_default_putchar.simps) simp
  also have "\<dots> = ?t\<lparr>terminal_current_col := ?c, video_mem := (video_mem ?t)(cursor t := terminal_make_char 0x20 15)\<rparr>"
    using backspace_in_line [of ?t] t l u by (simp add: cursor_ok_def cursor_def)
  finally show ?thesis unfolding t by simp
qed

section \<open>Initialisation\<close>

lemma terminal_row_clear:
  "fold (\<lambda>x t. terminal_putchar t x y 0x20 0) [0..<n] t =
     t\<lparr>video_mem := (\<lambda>i. if y * 80 \<le> i \<and> i < y * 80 + n then terminal_make_char 0x20 0 else video_mem t i)\<rparr>"
  by (induction n) (auto simp: terminal_putchar_def fun_eq_iff)

lemma terminal_initialize_eq:
  "terminal_initialize t = t\<lparr>video_mem := (\<lambda>i. if i < 1600 then 0x20 else video_mem t i)\<rparr>"
proof -
  have f: "fold (\<lambda>y t. fold (\<lambda>x t. terminal_putchar t x y 0x20 0) [0..<80] t) [0..<m] t =
     t\<lparr>video_mem := (\<lambda>i. if i < m * 80 then terminal_make_char 0x20 0 else video_mem t i)\<rparr>" for m
    by (induction m) (auto simp: terminal_row_clear fun_eq_iff)
  have b: "terminal_make_char 0x20 0 = 0x20" by code_simp
  show ?thesis unfolding terminal_initialize_def VGA_HEIGHT_def f b by simp
qed

text \<open>A character with its top bit set overwrites its colour with ones.\<close>

lemma make_char_colour:
  "terminal_make_char c 15 = (if 0 \<le> sint c then 0x0F00 OR ucast c else 0xFF00 OR ucast c)"
proof (rule bit_word_eqI)
  fix n assume n: "n < LENGTH(16)"
  have m: "(0x0F00 :: u16) = push_bit 8 (mask 4)" "(0xFF00 :: u16) = push_bit 8 (mask 8)"
    "scast (15 :: byte) = (mask 4 :: u16)" "mask 4 = (15 :: u16)"
    by (simp_all add: mask_eq_exp_minus_1)
  have s: "0 \<le> sint c \<longleftrightarrow> \<not> bit c 7" using bit_last_iff [of c] by auto
  show "bit (terminal_make_char c 15) n = bit (if 0 \<le> sint c then 0x0F00 OR ucast c else 0xFF00 OR ucast c :: u16) n"
  proof (cases "n < 8")
    case True
    then have "min 7 n = n" by simp
    then show ?thesis using True n unfolding terminal_make_char_def m(1-3)
      by (auto simp: bit_or_iff bit_push_bit_iff bit_signed_iff bit_unsigned_iff)
  next
    case False
    then have "min 7 n = 7" by simp
    moreover have "\<not> bit c n" using False bit_imp_le_length [of c n] by auto
    ultimately show ?thesis using False n s unfolding terminal_make_char_def m(1-3)
      by (auto simp: bit_or_iff bit_push_bit_iff bit_signed_iff bit_unsigned_iff bit_mask_iff)
  qed
qed

end
