(* ===== verification/Keyboard.thy ===== *)
theory Keyboard
  imports Prelude
begin

text \<open>
  The key buffer of a process (\<^verbatim>\<open>src/keyboard/keyboard.c\<close>, \<^verbatim>\<open>struct keyboard_buffer\<close> of
  \<^verbatim>\<open>src/task/process.h\<close>) and the scan-code table (\<^verbatim>\<open>src/keyboard/qwerty.c\<close>).  The buffer
  implements the contract of a queue, the locale \<open>byte_queue\<close>.
\<close>

section \<open>The buffer\<close>

definition RASOS_KEYBOARD_BUFFER_SIZE :: int where [simp]: "RASOS_KEYBOARD_BUFFER_SIZE = 1024"

record keyboard_buffer =
  kb_buffer :: cbuf
  kb_tail :: int
  kb_head :: int

definition empty_keyboard :: keyboard_buffer where
  "empty_keyboard = \<lparr>kb_buffer = replicate 1024 0, kb_tail = 0, kb_head = 0\<rparr>"

definition keyboard_backspace :: "keyboard_buffer \<Rightarrow> keyboard_buffer" where
  "keyboard_backspace k =
     (let k = k\<lparr>kb_tail := kb_tail k - 1\<rparr>;
          k = (if kb_tail k < 0 then k\<lparr>kb_tail := 0\<rparr> else k)
      in k\<lparr>kb_buffer := (kb_buffer k)[nat (kb_tail k) := 0]\<rparr>)"

text \<open>\<^verbatim>\<open>keyboard_push\<close> and \<^verbatim>\<open>keyboard_pop\<close> once the process is known.\<close>

definition push_key :: "keyboard_buffer \<Rightarrow> byte \<Rightarrow> keyboard_buffer" where
  "push_key k c =
     (if c = 0 then k
      else
        let k = k\<lparr>kb_buffer := (kb_buffer k)[nat (kb_tail k) := c]\<rparr>;
            k = k\<lparr>kb_tail := kb_tail k + 1\<rparr>
        in if kb_tail k \<ge> RASOS_KEYBOARD_BUFFER_SIZE then k\<lparr>kb_tail := 0\<rparr> else k)"

definition pop_key :: "keyboard_buffer \<Rightarrow> byte \<times> keyboard_buffer" where
  "pop_key k =
     (let ch = kb_buffer k ! nat (kb_head k);
          k = k\<lparr>kb_buffer := (kb_buffer k)[nat (kb_head k) := 0]\<rparr>;
          k = k\<lparr>kb_head := kb_head k + 1\<rparr>;
          k = (if kb_head k \<ge> RASOS_KEYBOARD_BUFFER_SIZE then k\<lparr>kb_head := 0\<rparr> else k)
      in (ch, k))"

section \<open>Scan codes\<close>

definition keyboard_scan_set_one :: cbuf where
  "keyboard_scan_set_one = [
     0x00, 0x1B, 49, 50, 51, 52, 53,
     54, 55, 56, 57, 48, 45, 61,
     0x08, 9, 81, 87, 69, 82, 84,
     89, 85, 73, 79, 80, 91, 93,
     0x0D, 0x00, 65, 83, 68, 70, 71,
     72, 74, 75, 76, 59, 39, 96,
     0x00, 92, 90, 88, 67, 86, 66,
     78, 77, 44, 46, 47, 0x00, 42,
     0x00, 0x20, 0x00, 0x00, 0x00, 0x00,
     0x00, 0x00, 0x00, 0x00, 0x00, 0x00,
     0x00, 55, 56, 57, 45, 52, 53,
     54, 43, 49, 50, 51, 48, 46]"

text \<open>The bound test lets one index past the table through: \<open>None\<close>.\<close>

definition qwerty_keyboard_scancode_to_char :: "byte \<Rightarrow> byte option" where
  "qwerty_keyboard_scancode_to_char scancode =
     (if unat scancode > length keyboard_scan_set_one then Some 0
      else if unat scancode < length keyboard_scan_set_one then Some (keyboard_scan_set_one ! unat scancode)
      else None)"

section \<open>The contract of a queue of characters\<close>

locale byte_queue =
  fixes push :: "'b \<Rightarrow> byte \<Rightarrow> 'b"
    and pop :: "'b \<Rightarrow> byte \<times> 'b"
    and holds :: "'b \<Rightarrow> byte list \<Rightarrow> bool"
    and cap :: nat
  assumes push_holds: "holds b q \<Longrightarrow> c \<noteq> 0 \<Longrightarrow> length q < cap \<Longrightarrow> holds (push b c) (q @ [c])"
    and pop_holds: "holds b (c # q) \<Longrightarrow> \<exists>b'. pop b = (c, b') \<and> holds b' q"
begin

primrec pushes :: "'b \<Rightarrow> byte list \<Rightarrow> 'b" where
  "pushes b [] = b"
| "pushes b (c # cs) = pushes (push b c) cs"

primrec pops :: "'b \<Rightarrow> nat \<Rightarrow> byte list \<times> 'b" where
  "pops b 0 = ([], b)"
| "pops b (Suc n) = (let (c, b) = pop b; (cs, b) = pops b n in (c # cs, b))"

lemma pushes_holds:
  "holds b q \<Longrightarrow> 0 \<notin> set cs \<Longrightarrow> length q + length cs \<le> cap \<Longrightarrow> holds (pushes b cs) (q @ cs)"
proof (induction cs arbitrary: b q)
  case (Cons c cs)
  have "holds (push b c) (q @ [c])" using Cons.prems by (intro push_holds) auto
  from Cons.IH [OF this] Cons.prems show ?case by simp
qed simp

lemma pops_holds:
  "holds b (cs @ q) \<Longrightarrow> \<exists>b'. pops b (length cs) = (cs, b') \<and> holds b' q"
proof (induction cs arbitrary: b)
  case (Cons c cs)
  then obtain b1 where "pop b = (c, b1)" "holds b1 (cs @ q)" using pop_holds [of b c "cs @ q"] by auto
  with Cons.IH [of b1] show ?case by auto
qed simp

text \<open>Characters come out in the order they went in, whatever was there before them.\<close>

lemma fifo:
  assumes "holds b q" "0 \<notin> set cs" "length q + length cs \<le> cap"
  shows "\<exists>b' b''. pops (pushes b cs) (length q) = (q, b') \<and> pops b' (length cs) = (cs, b'') \<and> holds b'' []"
proof -
  from pops_holds [OF pushes_holds [OF assms]] obtain b' where
    "pops (pushes b cs) (length q) = (q, b')" "holds b' cs" by blast
  moreover from pops_holds [of b' cs "[]"] this(2) obtain b'' where "pops b' (length cs) = (cs, b'')" "holds b'' []" by auto
  ultimately show ?thesis by blast
qed

end

section \<open>The buffer is such a queue\<close>

definition ring_holds :: "keyboard_buffer \<Rightarrow> byte list \<Rightarrow> bool" where
  "ring_holds k q \<longleftrightarrow> length (kb_buffer k) = 1024 \<and> 0 \<le> kb_head k \<and> kb_head k < 1024 \<and> length q \<le> 1024
     \<and> 0 \<notin> set q \<and> kb_tail k = int ((nat (kb_head k) + length q) mod 1024)
     \<and> (\<forall>i<1024. kb_buffer k ! ((nat (kb_head k) + i) mod 1024) = (if i < length q then q ! i else 0))"

lemma mod_1024_inject: "i < 1024 \<Longrightarrow> j < 1024 \<Longrightarrow> (h + i) mod 1024 = (h + j) mod (1024 :: nat) \<longleftrightarrow> i = j"
proof -
  have e: "(h + m) mod 1024 = (if h mod 1024 + m < 1024 then h mod 1024 + m else h mod 1024 + m - 1024)"
    if "m < 1024" for m
  proof -
    have "(h + m) mod 1024 = (h mod 1024 + m) mod 1024" by (simp add: mod_add_left_eq)
    moreover have "h mod 1024 + m < 2048" using that mod_less_divisor [of 1024 h] by linarith
    ultimately show ?thesis by (cases "h mod 1024 + m < 1024") (simp_all add: le_mod_geq)
  qed
  assume "i < 1024" "j < 1024"
  then show ?thesis unfolding e [OF \<open>i < 1024\<close>] e [OF \<open>j < 1024\<close>]
    using mod_less_divisor [of 1024 h] by auto
qed

lemma push_key_holds:
  assumes "ring_holds k q" "c \<noteq> 0" "length q < 1024"
  shows "ring_holds (push_key k c) (q @ [c])"
proof -
  let ?h = "nat (kb_head k)" and ?n = "length q"
  let ?t = "(?h + ?n) mod 1024"
  have k: "length (kb_buffer k) = 1024" "0 \<le> kb_head k" "kb_head k < 1024" "0 \<notin> set q" "kb_tail k = int ?t"
    "\<forall>i<1024. kb_buffer k ! ((?h + i) mod 1024) = (if i < ?n then q ! i else 0)"
    using assms(1) by (simp_all add: ring_holds_def)
  have t: "?t < 1024" by simp
  have "int ?t + 1 \<ge> 1024 \<longleftrightarrow> ?t = 1023" using t by auto
  moreover have "(?h + Suc ?n) mod 1024 = (if ?t = 1023 then 0 else ?t + 1)" by (simp add: mod_Suc)
  ultimately have "kb_tail (push_key k c) = int ((?h + Suc ?n) mod 1024)" "kb_head (push_key k c) = kb_head k"
    "kb_buffer (push_key k c) = (kb_buffer k)[?t := c]"
    using assms(2) k(5) by (auto simp: push_key_def Let_def)
  moreover have "(kb_buffer k)[?t := c] ! ((?h + i) mod 1024) = (if i < Suc ?n then (q @ [c]) ! i else 0)" if "i < 1024" for i
    using k(1,6) that assms(3) mod_1024_inject [of i ?n ?h] by (auto simp: nth_list_update nth_append)
  ultimately show ?thesis using k assms(2,3) by (auto simp: ring_holds_def)
qed

lemma next_head: "0 \<le> x \<Longrightarrow> x < 1024 \<Longrightarrow> Suc (nat x) mod 1024 = (if x + 1 \<ge> 1024 then 0 else nat (x + 1))"
  by (auto simp: mod_Suc nat_add_distrib)

lemma pop_key_fields:
  "fst (pop_key k) = kb_buffer k ! nat (kb_head k)" "kb_tail (snd (pop_key k)) = kb_tail k"
  "kb_buffer (snd (pop_key k)) = (kb_buffer k)[nat (kb_head k) := 0]"
  "kb_head (snd (pop_key k)) = (if kb_head k + 1 \<ge> 1024 then 0 else kb_head k + 1)"
  by (simp_all add: pop_key_def Let_def)

lemma pop_key_holds:
  assumes "ring_holds k (c # q)"
  shows "\<exists>k'. pop_key k = (c, k') \<and> ring_holds k' q"
proof -
  let ?h = "nat (kb_head k)" and ?k = "snd (pop_key k)"
  have k: "length (kb_buffer k) = 1024" "0 \<le> kb_head k" "kb_head k < 1024" "0 \<notin> set q" "length q < 1024"
    "kb_tail k = int ((?h + Suc (length q)) mod 1024)"
    "\<forall>i<1024. kb_buffer k ! ((?h + i) mod 1024) = (if i < Suc (length q) then (c # q) ! i else 0)"
    using assms by (simp_all add: ring_holds_def)
  have h: "?h < 1024" using k(2,3) by simp
  have "fst (pop_key k) = c" using spec [OF k(7), of 0] h by (simp add: pop_key_fields)
  have hd: "nat (kb_head ?k) = (?h + 1) mod 1024" "0 \<le> kb_head ?k" "kb_head ?k < 1024"
    using k(2,3) by (auto simp: pop_key_fields next_head)
  have sh: "((?h + 1) mod 1024 + i) mod 1024 = (?h + Suc i) mod 1024" for i by (simp add: mod_add_left_eq)
  have "kb_buffer ?k ! ((nat (kb_head ?k) + i) mod 1024) = (if i < length q then q ! i else 0)" if i: "i < 1024" for i
  proof (cases "i = 1023")
    case True
    then have "(?h + Suc i) mod 1024 = ?h" using h by simp
    then show ?thesis using True k(1,5) h unfolding hd(1) sh by (auto simp: pop_key_fields)
  next
    case False
    then have i': "Suc i < 1024" using i by simp
    then have "(?h + Suc i) mod 1024 \<noteq> ?h" using mod_1024_inject [of "Suc i" 0 ?h] h by simp
    then show ?thesis using spec [OF k(7), of "Suc i"] i' unfolding hd(1) sh by (simp add: pop_key_fields)
  qed
  moreover have "kb_tail ?k = int ((nat (kb_head ?k) + length q) mod 1024)"
    unfolding hd(1) sh using k(6) by (simp add: pop_key_fields)
  moreover have "length (kb_buffer ?k) = 1024" using k(1) by (simp add: pop_key_fields)
  ultimately have "ring_holds ?k q" unfolding ring_holds_def using k(4) less_imp_le [OF k(5)] hd(2,3) by blast
  then show ?thesis using \<open>fst (pop_key k) = c\<close> by (metis prod.collapse)
qed

interpretation key_queue: byte_queue push_key pop_key ring_holds 1024
  by unfold_locales (auto intro: push_key_holds dest: pop_key_holds)

lemma empty_keyboard_holds: "ring_holds empty_keyboard []"
  by (simp add: empty_keyboard_def ring_holds_def)

section \<open>Where the buffer is not a queue\<close>

text \<open>Popping an empty buffer moves the head past the tail: the next key is not the next one out.\<close>

lemma pop_empty_then_push:
  assumes "ring_holds k []" "c \<noteq> 0"
  shows "fst (pop_key k) = 0" "fst (pop_key (push_key (snd (pop_key k)) c)) = 0"
proof -
  let ?h = "nat (kb_head k)"
  have k: "length (kb_buffer k) = 1024" "0 \<le> kb_head k" "kb_head k < 1024" "kb_tail k = int (?h mod 1024)"
    "\<forall>i<1024. kb_buffer k ! ((?h + i) mod 1024) = 0" using assms(1) by (simp_all add: ring_holds_def)
  have h: "?h < 1024" "?h mod 1024 = ?h" using k(2,3) by simp_all
  show "fst (pop_key k) = 0" using spec [OF k(5), of 0] h by (simp add: pop_key_fields)
  have tl: "kb_tail k = kb_head k" using k(2,4) h(2) by simp
  let ?k = "snd (pop_key k)"
  have "nat (kb_head ?k) = (?h + 1) mod 1024" using k(2,3) by (auto simp: pop_key_fields next_head)
  moreover have "(?h + 1) mod 1024 \<noteq> ?h" using mod_1024_inject [of 1 0 ?h] h by simp
  moreover have "kb_buffer (push_key ?k c) = (kb_buffer ?k)[?h := c]" "kb_head (push_key ?k c) = kb_head ?k"
    using assms(2) tl by (simp_all add: push_key_def Let_def pop_key_fields)
  moreover have "kb_buffer k ! ((?h + 1) mod 1024) = 0" using spec [OF k(5), of 1] by simp
  ultimately show "fst (pop_key (push_key ?k c)) = 0" by (simp add: pop_key_fields)
qed

text \<open>Backspace takes back the last key unless the tail has wrapped to 0.\<close>

lemma keyboard_backspace_ok:
  assumes "ring_holds k (q @ [c])" "kb_tail k \<noteq> 0"
  shows "ring_holds (keyboard_backspace k) q"
proof -
  let ?h = "nat (kb_head k)" and ?n = "length q"
  have k: "length (kb_buffer k) = 1024" "0 \<le> kb_head k" "kb_head k < 1024" "0 \<notin> set q" "?n < 1024"
    "kb_tail k = int ((?h + Suc ?n) mod 1024)"
    "\<forall>i<1024. kb_buffer k ! ((?h + i) mod 1024) = (if i < Suc ?n then (q @ [c]) ! i else 0)"
    using assms(1) by (simp_all add: ring_holds_def)
  have "int ((?h + Suc ?n) mod 1024) \<noteq> 0" using assms(2) unfolding k(6) .
  then have "(?h + Suc ?n) mod 1024 = Suc ((?h + ?n) mod 1024)"
    using mod_Suc [of "?h + ?n" 1024] by (cases "Suc ((?h + ?n) mod 1024) = 1024") auto
  then have t: "kb_tail k - 1 = int ((?h + ?n) mod 1024)" unfolding k(6) by linarith
  then have f: "kb_tail (keyboard_backspace k) = int ((?h + ?n) mod 1024)" "kb_head (keyboard_backspace k) = kb_head k"
    "kb_buffer (keyboard_backspace k) = (kb_buffer k)[(?h + ?n) mod 1024 := 0]"
    by (simp_all add: keyboard_backspace_def Let_def)
  have "(kb_buffer k)[(?h + ?n) mod 1024 := 0] ! ((?h + i) mod 1024) = (if i < ?n then q ! i else 0)" if "i < 1024" for i
    using k(1,5,7) that mod_1024_inject [of i ?n ?h] by (auto simp: nth_list_update nth_append)
  then show ?thesis using k f by (simp add: ring_holds_def)
qed

lemma keyboard_backspace_wrapped:
  assumes "ring_holds k (q @ [c])" "kb_tail k = 0" "length q < 1023"
  shows "ring_holds (keyboard_backspace k) (q @ [c])"
proof -
  let ?h = "nat (kb_head k)" and ?n = "Suc (length q)"
  have k: "length (kb_buffer k) = 1024" "0 \<le> kb_head k" "kb_head k < 1024" "(?h + ?n) mod 1024 = 0"
    "\<forall>i<1024. kb_buffer k ! ((?h + i) mod 1024) = (if i < ?n then (q @ [c]) ! i else 0)"
    using assms by (simp_all add: ring_holds_def)
  have "kb_buffer k ! 0 = 0" using spec [OF k(5), of ?n] k(4) assms(3) by simp
  then have "(kb_buffer k)[0 := 0] = kb_buffer k" by (metis list_update_id)
  then have "keyboard_backspace k = k" using assms(2) by (simp add: keyboard_backspace_def Let_def)
  then show ?thesis using assms(1) by simp
qed

section \<open>Scan codes\<close>

lemma length_scan_set [simp]: "length keyboard_scan_set_one = 82"
  by (simp add: keyboard_scan_set_one_def)

lemma scancode_to_char_eq:
  "qwerty_keyboard_scancode_to_char sc =
     (if unat sc < 82 then Some (keyboard_scan_set_one ! unat sc) else if sc = 82 then None else Some 0)"
proof -
  have "unat sc = 82 \<longleftrightarrow> sc = 82" by (simp add: word_unat_eq_iff)
  then show ?thesis by (auto simp: qwerty_keyboard_scancode_to_char_def)
qed

end
