(* ===== verification/KernelState.thy ===== *)
theory KernelState
  imports Vfs Paging Gdt Display Keyboard
begin

text \<open>
  The state of the whole kernel: the structures of \<^verbatim>\<open>task.h\<close>, \<^verbatim>\<open>process.h\<close>, \<^verbatim>\<open>elfloader.h\<close>,
  \<^verbatim>\<open>idt.h\<close>, \<^verbatim>\<open>tss.h\<close>, \<^verbatim>\<open>keyboard.h\<close> and the globals of the files that use them.  A heap object
  is a record in the store of its type under its address; page tables and the images of programs
  are bytes of physical memory.  The file layer is the field \<open>vfs\<close>, with the heap inside it.
\<close>

section \<open>Structures\<close>

record elf_file =
  ef_filename :: cbuf
  in_memory_size :: int
  ef_memory :: addr
  virtual_base_address :: addr
  virtual_end_address :: addr
  physical_base_address :: addr
  physical_end_address :: addr

record registers =
  r_edi :: u32
  r_esi :: u32
  r_ebp :: u32
  r_ebx :: u32
  r_edx :: u32
  r_ecx :: u32
  r_eax :: u32
  r_ip :: u32
  r_cs :: u32
  r_flags :: u32
  r_esp :: u32
  r_ss :: u32

record task =
  page_directory :: addr
  regs :: registers
  task_next :: addr
  task_prev :: addr
  task_process :: addr

text \<open>The union of \<^verbatim>\<open>ptr\<close> and \<^verbatim>\<open>elf_file\<close> is the one field \<open>proc_ptr\<close>.\<close>

record process =
  proc_id :: u16
  proc_task :: addr
  proc_filename :: cbuf
  allocations :: "addr list"
  filetype :: byte
  proc_ptr :: addr
  proc_size :: u32
  proc_stack :: addr
  keyboard :: keyboard_buffer

record interrupt_frame =
  f_edi :: u32
  f_esi :: u32
  f_ebp :: u32
  f_reserved :: u32
  f_ebx :: u32
  f_edx :: u32
  f_ecx :: u32
  f_eax :: u32
  f_ip :: u32
  f_cs :: u32
  f_flags :: u32
  f_esp :: u32
  f_ss :: u32

record idt_desc =
  offset_1 :: u16
  selector :: u16
  desc_zero :: byte
  type_attributes :: byte
  offset_2 :: u16

record idtr_desc =
  idtr_limit :: u16
  idtr_base :: u32

record tss =
  tss_link :: u32
  tss_esp0 :: u32
  tss_ss0 :: u32
  tss_esp1 :: u32
  tss_esp2 :: u32
  tss_ss2 :: u32
  tss_sr3 :: u32
  tss_eip :: u32
  tss_eflags :: u32
  tss_eax :: u32
  tss_ecx :: u32
  tss_edx :: u32
  tss_ebx :: u32
  tss_esp :: u32
  tss_ebp :: u32
  tss_esi :: u32
  tss_edi :: u32
  tss_es :: u32
  tss_cs :: u32
  tss_ss :: u32
  tss_ds :: u32
  tss_fs :: u32
  tss_gs :: u32
  tss_ldtr :: u32
  tss_iopb :: u32

text \<open>The function pointers that the kernel stores: each has these values only.\<close>

datatype interrupt_callback = Qwerty_keyboard_handle_interrupt

datatype isr80h_command =
    Isr80h_command0_sum
  | Isr80h_command1_print
  | Isr80h_command2_getkey
  | Isr80h_command3_putchar

datatype keyboard_driver = Qwerty_keyboard

section \<open>The kernel\<close>

record 'd kernel =
  vfs :: "'d vfs_state"
  console :: terminal
  mmu_regs :: mmu
  paging_enabled :: bool
  data_segment :: u16
  gdt_real :: cbuf
  tss_segment :: tss
  idt_descriptors :: "idt_desc list"
  idtr_descriptor :: idtr_desc
  interrupt_callbacks :: "interrupt_callback option list"
  isr80h_commands :: "isr80h_command option list"
  keyboards :: "keyboard_driver list"
  kernel_chunk :: addr
  elf_files :: "addr \<Rightarrow> elf_file option"
  task_store :: "addr \<Rightarrow> task option"
  process_store :: "addr \<Rightarrow> process option"
  current_task :: addr
  task_tail :: addr
  task_head :: addr
  current_process :: addr
  processes :: "addr list"

text \<open>The heap and physical memory inside the state.\<close>

abbreviation kmem_of :: "'d kernel \<Rightarrow> kmem" where
  "kmem_of k \<equiv> fs_kmem (lower (vfs k))"

abbreviation ram_of :: "'d kernel \<Rightarrow> ram" where
  "ram_of k \<equiv> phys (kmem_of k)"

definition set_kmem :: "'d kernel \<Rightarrow> kmem \<Rightarrow> 'd kernel" where
  "set_kmem k m = k\<lparr>vfs := (vfs k)\<lparr>lower := (lower (vfs k))\<lparr>fs_kmem := m\<rparr>\<rparr>\<rparr>"

definition set_ram :: "'d kernel \<Rightarrow> ram \<Rightarrow> 'd kernel" where
  "set_ram k m = set_kmem k ((kmem_of k)\<lparr>phys := m\<rparr>)"

definition set_dev :: "'d kernel \<Rightarrow> 'd \<Rightarrow> 'd kernel" where
  "set_dev k d = k\<lparr>vfs := (vfs k)\<lparr>lower := (lower (vfs k))\<lparr>fs_dev := d\<rparr>\<rparr>\<rparr>"

definition kernel_zalloc :: "'d kernel \<Rightarrow> u32 \<Rightarrow> (addr \<times> 'd kernel) option" where
  "kernel_zalloc k n = do { (p, m) \<leftarrow> kzalloc (kmem_of k) n; Some (p, set_kmem k m) }"

text \<open>A freed object is gone from every store.\<close>

definition kernel_free :: "'d kernel \<Rightarrow> addr \<Rightarrow> 'd kernel option" where
  "kernel_free k p = do {
     st \<leftarrow> fs_free (lower (vfs k)) p;
     Some (k\<lparr>vfs := (vfs k)\<lparr>lower := st, fd_store := (fd_store (vfs k))(p := None)\<rparr>,
       elf_files := (elf_files k)(p := None), task_store := (task_store k)(p := None),
       process_store := (process_store k)(p := None)\<rparr>)
   }"

lemma kernel_state_simps [simp]:
  "kmem_of (set_kmem k m) = m" "kmem_of (set_ram k r) = (kmem_of k)\<lparr>phys := r\<rparr>"
  "kmem_of (set_dev k d) = kmem_of k"
  "set_kmem (set_kmem k m) m' = set_kmem k m'" "set_kmem k (kmem_of k) = k"
  "set_ram (set_ram k r) r' = set_ram k r'" "set_ram (set_kmem k m) r = set_kmem k (m\<lparr>phys := r\<rparr>)"
  by (simp_all add: set_kmem_def set_ram_def set_dev_def)

lemma set_kmem_fields [simp]:
  "task_store (set_kmem k m) = task_store k" "process_store (set_kmem k m) = process_store k"
  "elf_files (set_kmem k m) = elf_files k" "current_task (set_kmem k m) = current_task k"
  "task_head (set_kmem k m) = task_head k" "task_tail (set_kmem k m) = task_tail k"
  "current_process (set_kmem k m) = current_process k" "processes (set_kmem k m) = processes k"
  "kernel_chunk (set_kmem k m) = kernel_chunk k" "console (set_kmem k m) = console k"
  "mmu_regs (set_kmem k m) = mmu_regs k" "data_segment (set_kmem k m) = data_segment k"
  "isr80h_commands (set_kmem k m) = isr80h_commands k"
  "interrupt_callbacks (set_kmem k m) = interrupt_callbacks k"
  by (simp_all add: set_kmem_def)

lemma set_ram_fields [simp]:
  "task_store (set_ram k m) = task_store k" "process_store (set_ram k m) = process_store k"
  "elf_files (set_ram k m) = elf_files k" "current_task (set_ram k m) = current_task k"
  "task_head (set_ram k m) = task_head k" "task_tail (set_ram k m) = task_tail k"
  "current_process (set_ram k m) = current_process k" "processes (set_ram k m) = processes k"
  "kernel_chunk (set_ram k m) = kernel_chunk k" "console (set_ram k m) = console k"
  "mmu_regs (set_ram k m) = mmu_regs k" "data_segment (set_ram k m) = data_segment k"
  "isr80h_commands (set_ram k m) = isr80h_commands k"
  "interrupt_callbacks (set_ram k m) = interrupt_callbacks k"
  by (simp_all add: set_ram_def)

section \<open>Strings and byte ranges\<close>

text \<open>A string literal of the source with its terminator.\<close>

definition c_string :: "string \<Rightarrow> cbuf" where
  "c_string s = map of_char s @ [0]"

primrec ram_bytes :: "ram \<Rightarrow> addr \<Rightarrow> nat \<Rightarrow> cbuf" where
  "ram_bytes m a 0 = []"
| "ram_bytes m a (Suc n) = m a # ram_bytes m (a + 1) n"

primrec ram_write :: "ram \<Rightarrow> addr \<Rightarrow> cbuf \<Rightarrow> ram" where
  "ram_write m a [] = m"
| "ram_write m a (b # bs) = ram_write (m(a := b)) (a + 1) bs"

definition load16 :: "ram \<Rightarrow> addr \<Rightarrow> u16" where
  "load16 m a = ucast (m a) OR push_bit 8 (ucast (m (a + 1)))"

lemma length_ram_bytes [simp]: "length (ram_bytes m a n) = n"
  by (induction n arbitrary: a) auto

lemma nth_ram_bytes: "i < n \<Longrightarrow> ram_bytes m a n ! i = m (a + of_nat i)"
  by (induction n arbitrary: a i) (auto simp: nth_Cons' of_nat_diff)

lemma ram_write_apply:
  assumes "length bs \<le> 2 ^ 32"
  shows "ram_write m a bs x = (if unat (x - a) < length bs then bs ! unat (x - a) else m x)"
  using assms
proof (induction bs arbitrary: m a)
  case (Cons b bs)
  have l: "length bs \<le> 2 ^ 32" using Cons.prems by simp
  show ?case
  proof (cases "x = a")
    case True
    have "unat (x - (a + 1)) = 2 ^ 32 - 1"
      using True by (simp add: unsigned_minus_1_eq_mask mask_eq_exp_minus_1)
    then have "ram_write (m(a := b)) (a + 1) bs x = (m(a := b)) x"
      using Cons.IH [OF l, of "m(a := b)" "a + 1"] Cons.prems by (simp del: fun_upd_apply)
    then show ?thesis using True by simp
  next
    case False
    then have "x - a \<noteq> 0" by simp
    then have "unat (x - a) \<noteq> 0" "unat (x - a - 1) = unat (x - a) - 1"
      using unat_gt_0 [of "x - a"] unat_minus_one [of "x - a"] by simp_all
    then obtain n where n: "unat (x - a) = Suc n" "unat (x - a - 1) = n" by (cases "unat (x - a)") simp_all
    have "unat (x - (a + 1)) = n" using n(2) by (simp add: diff_diff_eq)
    then have "ram_write (m(a := b)) (a + 1) bs x = (if n < length bs then bs ! n else m x)"
      using Cons.IH [OF l, of "m(a := b)" "a + 1"] False by (simp add: fun_upd_other del: fun_upd_apply)
    then show ?thesis unfolding n(1) by simp
  qed
qed simp

section \<open>Memory as the processor sees it\<close>

text \<open>
  The physical address behind a virtual one under the page directory \<open>d\<close>; \<open>None\<close> is a page fault,
  for which the kernel has no handler.  The kernel runs in ring 0 with write protection off, so
  only the present bits count.
\<close>

definition translate :: "ram \<Rightarrow> addr \<Rightarrow> addr \<Rightarrow> addr option" where
  "translate m d va =
     (let e = table_entry m d (dir_index va) in
      if \<not> bit e 0 then None
      else let p = table_entry m (e AND 0xFFFFF000) (tab_index va) in
        if \<not> bit p 0 then None else Some ((p AND 0xFFFFF000) + (va AND 0xFFF)))"

definition virt_read :: "ram \<Rightarrow> addr \<Rightarrow> addr \<Rightarrow> byte option" where
  "virt_read m d va = map_option m (translate m d va)"

definition virt_write :: "ram \<Rightarrow> addr \<Rightarrow> addr \<Rightarrow> byte \<Rightarrow> ram option" where
  "virt_write m d va b = map_option (\<lambda>a. m(a := b)) (translate m d va)"

definition virt_load32 :: "ram \<Rightarrow> addr \<Rightarrow> addr \<Rightarrow> u32 option" where
  "virt_load32 m d va = do {
     b0 \<leftarrow> virt_read m d va;
     b1 \<leftarrow> virt_read m d (va + 1);
     b2 \<leftarrow> virt_read m d (va + 2);
     b3 \<leftarrow> virt_read m d (va + 3);
     Some (ucast b0 OR push_bit 8 (ucast b1) OR push_bit 16 (ucast b2) OR push_bit 24 (ucast b3))
   }"

section \<open>Segments and pages of the kernel (kernel.c, kernel.asm, task.asm)\<close>

definition kernel_registers :: "'d kernel \<Rightarrow> 'd kernel" where
  "kernel_registers k = k\<lparr>data_segment := 0x10\<rparr>"

definition user_registers :: "'d kernel \<Rightarrow> 'd kernel" where
  "user_registers k = k\<lparr>data_segment := 0x23\<rparr>"

definition kernel_paging_switch :: "'d kernel \<Rightarrow> addr \<Rightarrow> 'd kernel option" where
  "kernel_paging_switch k chunk =
     (if chunk = 0 then None
      else Some (k\<lparr>mmu_regs := paging_switch (ram_of k) (mmu_regs k) chunk\<rparr>))"

definition kernel_page :: "'d kernel \<Rightarrow> 'd kernel option" where
  "kernel_page k = kernel_paging_switch (kernel_registers k) (kernel_chunk k)"

definition kernel_print :: "'d kernel \<Rightarrow> cbuf \<Rightarrow> 'd kernel option" where
  "kernel_print k s = do { t \<leftarrow> terminal_print (console k) s; Some (k\<lparr>console := t\<rparr>) }"

end
