(* ===== verification/Elf.thy ===== *)
theory Elf
  imports KernelState
begin

text \<open>
  ELF images: the headers of \<^verbatim>\<open>src/loader/formats/elf.h\<close> and the loader of
  \<^verbatim>\<open>src/loader/formats/elfloader.c\<close>.  A header is read from the bytes of physical memory at its
  address; the pointers to headers stay addresses.
\<close>

section \<open>Headers (elf.h)\<close>

definition EI_CLASS :: nat where [simp]: "EI_CLASS = 4"
definition EI_DATA :: nat where [simp]: "EI_DATA = 5"
definition ELFCLASSNONE :: byte where [simp]: "ELFCLASSNONE = 0"
definition ELFCLASS32 :: byte where [simp]: "ELFCLASS32 = 1"
definition ELFDATANONE :: byte where [simp]: "ELFDATANONE = 0"
definition ELFDATA2LSB :: byte where [simp]: "ELFDATA2LSB = 1"
definition ET_EXEC :: u16 where [simp]: "ET_EXEC = 2"
definition PT_LOAD :: u32 where [simp]: "PT_LOAD = 1"
definition PF_W :: u32 where "PF_W = 2"
definition RASOS_PROGRAM_VIRTUAL_ADDRESS :: addr where "RASOS_PROGRAM_VIRTUAL_ADDRESS = 0x400000"

record elf_header_struct =
  e_ident :: cbuf
  e_type :: u16
  e_machine :: u16
  e_version :: u32
  e_entry :: u32
  e_phoff :: u32
  e_shoff :: u32
  e_flags :: u32
  e_ehsize :: u16
  e_phentsize :: u16
  e_phnum :: u16
  e_shentsize :: u16
  e_shnum :: u16
  e_shstrndx :: u16

definition elf_header_at :: "ram \<Rightarrow> addr \<Rightarrow> elf_header_struct" where
  "elf_header_at m a = \<lparr>e_ident = ram_bytes m a 16, e_type = load16 m (a + 16), e_machine = load16 m (a + 18),
     e_version = load32 m (a + 20), e_entry = load32 m (a + 24), e_phoff = load32 m (a + 28),
     e_shoff = load32 m (a + 32), e_flags = load32 m (a + 36), e_ehsize = load16 m (a + 40),
     e_phentsize = load16 m (a + 42), e_phnum = load16 m (a + 44), e_shentsize = load16 m (a + 46),
     e_shnum = load16 m (a + 48), e_shstrndx = load16 m (a + 50)\<rparr>"

record elf32_phdr =
  p_type :: u32
  p_offset :: u32
  p_vaddr :: u32
  p_paddr :: u32
  p_filesz :: u32
  p_memsz :: u32
  p_flags :: u32
  p_align :: u32

definition elf32_phdr_at :: "ram \<Rightarrow> addr \<Rightarrow> elf32_phdr" where
  "elf32_phdr_at m a = \<lparr>p_type = load32 m a, p_offset = load32 m (a + 4), p_vaddr = load32 m (a + 8),
     p_paddr = load32 m (a + 12), p_filesz = load32 m (a + 16), p_memsz = load32 m (a + 20),
     p_flags = load32 m (a + 24), p_align = load32 m (a + 28)\<rparr>"

record elf32_shdr =
  sh_name :: u32
  sh_type :: u32
  sh_flags :: u32
  sh_addr :: u32
  sh_offset :: u32
  sh_size :: u32
  sh_link :: u32
  sh_info :: u32
  sh_addralign :: u32
  sh_entsize :: u32

definition elf32_shdr_at :: "ram \<Rightarrow> addr \<Rightarrow> elf32_shdr" where
  "elf32_shdr_at m a = \<lparr>sh_name = load32 m a, sh_type = load32 m (a + 4), sh_flags = load32 m (a + 8),
     sh_addr = load32 m (a + 12), sh_offset = load32 m (a + 16), sh_size = load32 m (a + 20),
     sh_link = load32 m (a + 24), sh_info = load32 m (a + 28), sh_addralign = load32 m (a + 32),
     sh_entsize = load32 m (a + 36)\<rparr>"

definition elf_get_entry_ptr :: "elf_header_struct \<Rightarrow> addr" where
  "elf_get_entry_ptr hdr = e_entry hdr"

definition elf_get_entry :: "elf_header_struct \<Rightarrow> u32" where
  "elf_get_entry hdr = e_entry hdr"

section \<open>Inspection (elfloader.c)\<close>

definition elf_signature :: cbuf where
  "elf_signature = [0x7F, 69, 76, 70]"

definition elf_valid_signature :: "elf_header_struct \<Rightarrow> bool" where
  "elf_valid_signature hdr \<longleftrightarrow> memcmp (e_ident hdr) elf_signature 4 = Some 0"

definition elf_valid_class :: "elf_header_struct \<Rightarrow> bool" where
  "elf_valid_class hdr \<longleftrightarrow>
     e_ident hdr ! EI_CLASS = ELFCLASSNONE \<or> e_ident hdr ! EI_CLASS = ELFCLASS32"

definition elf_valid_encoding :: "elf_header_struct \<Rightarrow> bool" where
  "elf_valid_encoding hdr \<longleftrightarrow>
     e_ident hdr ! EI_DATA = ELFDATANONE \<or> e_ident hdr ! EI_DATA = ELFDATA2LSB"

text \<open>Declared, but called by no one.\<close>

definition elf_is_executable :: "elf_header_struct \<Rightarrow> bool" where
  "elf_is_executable hdr \<longleftrightarrow> e_type hdr = ET_EXEC \<and> e_entry hdr \<ge> RASOS_PROGRAM_VIRTUAL_ADDRESS"

definition elf_has_program_header :: "elf_header_struct \<Rightarrow> bool" where
  "elf_has_program_header hdr \<longleftrightarrow> e_phoff hdr \<noteq> 0"

definition elf_memory :: "elf_file \<Rightarrow> addr" where "elf_memory f = ef_memory f"
definition elf_header :: "elf_file \<Rightarrow> addr" where "elf_header f = ef_memory f"
definition elf_virtual_base :: "elf_file \<Rightarrow> addr" where "elf_virtual_base f = virtual_base_address f"
definition elf_virtual_end :: "elf_file \<Rightarrow> addr" where "elf_virtual_end f = virtual_end_address f"
definition elf_phys_base :: "elf_file \<Rightarrow> addr" where "elf_phys_base f = physical_base_address f"
definition elf_phys_end :: "elf_file \<Rightarrow> addr" where "elf_phys_end f = physical_end_address f"

definition elf_sheader :: "ram \<Rightarrow> addr \<Rightarrow> addr" where
  "elf_sheader m hdr = hdr + e_shoff (elf_header_at m hdr)"

definition elf_pheader :: "ram \<Rightarrow> addr \<Rightarrow> addr" where
  "elf_pheader m hdr =
     (if e_phoff (elf_header_at m hdr) = 0 then 0 else hdr + e_phoff (elf_header_at m hdr))"

definition elf_program_header :: "ram \<Rightarrow> addr \<Rightarrow> nat \<Rightarrow> addr" where
  "elf_program_header m hdr i = elf_pheader m hdr + 32 * of_nat i"

definition elf_section :: "ram \<Rightarrow> addr \<Rightarrow> nat \<Rightarrow> addr" where
  "elf_section m hdr i = elf_sheader m hdr + 40 * of_nat i"

definition elf_str_table :: "ram \<Rightarrow> addr \<Rightarrow> addr" where
  "elf_str_table m hdr =
     hdr + sh_offset (elf32_shdr_at m (elf_section m hdr (unat (e_shstrndx (elf_header_at m hdr)))))"

definition elf_phdr_phys_address :: "elf_file \<Rightarrow> elf32_phdr \<Rightarrow> addr" where
  "elf_phdr_phys_address f phdr = elf_memory f + p_offset phdr"

section \<open>Processing the headers (elfloader.c)\<close>

definition elf_validate_loaded :: "elf_header_struct \<Rightarrow> int" where
  "elf_validate_loaded hdr =
     (if elf_valid_signature hdr \<and> elf_valid_class hdr \<and> elf_valid_encoding hdr
        \<and> elf_has_program_header hdr then OK else - EINFORMAT)"

definition elf_process_phdr_pt_load :: "elf_file \<Rightarrow> elf32_phdr \<Rightarrow> int \<times> elf_file" where
  "elf_process_phdr_pt_load f phdr =
     (let f = (if virtual_base_address f \<ge> p_vaddr phdr \<or> virtual_base_address f = 0
               then f\<lparr>virtual_base_address := p_vaddr phdr,
                      physical_base_address := elf_memory f + p_offset phdr\<rparr> else f);
          end_virtual_address = p_vaddr phdr + p_filesz phdr;
          f = (if virtual_end_address f \<le> end_virtual_address \<or> virtual_end_address f = 0
               then f\<lparr>virtual_end_address := end_virtual_address,
                      physical_end_address := elf_memory f + p_offset phdr + p_filesz phdr\<rparr> else f)
      in (0, f))"

definition elf_process_pheader :: "elf_file \<Rightarrow> elf32_phdr \<Rightarrow> int \<times> elf_file" where
  "elf_process_pheader f phdr =
     (if p_type phdr = PT_LOAD then elf_process_phdr_pt_load f phdr else (0, f))"

text \<open>The loop from header \<open>i\<close> on, with \<open>n\<close> headers left.\<close>

primrec pheaders_loop :: "ram \<Rightarrow> elf_file \<Rightarrow> nat \<Rightarrow> int \<Rightarrow> nat \<Rightarrow> int \<times> elf_file" where
  "pheaders_loop m f i res 0 = (res, f)"
| "pheaders_loop m f i res (Suc n) =
     (let phdr = elf32_phdr_at m (elf_program_header m (elf_header f) i);
          (res, f) = elf_process_pheader f phdr
      in if res < 0 then (res, f) else pheaders_loop m f (Suc i) res n)"

definition elf_process_pheaders :: "ram \<Rightarrow> elf_file \<Rightarrow> int \<times> elf_file" where
  "elf_process_pheaders m f = pheaders_loop m f 0 0 (unat (e_phnum (elf_header_at m (elf_header f))))"

definition elf_process_loaded :: "ram \<Rightarrow> elf_file \<Rightarrow> int \<times> elf_file" where
  "elf_process_loaded m f =
     (let res = elf_validate_loaded (elf_header_at m (elf_header f)) in
      if res < 0 then (res, f) else elf_process_pheaders m f)"

section \<open>Loading and closing (elfloader.c)\<close>

definition empty_elf_file :: elf_file where
  "empty_elf_file = \<lparr>ef_filename = replicate 128 0, in_memory_size = 0, ef_memory = 0, virtual_base_address = 0,
     virtual_end_address = 0, physical_base_address = 0, physical_end_address = 0\<rparr>"

text \<open>
  The function up to its label \<^verbatim>\<open>out\<close>: the result, \<^verbatim>\<open>fd\<close>, what is stored in \<^verbatim>\<open>*file_out\<close>, the state.
  \<^verbatim>\<open>stat\<close> is uninitialised in the source and read only after \<^verbatim>\<open>fstat\<close> has filled it.
\<close>

definition elf_load_body ::
  "'d vtable \<Rightarrow> 'd kernel \<Rightarrow> cbuf \<Rightarrow> (int \<times> int \<times> addr option \<times> 'd kernel) option" where
  "elf_load_body vt k fname = do {
     (file, k) \<leftarrow> kernel_zalloc k 152;
     let k = (if file = 0 then k else k\<lparr>elf_files := (elf_files k)(file \<mapsto> empty_elf_file)\<rparr>);
     (res, v) \<leftarrow> fopen vt (vfs k) fname (c_string ''r'');
     let k = k\<lparr>vfs := v\<rparr>;
     if res \<le> 0 then Some (res, 0, None, k)
     else do {
       let fd = res;
       (res, stat) \<leftarrow> fstat vt (vfs k) fd \<lparr>stat_flags = 0, stat_filesize = 0\<rparr>;
       if res < 0 then Some (res, fd, None, k)
       else do {
         (mem, k) \<leftarrow> kernel_zalloc k (stat_filesize stat);
         f \<leftarrow> elf_files k file;
         let k = k\<lparr>elf_files := (elf_files k)(file \<mapsto> f\<lparr>ef_memory := mem\<rparr>)\<rparr>;
         (res, out, v) \<leftarrow> fread vt (vfs k) (stat_filesize stat) 1 fd;
         let k = k\<lparr>vfs := v\<rparr>;
         if mem = 0 \<and> (out \<noteq> [] \<or> res \<ge> 0) then None
         else do {
           let k = set_ram k (ram_write (ram_of k) mem out);
           if res < 0 then Some (res, fd, None, k)
           else do {
             let (res, f) = elf_process_loaded (ram_of k) (f\<lparr>ef_memory := mem\<rparr>);
             let k = k\<lparr>elf_files := (elf_files k)(file \<mapsto> f)\<rparr>;
             if res < 0 then Some (res, fd, None, k) else Some (res, fd, Some file, k)
           }
         }
       }
     }
   }"

definition elf_load :: "'d vtable \<Rightarrow> 'd kernel \<Rightarrow> cbuf \<Rightarrow> (int \<times> addr option \<times> 'd kernel) option" where
  "elf_load vt k fname = do {
     (res, fd, file_out, k) \<leftarrow> elf_load_body vt k fname;
     (_, v) \<leftarrow> fclose vt (vfs k) fd;
     Some (res, file_out, k\<lparr>vfs := v\<rparr>)
   }"

definition elf_close :: "'d kernel \<Rightarrow> addr \<Rightarrow> 'd kernel option" where
  "elf_close k file =
     (if file = 0 then Some k
      else do {
        f \<leftarrow> elf_files k file;
        k \<leftarrow> kernel_free k (ef_memory f);
        kernel_free k file
      })"

end
