(* ===== verification/Task.thy ===== *)
theory Task
  imports Elf
begin

text \<open>
  Tasks, \<^verbatim>\<open>src/task/task.c\<close>: their address spaces, the list that links them, saving their
  registers, and reading their memory.
\<close>

section \<open>Constants (config.h)\<close>

definition USER_DATA_SEGMENT :: u32 where "USER_DATA_SEGMENT = 0x23"
definition USER_CODE_SEGMENT :: u32 where "USER_CODE_SEGMENT = 0x1B"
definition RASOS_USER_PROGRAM_STACK_SIZE :: u32 where "RASOS_USER_PROGRAM_STACK_SIZE = 1024 * 16"
definition RASOS_PROGRAM_VIRTUAL_STACK_ADDRESS_BOTTOM :: addr where
  "RASOS_PROGRAM_VIRTUAL_STACK_ADDRESS_BOTTOM = 0x3FF000"
definition RASOS_PROGRAM_VIRTUAL_STACK_ADDRESS_TOP :: addr where
  "RASOS_PROGRAM_VIRTUAL_STACK_ADDRESS_TOP =
     RASOS_PROGRAM_VIRTUAL_STACK_ADDRESS_BOTTOM - RASOS_USER_PROGRAM_STACK_SIZE"
definition PROCESS_FILETYPE_ELF :: byte where [simp]: "PROCESS_FILETYPE_ELF = 0"
definition PROCESS_FILETYPE_BINARY :: byte where [simp]: "PROCESS_FILETYPE_BINARY = 1"

section \<open>Creating a task\<close>

definition zero_registers :: registers where
  "zero_registers = \<lparr>r_edi = 0, r_esi = 0, r_ebp = 0, r_ebx = 0, r_edx = 0, r_ecx = 0, r_eax = 0,
     r_ip = 0, r_cs = 0, r_flags = 0, r_esp = 0, r_ss = 0\<rparr>"

definition zero_task :: task where
  "zero_task = \<lparr>page_directory = 0, regs = zero_registers, task_next = 0, task_prev = 0, task_process = 0\<rparr>"

definition put_task :: "'d kernel \<Rightarrow> addr \<Rightarrow> task \<Rightarrow> 'd kernel" where
  "put_task k a t = k\<lparr>task_store := (task_store k)(a \<mapsto> t)\<rparr>"

definition task_init :: "'d kernel \<Rightarrow> addr \<Rightarrow> addr \<Rightarrow> (int \<times> 'd kernel) option" where
  "task_init k task process = do {
     let k = put_task k task zero_task;
     (chunk, m) \<leftarrow> paging_new_4gb (kmem_of k) (PAGING_IS_PRESENT OR PAGING_ACCESS_BY_ALL);
     let k = put_task (set_kmem k m) task (zero_task\<lparr>page_directory := chunk\<rparr>);
     if chunk = 0 then Some (- EIO, k)
     else do {
       p \<leftarrow> process_store k process;
       ip \<leftarrow> (if filetype p = PROCESS_FILETYPE_ELF then do {
                 f \<leftarrow> elf_files k (proc_ptr p);
                 Some (e_entry (elf_header_at (ram_of k) (elf_header f)))
               }
               else Some RASOS_PROGRAM_VIRTUAL_ADDRESS);
       Some (0, put_task k task (zero_task\<lparr>page_directory := chunk,
         regs := zero_registers\<lparr>r_ip := ip, r_ss := USER_DATA_SEGMENT, r_cs := USER_CODE_SEGMENT,
           r_esp := RASOS_PROGRAM_VIRTUAL_STACK_ADDRESS_BOTTOM\<rparr>, task_process := process\<rparr>))
     }
   }"

definition task_get_next :: "'d kernel \<Rightarrow> addr option" where
  "task_get_next k = do {
     t \<leftarrow> task_store k (current_task k);
     Some (if task_next t = 0 then task_head k else task_next t)
   }"

definition task_list_remove :: "'d kernel \<Rightarrow> addr \<Rightarrow> 'd kernel option" where
  "task_list_remove k task = do {
     t \<leftarrow> task_store k task;
     k \<leftarrow> (if task_prev t \<noteq> 0 then do {
             p \<leftarrow> task_store k (task_prev t);
             Some (put_task k (task_prev t) (p\<lparr>task_next := task_next t\<rparr>))
           }
           else if task = task_head k then Some (k\<lparr>task_head := task_next t\<rparr>) else Some k);
     if task = current_task k then do {
       nxt \<leftarrow> task_get_next k;
       Some (k\<lparr>current_task := nxt\<rparr>)
     }
     else Some k
   }"

definition task_free :: "'d kernel \<Rightarrow> addr \<Rightarrow> (int \<times> 'd kernel) option" where
  "task_free k task = do {
     t \<leftarrow> task_store k task;
     m \<leftarrow> paging_free_4gb (kmem_of k) (page_directory t);
     k \<leftarrow> task_list_remove (set_kmem k m) task;
     k \<leftarrow> kernel_free k task;
     Some (0, k)
   }"

text \<open>The task goes to the end of the list; \<^verbatim>\<open>task_tail\<close> is dereferenced.\<close>

definition task_list_add :: "'d kernel \<Rightarrow> addr \<Rightarrow> 'd kernel option" where
  "task_list_add k task =
     (if task_head k = 0 then Some (k\<lparr>task_head := task, task_tail := task, current_task := task\<rparr>)
      else do {
        l \<leftarrow> task_store k (task_tail k);
        let k = put_task k (task_tail k) (l\<lparr>task_next := task\<rparr>);
        t \<leftarrow> task_store k task;
        Some ((put_task k task (t\<lparr>task_prev := task_tail k\<rparr>))\<lparr>task_tail := task\<rparr>)
      })"

definition task_new :: "'d kernel \<Rightarrow> addr \<Rightarrow> (addr \<times> 'd kernel) option" where
  "task_new k process = do {
     (task, k) \<leftarrow> kernel_zalloc k 64;
     (res, k) \<leftarrow> (if task = 0 then Some (- ENOMEM, k)
       else do {
         (res, k) \<leftarrow> task_init k task process;
         if res \<noteq> OK then Some (res, k)
         else do { k \<leftarrow> task_list_add k task; Some (res, k) }
       });
     if res < 0 then do { (_, k) \<leftarrow> task_free k task; Some (ERROR res, k) }
     else Some (task, k)
   }"

section \<open>Switching\<close>

definition task_switch :: "'d kernel \<Rightarrow> addr \<Rightarrow> 'd kernel option" where
  "task_switch k task = do {
     t \<leftarrow> task_store k task;
     kernel_paging_switch (k\<lparr>current_task := task\<rparr>) (page_directory t)
   }"

definition task_page :: "'d kernel \<Rightarrow> 'd kernel option" where
  "task_page k = task_switch (user_registers k) (current_task k)"

definition task_page_task :: "'d kernel \<Rightarrow> addr \<Rightarrow> 'd kernel option" where
  "task_page_task k task = do {
     t \<leftarrow> task_store k task;
     kernel_paging_switch (user_registers k) (page_directory t)
   }"

text \<open>\<^verbatim>\<open>task_return\<close> leaves for user mode: the registers it is given and the state.  Without a
  current task the kernel panics.\<close>

definition task_run_first_ever_task :: "'d kernel \<Rightarrow> (registers \<times> 'd kernel) option" where
  "task_run_first_ever_task k =
     (if current_task k = 0 then None
      else do {
        k \<leftarrow> task_switch k (task_head k);
        t \<leftarrow> task_store k (task_head k);
        Some (regs t, k)
      })"

definition saved_registers :: "interrupt_frame \<Rightarrow> registers" where
  "saved_registers f = \<lparr>r_edi = f_edi f, r_esi = f_esi f, r_ebp = f_ebp f, r_ebx = f_ebx f, r_edx = f_edx f,
     r_ecx = f_ecx f, r_eax = f_eax f, r_ip = f_ip f, r_cs = f_cs f, r_flags = f_flags f,
     r_esp = f_esp f, r_ss = f_ss f\<rparr>"

definition task_save_state :: "'d kernel \<Rightarrow> addr \<Rightarrow> interrupt_frame \<Rightarrow> 'd kernel option" where
  "task_save_state k task frame = do {
     t \<leftarrow> task_store k task;
     Some (put_task k task (t\<lparr>regs := saved_registers frame\<rparr>))
   }"

definition task_current_save_state :: "'d kernel \<Rightarrow> interrupt_frame \<Rightarrow> 'd kernel option" where
  "task_current_save_state k frame =
     (if current_task k = 0 then None else task_save_state k (current_task k) frame)"

section \<open>Reading the memory of a task\<close>

text \<open>
  \<^verbatim>\<open>strncpy\<close> with both strings behind the page directory \<open>d\<close>; the loop has \<open>n\<close> bytes left to copy.
\<close>

primrec virt_strncpy_loop :: "ram \<Rightarrow> addr \<Rightarrow> addr \<Rightarrow> addr \<Rightarrow> nat \<Rightarrow> ram option" where
  "virt_strncpy_loop m d dest src 0 = virt_write m d dest 0"
| "virt_strncpy_loop m d dest src (Suc n) = do {
     c \<leftarrow> virt_read m d src;
     if c = 0 then virt_write m d dest 0
     else do {
       m \<leftarrow> virt_write m d dest c;
       virt_strncpy_loop m d (dest + 1) (src + 1) n
     }
   }"

definition virt_strncpy :: "ram \<Rightarrow> addr \<Rightarrow> addr \<Rightarrow> addr \<Rightarrow> int \<Rightarrow> ram option" where
  "virt_strncpy m d dest src count = virt_strncpy_loop m d dest src (nat (count - 1))"

text \<open>The result, the buffer at \<^verbatim>\<open>phys_addr\<close> and the state.\<close>

definition copy_string_from_task ::
  "'d kernel \<Rightarrow> addr \<Rightarrow> addr \<Rightarrow> cbuf \<Rightarrow> int \<Rightarrow> (int \<times> cbuf \<times> 'd kernel) option" where
  "copy_string_from_task k task virtual_addr buf n =
     (if n \<ge> uint PAGE_SIZE then Some (- EINVARG, buf, k)
      else do {
        (string_cpy, k) \<leftarrow> kernel_zalloc k (word_of_int n);
        if string_cpy = 0 then Some (- ENOMEM, buf, k)
        else do {
          t \<leftarrow> task_store k task;
          let task_directory = directory_entry (ram_of k) (page_directory t);
          let page_table_entry = paging_get_table_entry (ram_of k) task_directory string_cpy;
          let (_, m) = paging_map (ram_of k) (page_directory t) string_cpy string_cpy
            (ucast (PAGING_IS_WRITABLE OR PAGING_IS_PRESENT OR PAGING_ACCESS_BY_ALL));
          k \<leftarrow> kernel_paging_switch (set_ram k m) (page_directory t);
          m \<leftarrow> virt_strncpy (ram_of k) (cr3 (mmu_regs k)) string_cpy virtual_addr n;
          k \<leftarrow> kernel_page (set_ram k m);
          let (res, m) = paging_set (ram_of k) task_directory string_cpy page_table_entry;
          let k = set_ram k m;
          if res < 0 then do { k \<leftarrow> kernel_free k string_cpy; Some (- EIO, buf, k) }
          else do {
            buf \<leftarrow> strncpy buf (ram_bytes (ram_of k) string_cpy (nat n)) n;
            k \<leftarrow> kernel_free k string_cpy;
            Some (res, buf, k)
          }
        }
      })"

definition task_get_stack_item :: "'d kernel \<Rightarrow> addr \<Rightarrow> int \<Rightarrow> (u32 \<times> 'd kernel) option" where
  "task_get_stack_item k task i = do {
     t \<leftarrow> task_store k task;
     let sp_ptr = r_esp (regs t);
     k \<leftarrow> task_page_task k task;
     result \<leftarrow> virt_load32 (ram_of k) (cr3 (mmu_regs k)) (sp_ptr + 4 * word_of_int i);
     k \<leftarrow> kernel_page k;
     Some (result, k)
   }"

end
