(* ===== verification/Process.thy ===== *)
theory Process
  imports Task
begin

text \<open>
  Processes, \<^verbatim>\<open>src/task/process.c\<close>: loading an executable into memory, mapping it into the
  address space of a new task, and the table of processes.
\<close>

definition RASOS_MAX_PROCESSES :: int where [simp]: "RASOS_MAX_PROCESSES = 12"

section \<open>The table\<close>

definition empty_process :: process where
  "empty_process = \<lparr>proc_id = 0, proc_task = 0, proc_filename = replicate 128 0, allocations = replicate 1024 0,
     filetype = 0, proc_ptr = 0, proc_size = 0, proc_stack = 0, keyboard = empty_keyboard\<rparr>"

definition put_process :: "'d kernel \<Rightarrow> addr \<Rightarrow> process \<Rightarrow> 'd kernel" where
  "put_process k a p = k\<lparr>process_store := (process_store k)(a \<mapsto> p)\<rparr>"

definition process_init :: "'d kernel \<Rightarrow> addr \<Rightarrow> 'd kernel" where
  "process_init k process = put_process k process empty_process"

definition process_current :: "'d kernel \<Rightarrow> addr" where
  "process_current k = current_process k"

definition process_switch :: "'d kernel \<Rightarrow> addr \<Rightarrow> int \<times> 'd kernel" where
  "process_switch k process = (0, k\<lparr>current_process := process\<rparr>)"

definition process_get :: "'d kernel \<Rightarrow> int \<Rightarrow> addr" where
  "process_get k process_id =
     (if process_id < 0 \<or> process_id \<ge> RASOS_MAX_PROCESSES then 0 else processes k ! nat process_id)"

definition process_get_free_slot :: "'d kernel \<Rightarrow> int" where
  "process_get_free_slot k = (case free_index (processes k) 0 of None \<Rightarrow> - EISTKN | Some i \<Rightarrow> int i)"

section \<open>Loading the file\<close>

definition process_load_binary :: "'d vtable \<Rightarrow> 'd kernel \<Rightarrow> cbuf \<Rightarrow> addr \<Rightarrow> (int \<times> 'd kernel) option" where
  "process_load_binary vt k fname process = do {
     (fd, v) \<leftarrow> fopen vt (vfs k) fname (c_string ''r'');
     let k = k\<lparr>vfs := v\<rparr>;
     if fd = 0 then Some (- EIO, k)
     else do {
       (res, stat) \<leftarrow> fstat vt (vfs k) fd \<lparr>stat_flags = 0, stat_filesize = 0\<rparr>;
       if res \<noteq> OK then Some (res, k)
       else do {
         (program_data_ptr, k) \<leftarrow> kernel_zalloc k (stat_filesize stat);
         if program_data_ptr = 0 then Some (- ENOMEM, k)
         else do {
           (res, out, v) \<leftarrow> fread vt (vfs k) (stat_filesize stat) 1 fd;
           let k = k\<lparr>vfs := v\<rparr>;
           let k = set_ram k (ram_write (ram_of k) program_data_ptr out);
           if res \<noteq> 1 then Some (- EIO, k)
           else do {
             p \<leftarrow> process_store k process;
             let k = put_process k process (p\<lparr>filetype := PROCESS_FILETYPE_BINARY, proc_ptr := program_data_ptr,
               proc_size := stat_filesize stat\<rparr>);
             (res, v) \<leftarrow> fclose vt (vfs k) fd;
             Some (res, k\<lparr>vfs := v\<rparr>)
           }
         }
       }
     }
   }"

text \<open>\<^verbatim>\<open>elf_file\<close> is still 0 when \<^verbatim>\<open>elf_load\<close> has not stored a file.\<close>

definition process_load_elf :: "'d vtable \<Rightarrow> 'd kernel \<Rightarrow> cbuf \<Rightarrow> addr \<Rightarrow> (int \<times> 'd kernel) option" where
  "process_load_elf vt k fname process = do {
     (res, file_out, k) \<leftarrow> elf_load vt k fname;
     if res < 0 then Some (res, k)
     else do {
       p \<leftarrow> process_store k process;
       Some (res, put_process k process (p\<lparr>filetype := PROCESS_FILETYPE_ELF,
         proc_ptr := (case file_out of None \<Rightarrow> 0 | Some file \<Rightarrow> file)\<rparr>))
     }
   }"

definition process_load_data :: "'d vtable \<Rightarrow> 'd kernel \<Rightarrow> cbuf \<Rightarrow> addr \<Rightarrow> (int \<times> 'd kernel) option" where
  "process_load_data vt k fname process = do {
     (res, k) \<leftarrow> process_load_elf vt k fname process;
     if res = - EINFORMAT then process_load_binary vt k fname process else Some (res, k)
   }"

section \<open>Mapping it\<close>

definition task_flags :: u32 where
  "task_flags = ucast (PAGING_IS_PRESENT OR PAGING_ACCESS_BY_ALL OR PAGING_IS_WRITABLE)"

text \<open>The result of the mapping is dropped.\<close>

definition process_map_binary :: "'d kernel \<Rightarrow> addr \<Rightarrow> (int \<times> 'd kernel) option" where
  "process_map_binary k process = do {
     p \<leftarrow> process_store k process;
     t \<leftarrow> task_store k (proc_task p);
     let (_, m) = paging_map_to (ram_of k) (page_directory t) RASOS_PROGRAM_VIRTUAL_ADDRESS (proc_ptr p)
       (paging_align_address (proc_ptr p + proc_size p)) task_flags;
     Some (0, set_ram k m)
   }"

definition segment_flags :: "elf32_phdr \<Rightarrow> u32" where
  "segment_flags phdr =
     (let flags = PAGING_IS_PRESENT OR PAGING_ACCESS_BY_ALL in
      ucast (if p_flags phdr AND PF_W \<noteq> 0 then flags OR PAGING_IS_WRITABLE else flags))"

definition map_segment :: "ram \<Rightarrow> addr \<Rightarrow> elf_file \<Rightarrow> elf32_phdr \<Rightarrow> int \<times> ram" where
  "map_segment m chunk f phdr =
     (let phdr_phys_address = elf_phdr_phys_address f phdr in
      paging_map_to m chunk (paging_align_to_lower_page (p_vaddr phdr))
        (paging_align_to_lower_page phdr_phys_address)
        (paging_align_address (phdr_phys_address + p_filesz phdr)) (segment_flags phdr))"

text \<open>The loop over the program headers from \<open>i\<close> on, \<open>n\<close> of them left.\<close>

primrec map_elf_loop :: "ram \<Rightarrow> addr \<Rightarrow> elf_file \<Rightarrow> addr \<Rightarrow> nat \<Rightarrow> int \<Rightarrow> nat \<Rightarrow> int \<times> ram" where
  "map_elf_loop m chunk f phdrs i res 0 = (res, m)"
| "map_elf_loop m chunk f phdrs i res (Suc n) =
     (let (res, m) = map_segment m chunk f (elf32_phdr_at m (phdrs + 32 * of_nat i)) in
      if res < 0 then (res, m) else map_elf_loop m chunk f phdrs (Suc i) res n)"

definition process_map_elf :: "'d kernel \<Rightarrow> addr \<Rightarrow> (int \<times> 'd kernel) option" where
  "process_map_elf k process = do {
     p \<leftarrow> process_store k process;
     f \<leftarrow> elf_files k (proc_ptr p);
     t \<leftarrow> task_store k (proc_task p);
     let hdr = elf_header f;
     let phdrs = elf_pheader (ram_of k) hdr;
     let (res, m) = map_elf_loop (ram_of k) (page_directory t) f phdrs 0 0
       (unat (e_phnum (elf_header_at (ram_of k) hdr)));
     Some (res, set_ram k m)
   }"

text \<open>Any other file type panics.\<close>

definition process_map_memory :: "'d kernel \<Rightarrow> addr \<Rightarrow> (int \<times> 'd kernel) option" where
  "process_map_memory k process = do {
     p \<leftarrow> process_store k process;
     if filetype p = PROCESS_FILETYPE_ELF then process_map_elf k process
     else if filetype p = PROCESS_FILETYPE_BINARY then process_map_binary k process
     else None
   }"

section \<open>Loading a process\<close>

text \<open>
  Up to the label \<^verbatim>\<open>out\<close>: the result, \<^verbatim>\<open>_process\<close>, what is stored in \<^verbatim>\<open>*process\<close> and the state.
  When the slot is taken \<^verbatim>\<open>_process\<close> is read at \<^verbatim>\<open>out\<close> without ever having been set.
\<close>

definition load_for_slot_body ::
  "'d vtable \<Rightarrow> 'd kernel \<Rightarrow> cbuf \<Rightarrow> int \<Rightarrow> (int \<times> addr option \<times> addr option \<times> 'd kernel) option" where
  "load_for_slot_body vt k fname slot =
     (if process_get k slot \<noteq> 0 then Some (- EISTKN, None, None, k)
      else do {
        (process, k) \<leftarrow> kernel_zalloc k 5280;
        if process = 0 then Some (- ENOMEM, Some process, None, k)
        else do {
          let k = process_init k process;
          (res, k) \<leftarrow> process_load_data vt k fname process;
          if res < 0 then Some (res, Some process, None, k)
          else do {
            (program_stack_ptr, k) \<leftarrow> kernel_zalloc k RASOS_USER_PROGRAM_STACK_SIZE;
            if program_stack_ptr = 0 then Some (- ENOMEM, Some process, None, k)
            else do {
              (task, k) \<leftarrow> task_new k process;
              if ERROR_I task = 0 then Some (ERROR_I task, Some process, None, k)
              else do {
                p \<leftarrow> process_store k process;
                name \<leftarrow> strncpy (proc_filename p) fname 128;
                let k = put_process k process (p\<lparr>proc_filename := name, proc_stack := program_stack_ptr,
                  proc_id := word_of_int slot, proc_task := task\<rparr>);
                (res, k) \<leftarrow> process_map_memory k process;
                if res < 0 then Some (res, Some process, None, k)
                else Some (res, Some process, Some process, k\<lparr>processes := (processes k)[nat slot := process]\<rparr>)
              }
            }
          }
        }
      })"

definition process_load_for_slot ::
  "'d vtable \<Rightarrow> 'd kernel \<Rightarrow> cbuf \<Rightarrow> int \<Rightarrow> (int \<times> addr option \<times> 'd kernel) option" where
  "process_load_for_slot vt k fname slot = do {
     (res, process, process_out, k) \<leftarrow> load_for_slot_body vt k fname slot;
     if res < 0 then do {
       a \<leftarrow> process;
       if a = 0 then Some (res, process_out, k)
       else do {
         p \<leftarrow> process_store k a;
         if proc_task p \<noteq> 0 then do { (_, k) \<leftarrow> task_free k (proc_task p); Some (res, process_out, k) }
         else Some (res, process_out, k)
       }
     }
     else Some (res, process_out, k)
   }"

definition process_load :: "'d vtable \<Rightarrow> 'd kernel \<Rightarrow> cbuf \<Rightarrow> (int \<times> addr option \<times> 'd kernel) option" where
  "process_load vt k fname =
     (let process_slot = process_get_free_slot k in
      if process_slot < 0 then Some (- EISTKN, None, k)
      else do {
        (res, process_out, k) \<leftarrow> process_load_for_slot vt k fname process_slot;
        if res < 0 then Some (res, process_out, k)
        else do {
          a \<leftarrow> process_out;
          p \<leftarrow> process_store k a;
          t \<leftarrow> task_store k (proc_task p);
          let (_, m) = paging_map_to (ram_of k) (page_directory t) RASOS_PROGRAM_VIRTUAL_STACK_ADDRESS_TOP
            (proc_stack p) (paging_align_address (proc_stack p + RASOS_USER_PROGRAM_STACK_SIZE)) task_flags;
          Some (res, process_out, set_ram k m)
        }
      })"

definition process_load_switch :: "'d vtable \<Rightarrow> 'd kernel \<Rightarrow> cbuf \<Rightarrow> (int \<times> addr option \<times> 'd kernel) option" where
  "process_load_switch vt k fname = do {
     (res, process_out, k) \<leftarrow> process_load vt k fname;
     if res = 0 then do {
       a \<leftarrow> process_out;
       Some (res, process_out, snd (process_switch k a))
     }
     else Some (res, process_out, k)
   }"

end
