(* ===== verification/Input.thy ===== *)
theory Input
  imports Process
begin

text \<open>
  The keyboard drivers and the path of a key to a process: \<^verbatim>\<open>src/keyboard/keyboard.c\<close> around the
  ring buffer of the theory \<open>Keyboard\<close>, and the PS/2 driver \<^verbatim>\<open>src/keyboard/qwerty.c\<close>.
\<close>

section \<open>Constants (qwerty.h)\<close>

definition PS2_PORT :: u16 where "PS2_PORT = 0x64"
definition PS2_COMMAND_ENABLE_FIRST_PORT :: byte where "PS2_COMMAND_ENABLE_FIRST_PORT = 0xAE"
definition QWERTY_KEYBOARD_KEY_RELEASED :: byte where "QWERTY_KEYBOARD_KEY_RELEASED = 0x80"
definition ISR_KEYBOARD_INTERRUPT :: int where "ISR_KEYBOARD_INTERRUPT = 0x21"
definition KEYBOARD_INPUT_PORT :: u16 where "KEYBOARD_INPUT_PORT = 0x60"
definition RASOS_TOTAL_INTERRUPTS :: int where [simp]: "RASOS_TOTAL_INTERRUPTS = 512"

section \<open>Keys of a process (keyboard.c)\<close>

definition keyboard_push :: "'d kernel \<Rightarrow> byte \<Rightarrow> 'd kernel option" where
  "keyboard_push k c =
     (let process = process_current k in
      if process = 0 then Some k
      else do {
        p \<leftarrow> process_store k process;
        Some (put_process k process (p\<lparr>keyboard := push_key (keyboard p) c\<rparr>))
      })"

definition keyboard_pop :: "'d kernel \<Rightarrow> (byte \<times> 'd kernel) option" where
  "keyboard_pop k =
     (if current_task k = 0 then Some (0, k)
      else do {
        t \<leftarrow> task_store k (current_task k);
        p \<leftarrow> process_store k (task_process t);
        let (c, kb) = pop_key (keyboard p);
        Some (c, put_process k (task_process t) (p\<lparr>keyboard := kb\<rparr>))
      })"

section \<open>The PS/2 driver (qwerty.c)\<close>

text \<open>\<^verbatim>\<open>idt_register_interrupt_callback\<close> of \<^verbatim>\<open>idt.c\<close>.\<close>

definition idt_register_interrupt_callback ::
  "'d kernel \<Rightarrow> int \<Rightarrow> interrupt_callback \<Rightarrow> int \<times> 'd kernel" where
  "idt_register_interrupt_callback k interrupt callback =
     (if interrupt < 0 \<or> interrupt \<ge> RASOS_TOTAL_INTERRUPTS then (- EINVARG, k)
      else (0, k\<lparr>interrupt_callbacks := (interrupt_callbacks k)[nat interrupt := Some callback]\<rparr>))"

definition qwerty_keyboard_init :: "'d ports \<Rightarrow> 'd kernel \<Rightarrow> int \<times> 'd kernel" where
  "qwerty_keyboard_init io k =
     (let (_, k) = idt_register_interrupt_callback k ISR_KEYBOARD_INTERRUPT Qwerty_keyboard_handle_interrupt
      in (0, set_dev k (outb io PS2_PORT PS2_COMMAND_ENABLE_FIRST_PORT (fs_dev (lower (vfs k))))))"

definition qwerty_init :: keyboard_driver where
  "qwerty_init = Qwerty_keyboard"

text \<open>The interrupt handler; a scan code just past the table has no defined character.\<close>

definition qwerty_keyboard_handle_interrupt :: "'d ports \<Rightarrow> 'd kernel \<Rightarrow> 'd kernel option" where
  "qwerty_keyboard_handle_interrupt io k = do {
     k \<leftarrow> kernel_page k;
     let (scancode, d) = insb io KEYBOARD_INPUT_PORT (fs_dev (lower (vfs k)));
     let (_, d) = insb io KEYBOARD_INPUT_PORT d;
     let k = set_dev k d;
     if scancode AND QWERTY_KEYBOARD_KEY_RELEASED \<noteq> 0 then Some k
     else do {
       c \<leftarrow> qwerty_keyboard_scancode_to_char scancode;
       k \<leftarrow> (if c \<noteq> 0 then keyboard_push k c else Some k);
       task_page k
     }
   }"

section \<open>The list of drivers (keyboard.c)\<close>

text \<open>The driver goes to the end of the list and is initialised; the only driver there is has an
  \<^verbatim>\<open>init\<close> function.\<close>

definition keyboard_insert :: "'d ports \<Rightarrow> 'd kernel \<Rightarrow> keyboard_driver \<Rightarrow> int \<times> 'd kernel" where
  "keyboard_insert io k driver =
     (let k = k\<lparr>keyboards := keyboards k @ [driver]\<rparr>
      in case driver of Qwerty_keyboard \<Rightarrow> qwerty_keyboard_init io k)"

definition keyboard_init :: "'d ports \<Rightarrow> 'd kernel \<Rightarrow> 'd kernel" where
  "keyboard_init io k = snd (keyboard_insert io k qwerty_init)"

end
