(* ===== verification/Syscalls.thy ===== *)
theory Syscalls
  imports Input
begin

text \<open>
  The system calls, \<^verbatim>\<open>src/isr80h/syscalls.c\<close>, and the tables that lead to them and to the
  interrupt callbacks, \<^verbatim>\<open>src/isr80h/isr80h.c\<close> and \<^verbatim>\<open>src/idt/idt.c\<close>.  A panic never returns.
\<close>

definition RASOS_MAX_ISR80H_COMMANDS :: int where [simp]: "RASOS_MAX_ISR80H_COMMANDS = 1024"
definition KERNEL_CODE_SELECTOR :: u16 where "KERNEL_CODE_SELECTOR = 0x08"
definition KERNEL_DATA_SELECTOR :: u32 where "KERNEL_DATA_SELECTOR = 0x10"
definition MASTER_PIC_COMMAND_AND_STATUS_REG :: u16 where "MASTER_PIC_COMMAND_AND_STATUS_REG = 0x20"
definition END_OF_INTERRUPT :: byte where "END_OF_INTERRUPT = 0x20"
definition SYSTEM_COMMAND0_SUM :: int where "SYSTEM_COMMAND0_SUM = 0"
definition SYSTEM_COMMAND1_PRINT :: int where "SYSTEM_COMMAND1_PRINT = 1"
definition SYSTEM_COMMAND2_GETKEY :: int where "SYSTEM_COMMAND2_GETKEY = 2"
definition SYSTEM_COMMAND3_PUTCHAR :: int where "SYSTEM_COMMAND3_PUTCHAR = 3"

section \<open>The commands (syscalls.c)\<close>

definition isr80h_command0_sum :: "'d kernel \<Rightarrow> interrupt_frame \<Rightarrow> (u32 \<times> 'd kernel) option" where
  "isr80h_command0_sum k frame = do {
     (v2, k) \<leftarrow> task_get_stack_item k (current_task k) 1;
     (v1, k) \<leftarrow> task_get_stack_item k (current_task k) 0;
     Some (v1 + v2, k)
   }"

text \<open>\<^verbatim>\<open>stack_buf\<close> is what the 1024 bytes of \<^verbatim>\<open>buf\<close> on the kernel stack hold before the copy.\<close>

definition isr80h_command1_print ::
  "cbuf \<Rightarrow> 'd kernel \<Rightarrow> interrupt_frame \<Rightarrow> (u32 \<times> 'd kernel) option" where
  "isr80h_command1_print stack_buf k frame = do {
     (user_space_msg_buffer, k) \<leftarrow> task_get_stack_item k (current_task k) 0;
     (_, buf, k) \<leftarrow> copy_string_from_task k (current_task k) user_space_msg_buffer stack_buf 1024;
     k \<leftarrow> kernel_print k buf;
     Some (0, k)
   }"

definition isr80h_command2_getkey :: "'d kernel \<Rightarrow> interrupt_frame \<Rightarrow> (u32 \<times> 'd kernel) option" where
  "isr80h_command2_getkey k frame = do { (c, k) \<leftarrow> keyboard_pop k; Some (scast c, k) }"

definition isr80h_command3_putchar :: "'d kernel \<Rightarrow> interrupt_frame \<Rightarrow> (u32 \<times> 'd kernel) option" where
  "isr80h_command3_putchar k frame = do {
     (c, k) \<leftarrow> task_get_stack_item k (current_task k) 0;
     Some (0, k\<lparr>console := terminal_default_putchar (console k) (ucast c) 15\<rparr>)
   }"

definition run_command ::
  "cbuf \<Rightarrow> 'd kernel \<Rightarrow> isr80h_command \<Rightarrow> interrupt_frame \<Rightarrow> (u32 \<times> 'd kernel) option" where
  "run_command stack_buf k c frame = (case c of
       Isr80h_command0_sum \<Rightarrow> isr80h_command0_sum k frame
     | Isr80h_command1_print \<Rightarrow> isr80h_command1_print stack_buf k frame
     | Isr80h_command2_getkey \<Rightarrow> isr80h_command2_getkey k frame
     | Isr80h_command3_putchar \<Rightarrow> isr80h_command3_putchar k frame)"

section \<open>Registration and dispatch (idt.c, isr80h.c)\<close>

definition isr80h_register_command :: "'d kernel \<Rightarrow> int \<Rightarrow> isr80h_command \<Rightarrow> 'd kernel option" where
  "isr80h_register_command k command_id command =
     (if command_id < 0 \<or> command_id \<ge> RASOS_MAX_ISR80H_COMMANDS then None
      else if isr80h_commands k ! nat command_id \<noteq> None then None
      else Some (k\<lparr>isr80h_commands := (isr80h_commands k)[nat command_id := Some command]\<rparr>))"

definition isr80h_register_commands :: "'d kernel \<Rightarrow> 'd kernel option" where
  "isr80h_register_commands k = do {
     k \<leftarrow> isr80h_register_command k SYSTEM_COMMAND0_SUM Isr80h_command0_sum;
     k \<leftarrow> isr80h_register_command k SYSTEM_COMMAND1_PRINT Isr80h_command1_print;
     k \<leftarrow> isr80h_register_command k SYSTEM_COMMAND2_GETKEY Isr80h_command2_getkey;
     isr80h_register_command k SYSTEM_COMMAND3_PUTCHAR Isr80h_command3_putchar
   }"

definition isr80h_handle_command ::
  "cbuf \<Rightarrow> 'd kernel \<Rightarrow> int \<Rightarrow> interrupt_frame \<Rightarrow> (u32 \<times> 'd kernel) option" where
  "isr80h_handle_command stack_buf k command frame =
     (if command < 0 \<or> command \<ge> RASOS_MAX_ISR80H_COMMANDS then Some (0, k)
      else case isr80h_commands k ! nat command of
        None \<Rightarrow> Some (0, k)
      | Some c \<Rightarrow> run_command stack_buf k c frame)"

definition isr80h_handler ::
  "cbuf \<Rightarrow> 'd kernel \<Rightarrow> int \<Rightarrow> interrupt_frame \<Rightarrow> (u32 \<times> 'd kernel) option" where
  "isr80h_handler stack_buf k command frame = do {
     k \<leftarrow> kernel_page k;
     k \<leftarrow> task_current_save_state k frame;
     (res, k) \<leftarrow> isr80h_handle_command stack_buf k command frame;
     k \<leftarrow> task_page k;
     Some (res, k)
   }"

definition run_callback :: "'d ports \<Rightarrow> 'd kernel \<Rightarrow> interrupt_callback \<Rightarrow> 'd kernel option" where
  "run_callback io k c = (case c of Qwerty_keyboard_handle_interrupt \<Rightarrow> qwerty_keyboard_handle_interrupt io k)"

definition interrupt_handler :: "'d ports \<Rightarrow> 'd kernel \<Rightarrow> int \<Rightarrow> interrupt_frame \<Rightarrow> 'd kernel option" where
  "interrupt_handler io k interrupt frame =
     (if interrupt < 0 \<or> interrupt \<ge> RASOS_TOTAL_INTERRUPTS then None
      else do {
        k \<leftarrow> kernel_page k;
        k \<leftarrow> (case interrupt_callbacks k ! nat interrupt of
               None \<Rightarrow> Some k
             | Some callback \<Rightarrow> do {
                 k \<leftarrow> task_current_save_state k frame;
                 run_callback io k callback
               });
        k \<leftarrow> task_page k;
        Some (set_dev k (outb io MASTER_PIC_COMMAND_AND_STATUS_REG END_OF_INTERRUPT (fs_dev (lower (vfs k)))))
      })"

section \<open>The descriptor table (idt.c)\<close>

definition idt_set :: "'d kernel \<Rightarrow> int \<Rightarrow> addr \<Rightarrow> 'd kernel option" where
  "idt_set k n address =
     (if n < 0 \<or> n \<ge> int (length (idt_descriptors k)) then None
      else Some (k\<lparr>idt_descriptors := (idt_descriptors k)[nat n := \<lparr>offset_1 = ucast (address AND 0x0000FFFF),
        selector = KERNEL_CODE_SELECTOR, desc_zero = 0, type_attributes = 0xEE,
        offset_2 = ucast (drop_bit 16 address)\<rparr>]\<rparr>))"

definition zero_idt_desc :: idt_desc where
  "zero_idt_desc = \<lparr>offset_1 = 0, selector = 0, desc_zero = 0, type_attributes = 0, offset_2 = 0\<rparr>"

primrec idt_set_loop :: "'d kernel \<Rightarrow> (nat \<Rightarrow> addr) \<Rightarrow> nat \<Rightarrow> 'd kernel option" where
  "idt_set_loop k interrupt_pointer_table 0 = Some k"
| "idt_set_loop k interrupt_pointer_table (Suc n) = do {
     k \<leftarrow> idt_set_loop k interrupt_pointer_table n;
     idt_set k (int n) (interrupt_pointer_table n)
   }"

text \<open>
  The addresses of the assembly entry points and of \<^verbatim>\<open>idt_zero\<close>, and the address of the table
  itself, are what the linker makes them.
\<close>

definition idt_init :: "addr \<Rightarrow> (nat \<Rightarrow> addr) \<Rightarrow> addr \<Rightarrow> addr \<Rightarrow> 'd kernel \<Rightarrow> 'd kernel option" where
  "idt_init idt_address interrupt_pointer_table idt_zero_address isr80h_wrapper k = do {
     let k = k\<lparr>idt_descriptors := replicate (nat RASOS_TOTAL_INTERRUPTS) zero_idt_desc,
       idtr_descriptor := \<lparr>idtr_limit = 8 * 512 - 1, idtr_base = idt_address\<rparr>\<rparr>;
     k \<leftarrow> idt_set_loop k interrupt_pointer_table (nat RASOS_TOTAL_INTERRUPTS);
     k \<leftarrow> idt_set k 0 idt_zero_address;
     idt_set k 0x80 isr80h_wrapper
   }"

definition idt_zero :: "'d kernel \<Rightarrow> 'd kernel option" where
  "idt_zero k = kernel_print k (c_string (''Divide by zero error'' @ [CHR 0x0A]))"

end
