(* ===== verification/AddressSpace.thy ===== *)
theory AddressSpace
  imports Task
begin

text \<open>
  What the processor reads through the page tables that \<^verbatim>\<open>paging.c\<close> builds: translation in terms
  of the entry of a page, strings and copies in an address space, and what leaves its tables as
  they are.
\<close>

section \<open>Pages and offsets\<close>

lemma offset_less [simp]: "unat (va AND 0xFFF :: u32) < 4096"
proof -
  have "va AND 0xFFF = take_bit 12 va" by (simp add: take_bit_eq_mask mask_eq_exp_minus_1)
  then show ?thesis using take_bit_nat_less_exp [of 12 "unat va"] by (simp add: unsigned_take_bit_eq)
qed

lemma page_split: "page_base va + (va AND 0xFFF) = va"
proof -
  have e: "(0xFFFFF000 :: u32) = NOT (mask 12)" "(0xFFF :: u32) = mask 12" by (simp_all add: mask_eq_exp_minus_1)
  have "page_base va + (va AND 0xFFF) = page_base va OR (va AND 0xFFF)"
    unfolding page_base_def e by (rule disjunctive_add) (simp add: bit_simps)
  also have "\<dots> = va"
    unfolding page_base_def e by (rule bit_word_eqI) (auto simp: bit_simps)
  finally show ?thesis .
qed

lemma page_base_idem [simp]: "page_base (page_base a) = page_base a"
  by (simp add: page_base_aligned)

lemma index_page_base [simp]: "dir_index (page_base va) = dir_index va" "tab_index (page_base va) = tab_index va"
proof -
  have "4096 * (n div 4096) div 4194304 = n div 4194304" for n :: nat
    using div_mult_mult1 [of 4096 "n div 4096" 1024] div_mult2_eq [of n 4096 1024] by simp
  then show "dir_index (page_base va) = dir_index va" by (simp add: dir_index_def unat_page_base)
  show "tab_index (page_base va) = tab_index va" by (simp add: tab_index_def unat_page_base)
qed

lemma page_base_bit: "n < 12 \<Longrightarrow> \<not> bit (page_base a) n"
proof -
  assume n: "n < 12"
  have e: "(0xFFFFF000 :: u32) = NOT (mask 12)" by (simp add: mask_eq_exp_minus_1)
  show ?thesis unfolding page_base_def e using n by (simp add: bit_simps)
qed

lemma translate_eq:
  assumes "present_tables m d"
  shows "translate m d va = (let e = paging_get_table_entry m d (page_base va) in
    if bit e 0 then Some (page_base e + (va AND 0xFFF)) else None)"
  using assms by (simp add: translate_def paging_get_table_entry_eq page_base_def [symmetric] present_tables_def Let_def)

text \<open>Memory outside of the directory and its tables does not matter.\<close>

lemma translate_frame:
  assumes d: "page_aligned d"
    and eq: "\<And>a. page_base a = d \<or> page_base a \<in> table_addr m d ` {..<1024} \<Longrightarrow> m' a = m a"
  shows "translate m' d = translate m d"
proof
  fix va
  have e: "table_entry m' d (dir_index va) = table_entry m d (dir_index va)"
    by (rule table_entry_outside) (use d eq in auto)
  let ?t = "table_addr m d (dir_index va)"
  have t: "?t \<in> table_addr m d ` {..<1024}" by simp
  have "table_entry m' ?t (tab_index va) = table_entry m ?t (tab_index va)"
    by (rule table_entry_outside) (use eq t in auto)
  then show "translate m' d va = translate m d va"
    by (simp add: translate_def e page_base_def [symmetric] Let_def)
qed

section \<open>Copying a string through a page mapped to itself\<close>

text \<open>
  The string \<open>s\<close>, terminated, is readable at \<open>va\<close> under \<open>d\<close>, and none of its bytes lies in the
  physical pages \<open>bad\<close>.
\<close>

definition user_string :: "ram \<Rightarrow> addr \<Rightarrow> addr set \<Rightarrow> addr \<Rightarrow> cbuf \<Rightarrow> bool" where
  "user_string m d bad va s \<longleftrightarrow> 0 \<notin> set s \<and> (\<forall>i\<le>length s. \<exists>pa. translate m d (va + of_nat i) = Some pa
     \<and> m pa = (s @ [0]) ! i \<and> page_base pa \<notin> bad)"

lemma user_string_read: "user_string m d bad va s \<Longrightarrow> virt_read m d va = Some (if s = [] then 0 else hd s)"
  by (auto simp: user_string_def virt_read_def nth_append hd_conv_nth dest!: spec [of _ 0])

lemma user_string_tl:
  assumes "user_string m d bad va (c # s)"
  shows "user_string m d bad (va + 1) s"
proof -
  have "\<exists>pa. translate m d (va + 1 + of_nat i) = Some pa \<and> m pa = (s @ [0]) ! i \<and> page_base pa \<notin> bad"
    if "i \<le> length s" for i
  proof -
    have "Suc i \<le> length (c # s)" using that by simp
    then obtain pa where "translate m d (va + of_nat (Suc i)) = Some pa" "m pa = ((c # s) @ [0]) ! Suc i" "page_base pa \<notin> bad"
      using assms unfolding user_string_def by blast
    then show ?thesis by (simp add: add.assoc)
  qed
  then show ?thesis using assms by (simp add: user_string_def)
qed

lemma user_string_frame:
  assumes "user_string m d bad va s" "translate m' d = translate m d" "bad' \<subseteq> bad"
    "\<And>a. page_base a \<notin> bad \<Longrightarrow> m' a = m a"
  shows "user_string m' d bad' va s"
  unfolding user_string_def
proof (intro conjI allI impI)
  fix i assume "i \<le> length s"
  then obtain pa where "translate m d (va + of_nat i) = Some pa" "m pa = (s @ [0]) ! i" "page_base pa \<notin> bad"
    using assms(1) by (auto simp: user_string_def)
  then show "\<exists>pa. translate m' d (va + of_nat i) = Some pa \<and> m' pa = (s @ [0]) ! i \<and> page_base pa \<notin> bad'"
    using assms(2-4) by auto
qed (use assms(1) in \<open>simp add: user_string_def\<close>)

lemma virt_strncpy_loop_ok:
  assumes agree: "\<And>m. (\<forall>a. page_base a \<noteq> p \<longrightarrow> m a = m0 a) \<Longrightarrow> translate m d = translate m0 d"
    and str: "user_string m0 d {p} src s"
    and dest: "\<And>i. i \<le> n \<Longrightarrow> translate m0 d (dest + of_nat i) = Some (dest + of_nat i) \<and> page_base (dest + of_nat i) = p"
    and m: "\<forall>a. page_base a \<noteq> p \<longrightarrow> m a = m0 a"
  shows "virt_strncpy_loop m d dest src n = Some (ram_write m dest (take n s @ [0]))"
  using str dest m
proof (induction n arbitrary: m dest src s)
  case 0
  then show ?case using agree [of m] 0(2) [of 0] by (simp add: virt_write_def fun_eq_iff)
next
  case (Suc n)
  have tr: "translate m d = translate m0 d" by (rule agree [OF Suc.prems(3)])
  have us: "user_string m d {p} src s"
    by (rule user_string_frame [OF Suc.prems(1) tr]) (use Suc.prems(3) in simp_all)
  have w: "translate m d dest = Some dest" "page_base dest = p" using Suc.prems(2) [of 0] tr by simp_all
  show ?case
  proof (cases s)
    case Nil
    then show ?thesis using user_string_read [OF us] w by (simp add: virt_write_def fun_eq_iff)
  next
    case (Cons c s')
    then have c: "c \<noteq> 0" "virt_read m d src = Some c"
      using user_string_read [OF us] us by (auto simp: user_string_def)
    let ?m = "m(dest := c)"
    have m1: "\<forall>a. page_base a \<noteq> p \<longrightarrow> ?m a = m0 a" using Suc.prems(3) w(2) by auto
    have "user_string m0 d {p} (src + 1) s'" using user_string_tl Suc.prems(1) Cons by blast
    moreover have "translate m0 d (dest + 1 + of_nat i) = Some (dest + 1 + of_nat i) \<and> page_base (dest + 1 + of_nat i) = p"
      if "i \<le> n" for i
      using Suc.prems(2) [of "Suc i"] that by (simp add: add.assoc)
    ultimately have "virt_strncpy_loop ?m d (dest + 1) (src + 1) n = Some (ram_write ?m (dest + 1) (take n s' @ [0]))"
      using Suc.IH m1 by blast
    then show ?thesis using c w Cons by (simp add: virt_write_def)
  qed
qed

section \<open>Frames of an address space\<close>

lemma chunk_frame:
  assumes wf: "wf_chunk m c" and eq: "\<And>a. page_base a \<in> chunk_pages m c \<Longrightarrow> m' a = m a"
  shows "directory_entry m' c = directory_entry m c"
    and "\<And>i. i < 1024 \<Longrightarrow> table_entry m' (directory_entry m c) i = table_entry m (directory_entry m c) i"
    and "wf_chunk m' c" and "chunk_pages m' c = chunk_pages m c"
    and "present_tables m' (directory_entry m c) = present_tables m (directory_entry m c)"
    and "\<And>va. page_aligned va \<Longrightarrow> lookup_page m' c va = lookup_page m c va"
    and "translate m' (directory_entry m c) = translate m (directory_entry m c)"
proof -
  let ?d = "directory_entry m c"
  have al: "page_aligned c" "page_aligned ?d" using wf by (simp_all add: wf_chunk_def wf_directory_def)
  have pg: "table_entry m' q i = table_entry m q i" if "q \<in> chunk_pages m c" "page_aligned q" "i < 1024" for q i
    by (rule table_entry_outside) (use that eq in auto)
  show dir: "directory_entry m' c = ?d"
    using pg [of c 0] al(1) by (simp add: directory_entry_eq chunk_pages_def)
  show te: "table_entry m' ?d i = table_entry m ?d i" if "i < 1024" for i
    using pg [of ?d i] al(2) that by (simp add: chunk_pages_def)
  have im: "table_addr m' ?d ` {..<1024} = table_addr m ?d ` {..<1024}" by (intro image_cong) (simp_all add: te)
  then show "chunk_pages m' c = chunk_pages m c" by (simp add: chunk_pages_def dir)
  have "inj_on (table_addr m' ?d) {..<1024} = inj_on (table_addr m ?d) {..<1024}"
    by (rule inj_on_cong) (simp add: te)
  then show "wf_chunk m' c" using wf im by (simp add: wf_chunk_def wf_directory_def dir)
  show "present_tables m' ?d = present_tables m ?d" by (simp add: present_tables_def te)
  show "lookup_page m' c va = lookup_page m c va" if va: "page_aligned va" for va
  proof -
    have "table_addr m ?d (dir_index va) \<in> chunk_pages m c" by (simp add: chunk_pages_def)
    from pg [OF this page_aligned_page_base tab_index_less, of va] show ?thesis
      by (simp add: dir paging_get_table_entry_eq va te)
  qed
  show "translate m' ?d = translate m ?d"
    by (rule translate_frame [OF al(2)]) (use eq in \<open>auto simp: chunk_pages_def\<close>)
qed

lemma tables_only_pages:
  assumes "tables_only m c m'"
  shows "chunk_pages m' c = chunk_pages m c" "\<And>a. page_base a \<notin> chunk_pages m c \<Longrightarrow> m' a = m a"
proof -
  let ?d = "directory_entry m c"
  have "table_addr m' ?d ` {..<1024} = table_addr m ?d ` {..<1024}"
    using assms unfolding tables_only_def by (intro image_cong) auto
  then show "chunk_pages m' c = chunk_pages m c" using assms by (simp add: chunk_pages_def tables_only_def)
  show "m' a = m a" if "page_base a \<notin> chunk_pages m c" for a
    using assms that by (simp add: chunk_pages_def tables_only_def)
qed

text \<open>Two address spaces with the same entry for a page translate its addresses alike.\<close>

lemma translate_same_entry:
  assumes "present_tables m d" "present_tables m' d'"
    "paging_get_table_entry m' d' (page_base va) = paging_get_table_entry m d (page_base va)"
  shows "translate m' d' va = translate m d va"
  using assms by (simp add: translate_eq)

lemma translate_self:
  assumes "present_tables m d" "page_aligned p" "unat i < 4096"
    "paging_get_table_entry m d p = p OR ucast (b :: byte)" "bit b 0"
  shows "translate m d (p + i) = Some (p + i)"
proof -
  have pb: "page_base (p + i) = p" by (rule page_base_in_page [OF assms(2,3)])
  have "page_base (p OR ucast b) = p" by (rule page_base_flags [OF assms(2)])
  moreover have "bit (p OR ucast b) 0" using assms(5) by (simp add: bit_simps)
  ultimately show ?thesis
    using page_split [of "p + i"] by (simp add: translate_eq [OF assms(1)] pb assms(4))
qed

lemma kzalloc_outside:
  assumes "kzalloc k n = Some (p, k')" "page_request n" "page_aligned p" "page_base a \<noteq> p"
  shows "phys k' a = phys k a"
proof -
  have "\<not> unat (a - p) < 4096" using page_base_in_page [OF assms(3), of "a - p"] assms(4) by auto
  then show ?thesis using kzalloc_phys [OF assms(1), of a] assms(2) by (simp add: page_request_def)
qed

lemma owns_chunk_kzalloc:
  assumes "owns_chunk k c" "kzalloc k n = Some (p, k')" "page_request n" "page_aligned p" "p \<notin> kheap_used k"
    "kheap_used k' = insert p (kheap_used k)"
  shows "owns_chunk k' c"
proof -
  have wf: "wf_chunk (phys k) c" and sub: "chunk_pages (phys k) c \<subseteq> kheap_used k" using assms(1) by (simp_all add: owns_chunk_def)
  have fr: "phys k' a = phys k a" if "page_base a \<in> chunk_pages (phys k) c" for a
    using kzalloc_outside [OF assms(2-4), of a] that sub assms(5) by auto
  from chunk_frame(3,4) [OF wf fr] sub assms(6) show ?thesis by (auto simp: owns_chunk_def)
qed

section \<open>Page tables before and after\<close>

text \<open>The directory of \<open>c\<close>, its entries and what every page is mapped to are the same.\<close>

definition same_tables :: "ram \<Rightarrow> addr \<Rightarrow> ram \<Rightarrow> bool" where
  "same_tables m c m' \<longleftrightarrow> directory_entry m' c = directory_entry m c
     \<and> (\<forall>l<1024. table_entry m' (directory_entry m c) l = table_entry m (directory_entry m c) l)
     \<and> (\<forall>va. page_aligned va \<longrightarrow> lookup_page m' c va = lookup_page m c va)"

lemma same_tables_refl [simp]: "same_tables m c m"
  by (simp add: same_tables_def)

lemma same_tables_trans: "same_tables m c m1 \<Longrightarrow> same_tables m1 c m2 \<Longrightarrow> same_tables m c m2"
  unfolding same_tables_def by auto

lemma same_tables_facts:
  assumes "same_tables m c m'"
  shows "directory_entry m' c = directory_entry m c" "chunk_pages m' c = chunk_pages m c" "wf_chunk m' c = wf_chunk m c"
    "present_tables m' (directory_entry m c) = present_tables m (directory_entry m c)"
    "\<And>va. page_aligned va \<Longrightarrow> lookup_page m' c va = lookup_page m c va"
proof -
  let ?d = "directory_entry m c"
  show d: "directory_entry m' c = ?d" and "\<And>va. page_aligned va \<Longrightarrow> lookup_page m' c va = lookup_page m c va"
    using assms unfolding same_tables_def by auto
  have t: "table_addr m' ?d l = table_addr m ?d l" if "l < 1024" for l using assms that by (simp add: same_tables_def)
  then have im: "table_addr m' ?d ` {..<1024} = table_addr m ?d ` {..<1024}" by (intro image_cong) auto
  then show "chunk_pages m' c = chunk_pages m c" by (simp add: chunk_pages_def d)
  have "inj_on (table_addr m' ?d) {..<1024} = inj_on (table_addr m ?d) {..<1024}" by (rule inj_on_cong) (simp add: t)
  then show "wf_chunk m' c = wf_chunk m c" by (simp add: wf_chunk_def wf_directory_def d im)
  show "present_tables m' ?d = present_tables m ?d" using assms by (simp add: present_tables_def same_tables_def)
qed

lemma same_tables_frame:
  assumes "wf_chunk m c" "\<And>a. page_base a \<in> chunk_pages m c \<Longrightarrow> m' a = m a"
  shows "same_tables m c m'"
proof -
  have "directory_entry m' c = directory_entry m c" by (rule chunk_frame(1) [OF assms])
  moreover have "table_entry m' (directory_entry m c) l = table_entry m (directory_entry m c) l" if "l < 1024" for l
    by (rule chunk_frame(2) [OF assms that])
  moreover have "lookup_page m' c va = lookup_page m c va" if "page_aligned va" for va
    by (rule chunk_frame(6) [OF assms that])
  ultimately show ?thesis unfolding same_tables_def by blast
qed

section \<open>What stays in memory\<close>

text \<open>Building an address space writes to fresh blocks only.\<close>

lemma fill_table_outside:
  "page_aligned t \<Longrightarrow> page_base a \<noteq> t \<Longrightarrow> n \<le> 1024 \<Longrightarrow> fill_table m t off fl n a = m a"
  by (induction n) (simp_all add: set_table_entry_outside)

lemma new_tables_frame:
  assumes "kheap_ok k" "page_aligned d" "d \<in> kheap_used k" "new_tables k d fl i = Some k'" "i \<le> 1024"
  shows "kheap_ok k' \<and> kheap_used k \<subseteq> kheap_used k'
     \<and> (\<forall>a. page_base a \<in> kheap_used k - {d} \<longrightarrow> phys k' a = phys k a)"
  using assms(4,5)
proof (induction i arbitrary: k')
  case 0
  then show ?case using assms(1) by simp
next
  case (Suc i)
  obtain k1 t k2 where s: "new_tables k d fl i = Some k1" "kzalloc k1 4096 = Some (t, k2)" "t \<noteq> 0"
    "k' = k2\<lparr>phys := set_table_entry (fill_table (phys k2) t (of_nat i * 0x400000) fl 1024) d i (t OR ucast fl OR ucast PAGING_IS_WRITABLE)\<rparr>"
    using Suc.prems(1) by (auto simp: Let_def split: bind_splits if_splits)
  have ih: "kheap_ok k1" "kheap_used k \<subseteq> kheap_used k1" "\<And>a. page_base a \<in> kheap_used k - {d} \<Longrightarrow> phys k1 a = phys k a"
    using Suc.IH [OF s(1)] Suc.prems(2) by auto
  from kpage.alloc_cases [OF ih(1) page_request_4096] s(2,3) have t: "kheap_ok k2" "page_aligned t" "t \<notin> kheap_used k1"
    "kheap_used k2 = insert t (kheap_used k1)" by (metis Pair_inject option.inject)+
  have "phys k' a = phys k a" if a: "page_base a \<in> kheap_used k - {d}" for a
  proof -
    have "page_base a \<noteq> t" "page_base a \<noteq> d" using a ih(2) t(3) by auto
    then have "phys k' a = phys k2 a" unfolding s(4)
      using t(2) assms(2) Suc.prems(2) by (simp add: set_table_entry_outside fill_table_outside)
    also have "\<dots> = phys k1 a" by (rule kzalloc_outside [OF s(2) page_request_4096 t(2)]) fact
    finally show ?thesis using ih(3) [OF a] by simp
  qed
  then show ?case using t ih(2) s(4) by auto
qed

lemma paging_new_4gb_frame:
  assumes k: "kheap_ok k" and new: "paging_new_4gb k fl = Some (c, k')" and a: "page_base a \<in> kheap_used k"
  shows "phys k' a = phys k a"
proof -
  obtain d k1 k2 k3 where s: "kzalloc k 4096 = Some (d, k1)" "new_tables k1 d fl 1024 = Some k2" "kzalloc k2 4 = Some (c, k3)"
    "c \<noteq> 0" "k' = k3\<lparr>phys := store32 (phys k3) c d\<rparr>"
    using new by (auto simp: paging_new_4gb_def split: bind_splits if_splits)
  have "d \<noteq> 0"
  proof
    assume "d = 0"
    then have "new_tables k1 d fl (Suc 0) = None"
      by (auto simp: Let_def split: bind_splits)
    moreover have "new_tables k1 d fl n \<noteq> None \<Longrightarrow> m \<le> n \<Longrightarrow> new_tables k1 d fl m \<noteq> None" for n m
      by (induction n) (auto simp: le_Suc_eq split: bind_splits)
    ultimately show False using s(2) by (metis One_nat_def Suc_leI numeral_One one_le_numeral option.distinct(1))
  qed
  with kpage.alloc_cases [OF k page_request_4096] s(1) have d: "kheap_ok k1" "page_aligned d" "d \<notin> kheap_used k"
    "kheap_used k1 = insert d (kheap_used k)" by (metis Pair_inject option.inject)+
  have m1: "phys k1 a = phys k a" by (rule kzalloc_outside [OF s(1) page_request_4096 d(2)]) (use a d(3) in auto)
  have f: "kheap_ok k2" "kheap_used k1 \<subseteq> kheap_used k2" "phys k2 a = phys k1 a"
    using new_tables_frame [OF d(1,2) _ s(2)] a d(3,4) by auto
  from kpage.alloc_cases [OF f(1) page_request_small(1)] s(3,4) have c: "page_aligned c" "c \<notin> kheap_used k2"
    by (metis Pair_inject option.inject)+
  have ac: "page_base a \<noteq> c" using c(2) a d(4) f(2) by auto
  have "phys k' a = phys k3 a"
    unfolding s(5) using set_table_entry_outside [OF c(1) _ ac, of 0] by (simp add: store_chunk_eq)
  also have "\<dots> = phys k2 a" by (rule kzalloc_outside [OF s(3) page_request_small(1) c(1) ac])
  finally show ?thesis using m1 f(3) by simp
qed


text \<open>An address space takes 1026 blocks off the front of a free run.\<close>

lemma new_tables_rest:
  assumes "kheap_ok k" "new_tables k d fl i = Some k'" "free_blocks k a (i + m)"
  shows "kheap_ok k' \<and> free_blocks k' (a + i) m"
  using assms(2,3)
proof (induction i arbitrary: k' m)
  case 0
  then show ?case using assms(1) by simp
next
  case (Suc i)
  obtain k1 t k2 where s: "new_tables k d fl i = Some k1" "kzalloc k1 4096 = Some (t, k2)"
    "k' = k2\<lparr>phys := set_table_entry (fill_table (phys k2) t (of_nat i * 0x400000) fl 1024) d i (t OR ucast fl OR ucast PAGING_IS_WRITABLE)\<rparr>"
    using Suc.prems(1) by (auto simp: Let_def split: bind_splits if_splits)
  have 1: "kheap_ok k1" "free_blocks k1 (a + i) (Suc m)" using Suc.IH [OF s(1), of "Suc m"] Suc.prems(2) by simp_all
  from kzalloc_rest [OF this(1) page_request_4096 this(2) s(2)] show ?case by (simp add: s(3) free_blocks_def)
qed

lemma paging_new_4gb_rest:
  assumes "kheap_ok k" "paging_new_4gb k fl = Some (c, k')" "free_blocks k a (1026 + m)"
  shows "free_blocks k' (a + 1026) m"
proof -
  obtain d k1 k2 k3 where s: "kzalloc k 4096 = Some (d, k1)" "new_tables k1 d fl 1024 = Some k2" "kzalloc k2 4 = Some (c, k3)"
    "k' = k3\<lparr>phys := store32 (phys k3) c d\<rparr>"
    using assms(2) by (auto simp: paging_new_4gb_def split: bind_splits if_splits)
  have "free_blocks k a (Suc (1024 + Suc m))" using assms(3) by simp
  from kzalloc_rest [OF assms(1) page_request_4096 this s(1)] have 1: "kheap_ok k1" "free_blocks k1 (Suc a) (1024 + Suc m)" .
  from new_tables_rest [OF 1(1) s(2) 1(2)] have 2: "kheap_ok k2" "free_blocks k2 (Suc a + 1024) (Suc m)" by simp_all
  have "Suc (Suc a + 1024) = a + 1026" by simp
  then have "free_blocks k3 (a + 1026) m" using kzalloc_rest(2) [OF 2(1) page_request_small(1) 2(2) s(3)] by (simp only:)
  then show ?thesis by (simp add: s(4) free_blocks_def)
qed

end
