(* ===== verification/UserCopy.thy ===== *)
theory UserCopy
  imports AddressSpace
begin

text \<open>
  \<^verbatim>\<open>copy_string_from_task\<close>: the kernel reads a string of a task through a bounce buffer that it maps
  to itself in the address space of the task for the time of the copy.
\<close>

section \<open>The bounce buffer\<close>

text \<open>The blocks of the heap that are free.\<close>

definition free_pages :: "kmem \<Rightarrow> addr set" where
  "free_pages k = heap_blk ` {..<25600} - kheap_used k"

lemma fresh_page:
  assumes "kheap_ok k'" "p \<in> kheap_used k'" "p \<notin> kheap_used k"
  shows "p \<in> free_pages k"
  using assms taken_blocks_less [OF assms(1)] by (auto simp: free_pages_def kheap_used_blk)

text \<open>
  In \<open>m2\<close> the fresh page \<open>p\<close> is mapped to itself in the address space of \<open>c\<close>, which is otherwise
  that of \<open>m\<close>.
\<close>

definition bounce_mapped :: "ram \<Rightarrow> addr \<Rightarrow> addr \<Rightarrow> ram \<Rightarrow> bool" where
  "bounce_mapped m c p m2 \<longleftrightarrow> wf_chunk m c \<and> present_tables m (directory_entry m c) \<and> page_aligned p
     \<and> p \<notin> chunk_pages m c \<and> wf_chunk m2 c \<and> tables_only m c m2
     \<and> (\<forall>wa. page_aligned wa \<longrightarrow> lookup_page m2 c wa = (if wa = p then p OR 7 else lookup_page m c wa))"

lemma bounce_map:
  assumes "wf_chunk m c" "present_tables m (directory_entry m c)" "page_aligned p" "p \<notin> chunk_pages m c"
  obtains m2 where "paging_map m c p p 7 = (0, m2)" "bounce_mapped m c p m2"
proof -
  obtain m2 where m2: "paging_map m c p p 7 = (0, m2)" "wf_chunk m2 c" "tables_only m c m2"
    "\<And>wa. page_aligned wa \<Longrightarrow> lookup_page m2 c wa = (if wa = p then p OR 7 else lookup_page m c wa)"
    by (rule paging_map_ok [OF assms(1,3,3), of 7]) blast
  with that [OF m2(1)] assms show thesis unfolding bounce_mapped_def by blast
qed

lemma bounce_mapped_facts:
  assumes "bounce_mapped m c p m2"
  shows "directory_entry m2 c = directory_entry m c" "chunk_pages m2 c = chunk_pages m c" "wf_chunk m2 c" "p \<notin> chunk_pages m2 c"
    "\<And>a. page_base a \<notin> chunk_pages m c \<Longrightarrow> m2 a = m a" "present_tables m2 (directory_entry m c)"
    "\<And>i. i < 4096 \<Longrightarrow> translate m2 (directory_entry m c) (p + of_nat i) = Some (p + of_nat i) \<and> page_base (p + of_nat i) = p"
    "\<And>x. \<forall>a. page_base a \<noteq> p \<longrightarrow> x a = m2 a \<Longrightarrow> translate x (directory_entry m c) = translate m2 (directory_entry m c)"
proof -
  have only: "tables_only m c m2" and wf2: "wf_chunk m2 c" and p: "page_aligned p" "p \<notin> chunk_pages m c"
    and l: "lookup_page m2 c p = p OR 7"
    using assms by (simp_all add: bounce_mapped_def)
  show d: "directory_entry m2 c = directory_entry m c" using only by (simp add: tables_only_def)
  show pg: "chunk_pages m2 c = chunk_pages m c" "\<And>a. page_base a \<notin> chunk_pages m c \<Longrightarrow> m2 a = m a"
    using tables_only_pages [OF only] by simp_all
  show "wf_chunk m2 c" "p \<notin> chunk_pages m2 c" using wf2 p pg by simp_all
  show pres: "present_tables m2 (directory_entry m c)"
    using tables_only_present [OF only] assms d by (simp add: bounce_mapped_def)
  show "translate m2 (directory_entry m c) (p + of_nat i) = Some (p + of_nat i) \<and> page_base (p + of_nat i) = p" if "i < 4096" for i
  proof -
    have i: "unat (of_nat i :: u32) < 4096" using that by (simp add: unat_of_nat)
    have "paging_get_table_entry m2 (directory_entry m c) p = p OR ucast (7 :: byte)" using l d by simp
    from translate_self [OF pres p(1) i this] page_base_in_page [OF p(1) i] show ?thesis by simp
  qed
  show "translate x (directory_entry m c) = translate m2 (directory_entry m c)"
    if "\<forall>a. page_base a \<noteq> p \<longrightarrow> x a = m2 a" for x
    using chunk_frame(7) [OF wf2, of x] that p(2) pg(1) d by metis
qed

text \<open>Whatever is read, the copy writes to the page \<open>p\<close> only.\<close>

lemma virt_strncpy_loop_outside:
  assumes agree: "\<And>m. (\<forall>a. page_base a \<noteq> p \<longrightarrow> m a = m0 a) \<Longrightarrow> translate m d = translate m0 d"
    and dest: "\<And>i. i \<le> n \<Longrightarrow> translate m0 d (dest + of_nat i) = Some (dest + of_nat i) \<and> page_base (dest + of_nat i) = p"
    and m: "\<forall>a. page_base a \<noteq> p \<longrightarrow> m a = m0 a" and run: "virt_strncpy_loop m d dest src n = Some m'"
  shows "\<forall>a. page_base a \<noteq> p \<longrightarrow> m' a = m0 a"
  using dest m run
proof (induction n arbitrary: m dest src)
  case 0
  then show ?case using agree [OF 0(2)] 0(1) [of 0] by (auto simp: virt_write_def)
next
  case (Suc n)
  have w: "translate m d dest = Some dest" "page_base dest = p" using Suc.prems(1) [of 0] agree [OF Suc.prems(2)] by simp_all
  obtain c where c: "virt_read m d src = Some c" using Suc.prems(3) by (auto split: bind_splits)
  show ?case
  proof (cases "c = 0")
    case True
    then show ?thesis using Suc.prems(2,3) c w by (auto simp: virt_write_def)
  next
    case False
    then have run: "virt_strncpy_loop (m(dest := c)) d (dest + 1) (src + 1) n = Some m'"
      using Suc.prems(3) c w by (simp add: virt_write_def)
    show ?thesis
    proof (rule Suc.IH [OF _ _ run])
      show "translate m0 d (dest + 1 + of_nat i) = Some (dest + 1 + of_nat i) \<and> page_base (dest + 1 + of_nat i) = p"
        if "i \<le> n" for i
        using Suc.prems(1) [of "Suc i"] that by (simp add: add.assoc)
    qed (use Suc.prems(2) w in auto)
  qed
qed

lemma bounce_outside:
  assumes "bounce_mapped m c p m2" "virt_strncpy_loop m2 (directory_entry m c) p va n = Some m3" "n < 4096"
  shows "\<forall>a. page_base a \<noteq> p \<longrightarrow> m3 a = m2 a"
  by (rule virt_strncpy_loop_outside [OF bounce_mapped_facts(8) [OF assms(1)] bounce_mapped_facts(7) [OF assms(1)] _ assms(2)])
    (use assms(3) in auto)

text \<open>Putting the old entry back makes the address space what it was.\<close>

lemma bounce_restore:
  assumes b: "bounce_mapped m c p m2" and m3: "\<forall>a. page_base a \<noteq> p \<longrightarrow> m3 a = m2 a"
  obtains m4 where "paging_set m3 (directory_entry m c) p (lookup_page m c p) = (0, m4)" "same_tables m c m4"
    "\<And>a. page_base a \<notin> chunk_pages m c \<Longrightarrow> m4 a = m3 a"
proof -
  let ?d = "directory_entry m c"
  note f = bounce_mapped_facts [OF b]
  have p: "page_aligned p" and only: "tables_only m c m2"
    and look2: "\<And>wa. page_aligned wa \<Longrightarrow> lookup_page m2 c wa = (if wa = p then p OR 7 else lookup_page m c wa)"
    using b by (simp_all add: bounce_mapped_def)
  have fr: "m3 a = m2 a" if "page_base a \<in> chunk_pages m2 c" for a using m3 that f(4) by auto
  have s: "same_tables m2 c m3" by (rule same_tables_frame [OF f(3) fr])
  note t = same_tables_facts [OF s]
  have wf3: "wf_chunk m3 c" and d3: "directory_entry m3 c = ?d" using t(1,3) f(1,3) by simp_all
  obtain m4 where m4: "paging_set m3 ?d p (lookup_page m c p) = (0, m4)" "directory_entry m4 c = ?d"
    and look4: "\<And>wa. page_aligned wa \<Longrightarrow> lookup_page m4 c wa = (if wa = p then lookup_page m c p else lookup_page m3 c wa)"
    and only4: "tables_only m3 c m4"
    using paging_set_ok [OF wf3 p, of "lookup_page m c p"] d3 by auto
  have "lookup_page m4 c wa = lookup_page m c wa" if "page_aligned wa" for wa
    using look4 [OF that] t(5) [OF that] look2 [OF that] by auto
  moreover have "table_entry m4 ?d l = table_entry m ?d l" if "l < 1024" for l
    using only4 s only that d3 f(1) by (simp add: tables_only_def same_tables_def)
  ultimately have "same_tables m c m4" using m4(2) by (simp add: same_tables_def)
  moreover have "m4 a = m3 a" if "page_base a \<notin> chunk_pages m c" for a
    using tables_only_pages(2) [OF only4, of a] that t(2) f(2) by simp
  ultimately show thesis using that [OF m4(1)] by blast
qed

text \<open>The page holds the start of a string that is no part of the page tables nor of the page itself.\<close>

lemma bounce_string:
  assumes b: "bounce_mapped m c p m2" and n: "n < 4096"
    and str: "user_string m (directory_entry m c) (insert p (chunk_pages m c)) va s" "\<forall>i\<le>length s. page_base (va + of_nat i) \<noteq> p"
  obtains m3 where "virt_strncpy_loop m2 (directory_entry m c) p va n = Some m3"
    "\<And>i. i \<le> min n (length s) \<Longrightarrow> m3 (p + of_nat i) = (take n s @ [0]) ! i"
proof -
  let ?d = "directory_entry m c" and ?w = "take n s @ [0]"
  note f = bounce_mapped_facts [OF b]
  have pres: "present_tables m ?d"
    and look2: "\<And>wa. page_aligned wa \<Longrightarrow> lookup_page m2 c wa = (if wa = p then p OR 7 else lookup_page m c wa)"
    using b by (simp_all add: bounce_mapped_def)
  have us: "user_string m2 ?d {p} va s"
    unfolding user_string_def
  proof (intro conjI allI impI)
    fix i assume i: "i \<le> length s"
    then obtain pa where pa: "translate m ?d (va + of_nat i) = Some pa" "m pa = (s @ [0]) ! i"
      "page_base pa \<notin> insert p (chunk_pages m c)" using str(1) by (auto simp: user_string_def)
    have "page_base (va + of_nat i) \<noteq> p" using str(2) i by blast
    then have "paging_get_table_entry m2 ?d (page_base (va + of_nat i)) = paging_get_table_entry m ?d (page_base (va + of_nat i))"
      using look2 [of "page_base (va + of_nat i)"] f(1) by simp
    then have "translate m2 ?d (va + of_nat i) = Some pa" using translate_same_entry [OF pres f(6)] pa(1) by simp
    moreover have "m2 pa = m pa" using f(5) pa(3) by simp
    ultimately show "\<exists>pa. translate m2 ?d (va + of_nat i) = Some pa \<and> m2 pa = (s @ [0]) ! i \<and> page_base pa \<notin> {p}"
      using pa by auto
  qed (use str(1) in \<open>simp add: user_string_def\<close>)
  have cp: "virt_strncpy_loop m2 ?d p va n = Some (ram_write m2 p ?w)"
    by (rule virt_strncpy_loop_ok [OF f(8) us f(7)]) (use n in auto)
  have "ram_write m2 p ?w (p + of_nat i) = ?w ! i" if i: "i \<le> min n (length s)" for i
  proof -
    have "unat (of_nat i :: u32) = i" using i n by (simp add: unat_of_nat)
    moreover have "i < length ?w" using i by (simp add: less_Suc_eq_le)
    ultimately show ?thesis using ram_write_apply [of ?w m2 p "p + of_nat i"] n by simp
  qed
  with that [OF cp] show thesis by blast
qed

section \<open>A task and its string\<close>

text \<open>
  \<open>task\<close> has an address space of its own, apart from the page that holds the kernel's chunk; the
  string \<open>s\<close> of the task at \<open>va\<close> lies neither in its page tables nor in a free block of the heap,
  and its virtual pages are not addresses of free blocks.
\<close>

definition task_space :: "'d kernel \<Rightarrow> addr \<Rightarrow> addr \<Rightarrow> bool" where
  "task_space k task c \<longleftrightarrow> kheap_ok (kmem_of k) \<and> task \<in> kheap_used (kmem_of k)
     \<and> (\<exists>t. task_store k task = Some t \<and> page_directory t = c) \<and> owns_chunk (kmem_of k) c
     \<and> present_tables (ram_of k) (directory_entry (ram_of k) c)
     \<and> kernel_chunk k \<in> kheap_used (kmem_of k) \<and> kernel_chunk k \<notin> chunk_pages (ram_of k) c"

definition task_string :: "'d kernel \<Rightarrow> addr \<Rightarrow> addr \<Rightarrow> cbuf \<Rightarrow> bool" where
  "task_string k c va s \<longleftrightarrow>
     user_string (ram_of k) (directory_entry (ram_of k) c) (free_pages (kmem_of k) \<union> chunk_pages (ram_of k) c) va s
     \<and> (\<forall>i\<le>length s. page_base (va + of_nat i) \<notin> free_pages (kmem_of k))"

text \<open>What copying a string leaves as it was.\<close>

definition space_kept :: "'d kernel \<Rightarrow> addr \<Rightarrow> 'd kernel \<Rightarrow> bool" where
  "space_kept k c k' \<longleftrightarrow>
     kheap_used (kmem_of k') = kheap_used (kmem_of k) \<and> kheap_avail (kmem_of k') = kheap_avail (kmem_of k)
     \<and> same_tables (ram_of k) c (ram_of k')
     \<and> (\<forall>a. page_base a \<notin> chunk_pages (ram_of k) c \<union> free_pages (kmem_of k) \<longrightarrow> ram_of k' a = ram_of k a)"

lemma space_kept_refl [simp]: "space_kept k c k"
  by (simp add: space_kept_def)

lemma space_kept_trans:
  assumes "space_kept k c k1" "space_kept k1 c k2"
  shows "space_kept k c k2"
proof -
  have u: "kheap_used (kmem_of k1) = kheap_used (kmem_of k)" and s: "same_tables (ram_of k) c (ram_of k1)"
    using assms(1) by (simp_all add: space_kept_def)
  then have "free_pages (kmem_of k1) = free_pages (kmem_of k)" "chunk_pages (ram_of k1) c = chunk_pages (ram_of k) c"
    using same_tables_facts(2) [OF s] by (simp_all add: free_pages_def)
  with assms s show ?thesis by (simp add: space_kept_def same_tables_trans [OF s])
qed

definition globals_of :: "'d kernel \<Rightarrow> _" where
  "globals_of k = (paging_enabled k, gdt_real k, tss_segment k, idt_descriptors k, idtr_descriptor k,
     interrupt_callbacks k, isr80h_commands k, keyboards k, kernel_chunk k, current_task k, task_tail k, task_head k,
     current_process k, processes k)"

definition globals_kept :: "'d kernel \<Rightarrow> 'd kernel \<Rightarrow> bool" where
  "globals_kept k k' \<longleftrightarrow> globals_of k' = globals_of k
     \<and> (\<forall>a\<in>kheap_used (kmem_of k). elf_files k' a = elf_files k a \<and> task_store k' a = task_store k a
          \<and> process_store k' a = process_store k a)"

lemma page_request_int: "0 < n \<Longrightarrow> n < 4096 \<Longrightarrow> page_request (word_of_int n)"
  by (simp add: page_request_def unat_eq_nat_uint uint_word_of_int nat_less_iff)

lemma ram_bytes_string:
  assumes "\<And>i. i \<le> min n (length s) \<Longrightarrow> m (p + of_nat i) = (take n s @ [0]) ! i" "0 \<notin> set s"
  shows "0 \<in> set (ram_bytes m p (Suc n))" "cstr (ram_bytes m p (Suc n)) = take n s"
proof -
  let ?b = "ram_bytes m p (Suc n)" and ?l = "Suc (min n (length s))"
  have "take ?l ?b = take n s @ [0]"
  proof (rule nth_equalityI)
    show "take ?l ?b ! i = (take n s @ [0]) ! i" if "i < length (take ?l ?b)" for i
      using that assms(1) [of i] nth_ram_bytes [of i "Suc n" m p] by (simp add: less_Suc_eq_le del: ram_bytes.simps)
  qed simp
  then have b: "?b = take n s @ 0 # drop ?l ?b" by (metis append_Cons append_Nil append_assoc append_take_drop_id)
  have "0 \<notin> set (take n s)" using assms(2) by (auto dest: in_set_takeD)
  then have "cstr (take n s @ 0 # drop ?l ?b) = take n s" by (simp add: cstr_append)
  then show "cstr ?b = take n s" by (subst b)
  show "0 \<in> set ?b" by (subst b) simp
qed

lemma globals_kept_fields:
  assumes "globals_kept k k'"
  shows "current_task k' = current_task k" "kernel_chunk k' = kernel_chunk k"
    "isr80h_commands k' = isr80h_commands k" "current_process k' = current_process k"
  using assms by (simp_all add: globals_kept_def globals_of_def)

lemma kernel_free_ok:
  assumes "kheap_ok (kmem_of k)" "p \<in> kheap_used (kmem_of k)"
  obtains k' where "kernel_free k p = Some k'" "kheap_ok (kmem_of k')" "ram_of k' = ram_of k"
    "kheap_used (kmem_of k') = kheap_used (kmem_of k) - {p}" "kheap_avail (kmem_of k') = Suc (kheap_avail (kmem_of k))"
    "console k' = console k" "mmu_regs k' = mmu_regs k" "data_segment k' = data_segment k"
    "elf_files k' = (elf_files k)(p := None)" "task_store k' = (task_store k)(p := None)"
    "process_store k' = (process_store k)(p := None)"
    "globals_of k' = globals_of k"
proof -
  obtain m where m: "kfree (kmem_of k) p = Some m" "kheap_ok m" "kheap_used m = kheap_used (kmem_of k) - {p}"
    "kheap_avail m = Suc (kheap_avail (kmem_of k))"
    using kpage.release_page [OF assms] by blast
  let ?st = "(lower (vfs k))\<lparr>fs_kmem := m, streams := (streams (lower (vfs k)))(p := None),
    item_arrays := (item_arrays (lower (vfs k)))(p := None), directories := (directories (lower (vfs k)))(p := None),
    fat_items := (fat_items (lower (vfs k)))(p := None), descriptors := (descriptors (lower (vfs k)))(p := None),
    privates := (privates (lower (vfs k)))(p := None)\<rparr>"
  have "kernel_free k p = Some (k\<lparr>vfs := (vfs k)\<lparr>lower := ?st, fd_store := (fd_store (vfs k))(p := None)\<rparr>,
       elf_files := (elf_files k)(p := None), task_store := (task_store k)(p := None),
       process_store := (process_store k)(p := None)\<rparr>)"
    using m(1) by (simp add: kernel_free_def fs_free_def)
  from that [OF this] show thesis using m kfree_phys [OF m(1)] by (simp add: globals_of_def)
qed

text \<open>The page of the bounce buffer.\<close>

lemma copy_page:
  assumes sp: "task_space k task c" and req: "page_request n" and free: "0 < kheap_avail (kmem_of k)"
  obtains p k1 where "kzalloc (kmem_of k) n = Some (p, k1)" "kheap_ok k1" "p \<noteq> 0" "page_aligned p"
    "p \<notin> kheap_used (kmem_of k)" "p \<in> free_pages (kmem_of k)"
    "kheap_used k1 = insert p (kheap_used (kmem_of k))" "Suc (kheap_avail k1) = kheap_avail (kmem_of k)"
    "\<And>a. page_base a \<noteq> p \<Longrightarrow> phys k1 a = ram_of k a" "same_tables (ram_of k) c (phys k1)"
    "wf_chunk (phys k1) c" "present_tables (phys k1) (directory_entry (phys k1) c)" "p \<notin> chunk_pages (phys k1) c"
proof -
  let ?k = "kmem_of k" and ?m = "ram_of k"
  have ok: "kheap_ok ?k" and own: "owns_chunk ?k c" and pres: "present_tables ?m (directory_entry ?m c)"
    using sp by (auto simp: task_space_def)
  obtain p k1 where z: "kzalloc ?k n = Some (p, k1)" "kheap_ok k1" "p \<noteq> 0" "page_aligned p" "p \<notin> kheap_used ?k"
    "kheap_used k1 = insert p (kheap_used ?k)" "Suc (kheap_avail k1) = kheap_avail ?k"
    using kpage.alloc_page [OF ok req free] by blast
  have wf: "wf_chunk ?m c" and pc: "p \<notin> chunk_pages ?m c" using own z(5) by (auto simp: owns_chunk_def)
  have out: "phys k1 a = ?m a" if "page_base a \<noteq> p" for a by (rule kzalloc_outside [OF z(1) req z(4) that])
  have fr: "phys k1 a = ?m a" if "page_base a \<in> chunk_pages ?m c" for a by (rule out) (use that pc in auto)
  have s: "same_tables ?m c (phys k1)" by (rule same_tables_frame [OF wf fr])
  show thesis
    by (rule that [OF z(1-5) _ z(6,7) out s])
      (use z wf pres pc same_tables_facts [OF s] in \<open>auto intro: fresh_page\<close>)
qed

text \<open>Giving it back, once the tables of the task are what they were.\<close>

lemma copy_done:
  assumes sp: "task_space k task c" and p: "p \<in> free_pages (kmem_of k)" "p \<notin> kheap_used (kmem_of k)"
    and k4: "kheap_ok (kmem_of k4)" "kheap_used (kmem_of k4) = insert p (kheap_used (kmem_of k))"
      "Suc (kheap_avail (kmem_of k4)) = kheap_avail (kmem_of k)" "same_tables (ram_of k) c (ram_of k4)"
      "\<And>a. page_base a \<notin> chunk_pages (ram_of k) c \<Longrightarrow> page_base a \<noteq> p \<Longrightarrow> ram_of k4 a = ram_of k a"
      "console k4 = console k" "globals_of k4 = globals_of k" "elf_files k4 = elf_files k" "task_store k4 = task_store k"
      "process_store k4 = process_store k"
  obtains k' where "kernel_free k4 p = Some k'" "ram_of k' = ram_of k4" "task_space k' task c" "space_kept k c k'"
    "globals_kept k k'" "console k' = console k"
proof -
  have "p \<in> kheap_used (kmem_of k4)" using k4(2) by simp
  from kernel_free_ok [OF k4(1) this] obtain k' where k': "kernel_free k4 p = Some k'" "kheap_ok (kmem_of k')"
    "ram_of k' = ram_of k4" "kheap_used (kmem_of k') = kheap_used (kmem_of k4) - {p}"
    "kheap_avail (kmem_of k') = Suc (kheap_avail (kmem_of k4))" "console k' = console k4"
    "elf_files k' = (elf_files k4)(p := None)" "task_store k' = (task_store k4)(p := None)"
    "process_store k' = (process_store k4)(p := None)" "globals_of k' = globals_of k4" by blast
  have u: "kheap_used (kmem_of k') = kheap_used (kmem_of k)" "kheap_avail (kmem_of k') = kheap_avail (kmem_of k)"
    "globals_of k' = globals_of k" using k' k4 p(2) by simp_all
  show thesis
  proof (rule that [OF k'(1,3)])
    show "space_kept k c k'" using u k'(3) k4(4,5) p(1) by (auto simp: space_kept_def)
    show "globals_kept k k'" using u(3) k'(7-9) k4(8-10) p(2) by (auto simp: globals_kept_def)
    show "task_space k' task c"
      using sp k'(2,3,8) u p(2) k4(9) same_tables_facts [OF k4(4)]
      by (auto simp: task_space_def owns_chunk_def globals_of_def)
    show "console k' = console k" using k'(6) k4(6) by simp
  qed
qed

text \<open>
  The steps of the copy when a page is free: a fault of the copy loop is the end; without one the
  state afterwards is the one before, but for the page of the buffer, whose bytes go to \<open>buf\<close>.
\<close>

lemma copy_string_steps:
  assumes sp: "task_space k task c" and free: "0 < kheap_avail (kmem_of k)" and i: "0 < i" "i < 4096"
  obtains p m1 m2 where "p \<in> free_pages (kmem_of k)" "p \<notin> chunk_pages (ram_of k) c" "page_aligned p"
    "\<And>a. page_base a \<noteq> p \<Longrightarrow> m1 a = ram_of k a" "same_tables (ram_of k) c m1" "bounce_mapped m1 c p m2"
    "virt_strncpy_loop m2 (directory_entry (ram_of k) c) p va (nat (i - 1)) = None \<Longrightarrow> copy_string_from_task k task va buf i = None"
    "\<And>m3. virt_strncpy_loop m2 (directory_entry (ram_of k) c) p va (nat (i - 1)) = Some m3 \<Longrightarrow>
      \<exists>k'. copy_string_from_task k task va buf i = map_option (\<lambda>b. (0, b, k')) (strncpy buf (ram_bytes (ram_of k') p (nat i)) i)
        \<and> (\<forall>a. page_base a = p \<longrightarrow> ram_of k' a = m3 a) \<and> task_space k' task c \<and> space_kept k c k'
        \<and> globals_kept k k' \<and> console k' = console k"
proof -
  let ?k = "kmem_of k" and ?m = "ram_of k" and ?n = "word_of_int i :: u32"
  let ?d = "directory_entry ?m c"
  obtain t where t: "task_store k task = Some t" "page_directory t = c" using sp by (auto simp: task_space_def)
  obtain p k1 where z: "kzalloc ?k ?n = Some (p, k1)" "kheap_ok k1" "p \<noteq> 0" "page_aligned p"
    "p \<notin> kheap_used ?k" "p \<in> free_pages ?k" "kheap_used k1 = insert p (kheap_used ?k)" "Suc (kheap_avail k1) = kheap_avail ?k"
    and m1: "\<And>a. page_base a \<noteq> p \<Longrightarrow> phys k1 a = ?m a" and s1: "same_tables ?m c (phys k1)"
    and wf1: "wf_chunk (phys k1) c" "present_tables (phys k1) (directory_entry (phys k1) c)" "p \<notin> chunk_pages (phys k1) c"
    using copy_page [OF sp page_request_int [OF i] free] by blast
  note f1 = same_tables_facts [OF s1]
  obtain m2 where m2: "paging_map (phys k1) c p p 7 = (0, m2)" and b: "bounce_mapped (phys k1) c p m2"
    using bounce_map [OF wf1(1,2) z(4) wf1(3)] by blast
  note f2 = bounce_mapped_facts [OF b, unfolded f1(1,2)]
  have c0: "c \<noteq> 0" "kernel_chunk k \<noteq> 0"
    using sp kheap_used_range(2) [of ?k] by (auto simp: task_space_def owns_chunk_def chunk_pages_def)
  have fl: "ucast (PAGING_IS_WRITABLE OR PAGING_IS_PRESENT OR PAGING_ACCESS_BY_ALL) = (7 :: u32)" by code_simp
  have i': "i < uint PAGE_SIZE" using i(2) by simp
  let ?k4 = "\<lambda>m3 m4. set_kmem (k\<lparr>data_segment := 0x10,
     mmu_regs := paging_switch m3 (paging_switch m2 (mmu_regs k) c) (kernel_chunk k)\<rparr>) (k1\<lparr>phys := m4\<rparr>)"
  note step = copy_string_from_task_def kernel_zalloc_def kernel_paging_switch_def kernel_page_def kernel_registers_def
    virt_strncpy_def paging_switch_def fl set_ram_def set_kmem_def Let_def
  show thesis
  proof (rule that [OF z(6) _ z(4) m1 s1 b])
    show "p \<notin> chunk_pages ?m c" using wf1(3) f1(2) by simp
    show "copy_string_from_task k task va buf i = None" if "virt_strncpy_loop m2 ?d p va (nat (i - 1)) = None"
      using that i' z(1,3) t m2 f2(1) c0 f1(1) by (simp add: step del: ram_bytes.simps)
    fix m3 assume m3: "virt_strncpy_loop m2 ?d p va (nat (i - 1)) = Some m3"
    have n: "nat (i - 1) < 4096" using i by simp
    have out3: "\<forall>a. page_base a \<noteq> p \<longrightarrow> m3 a = m2 a" by (rule bounce_outside [OF b _ n, of va]) (simp add: f1(1) m3)
    obtain m4 where m4: "paging_set m3 ?d p (lookup_page (phys k1) c p) = (0, m4)" "same_tables (phys k1) c m4"
      "\<And>a. page_base a \<notin> chunk_pages ?m c \<Longrightarrow> m4 a = m3 a"
      using bounce_restore [OF b out3] f1(1,2) by auto
    have "m4 a = ?m a" if "page_base a \<notin> chunk_pages ?m c" "page_base a \<noteq> p" for a
      using m4(3) out3 f2(5) m1 that by simp
    then obtain k' where k': "kernel_free (?k4 m3 m4) p = Some k'" "ram_of k' = m4" "task_space k' task c"
      "space_kept k c k'" "globals_kept k k'" "console k' = console k"
      using copy_done [OF sp z(6,5), of "?k4 m3 m4"] z(2,7,8) same_tables_trans [OF s1 m4(2)]
      by (auto simp: globals_of_def set_kmem_def)
    have "copy_string_from_task k task va buf i = map_option (\<lambda>b. (0, b, k')) (strncpy buf (ram_bytes (ram_of k') p (nat i)) i)"
      using m3 m4(1) k'(1,2) i' z(1,3) t m2 f2(1) c0 f1(1)
      by (simp add: step map_conv_bind_option comp_def del: ram_bytes.simps)
    moreover have "ram_of k' a = m3 a" if "page_base a = p" for a
      using m4(3) [of a] that k'(2) wf1(3) f1(2) by simp
    ultimately show "\<exists>k'. copy_string_from_task k task va buf i = map_option (\<lambda>b. (0, b, k')) (strncpy buf (ram_bytes (ram_of k') p (nat i)) i)
        \<and> (\<forall>a. page_base a = p \<longrightarrow> ram_of k' a = m3 a) \<and> task_space k' task c \<and> space_kept k c k'
        \<and> globals_kept k k' \<and> console k' = console k"
      using k' by blast
  qed
qed

text \<open>Whatever comes of the copy, the task and the kernel are as before.\<close>

lemma copy_string_kept:
  assumes sp: "task_space k task c" and i: "0 < i" "i < 4096"
    and run: "copy_string_from_task k task va buf i = Some (res, buf', k')"
  shows "task_space k' task c \<and> space_kept k c k' \<and> globals_kept k k' \<and> console k' = console k"
proof (cases "kheap_avail (kmem_of k) = 0")
  case True
  have "kheap_ok (kmem_of k)" using sp by (simp add: task_space_def)
  then have "kzalloc (kmem_of k) (word_of_int i) = Some (0, kmem_of k)"
    using kpage.alloc_full [OF _ page_request_int [OF i] True] by blast
  then have "k' = k" using run i by (simp add: copy_string_from_task_def kernel_zalloc_def)
  with sp show ?thesis by (simp add: globals_kept_def)
next
  case False
  then have "0 < kheap_avail (kmem_of k)" by simp
  then obtain p m2 where
    none: "virt_strncpy_loop m2 (directory_entry (ram_of k) c) p va (nat (i - 1)) = None \<Longrightarrow> copy_string_from_task k task va buf i = None"
    and some: "\<And>m3. virt_strncpy_loop m2 (directory_entry (ram_of k) c) p va (nat (i - 1)) = Some m3 \<Longrightarrow>
      \<exists>k'. copy_string_from_task k task va buf i = map_option (\<lambda>b. (0, b, k')) (strncpy buf (ram_bytes (ram_of k') p (nat i)) i)
        \<and> (\<forall>a. page_base a = p \<longrightarrow> ram_of k' a = m3 a) \<and> task_space k' task c \<and> space_kept k c k'
        \<and> globals_kept k k' \<and> console k' = console k"
    by (rule copy_string_steps [OF sp _ i, of va buf]) (rule that)
  obtain m3 where "virt_strncpy_loop m2 (directory_entry (ram_of k) c) p va (nat (i - 1)) = Some m3"
    using none run by (cases "virt_strncpy_loop m2 (directory_entry (ram_of k) c) p va (nat (i - 1))") simp_all
  from some [OF this] obtain k1 where k1: "task_space k1 task c" "space_kept k c k1" "globals_kept k k1" "console k1 = console k"
    "copy_string_from_task k task va buf i = map_option (\<lambda>b. (0, b, k1)) (strncpy buf (ram_bytes (ram_of k1) p (nat i)) i)" by blast
  have "k1 = k'" using run unfolding k1(5) by (auto simp: map_option_eq_Some)
  with k1 show ?thesis by blast
qed

text \<open>A string that lies in the memory of the task arrives.\<close>

lemma copy_string_from_task_ok:
  assumes sp: "task_space k task c" and str: "task_string k c va s" and free: "0 < kheap_avail (kmem_of k)"
    and i: "0 < i" "i < 4096" "nat i \<le> length buf"
  defines "n \<equiv> nat (i - 1)"
  obtains k' where "copy_string_from_task k task va buf i =
      Some (0, take n s @ 0 # drop (Suc (min n (length s))) buf, k')"
    "task_space k' task c" "space_kept k c k'" "globals_kept k k'" "console k' = console k"
proof -
  let ?d = "directory_entry (ram_of k) c"
  have n: "n < 4096" "n < length buf" "nat i = Suc n" using i by (auto simp: n_def)
  obtain p m1 m2 where p: "p \<in> free_pages (kmem_of k)" "p \<notin> chunk_pages (ram_of k) c" "page_aligned p"
    and m1: "\<And>a. page_base a \<noteq> p \<Longrightarrow> m1 a = ram_of k a" "same_tables (ram_of k) c m1"
    and b: "bounce_mapped m1 c p m2"
    and cp: "\<And>m3. virt_strncpy_loop m2 ?d p va n = Some m3 \<Longrightarrow>
      \<exists>k'. copy_string_from_task k task va buf i = map_option (\<lambda>b. (0, b, k')) (strncpy buf (ram_bytes (ram_of k') p (nat i)) i)
        \<and> (\<forall>a. page_base a = p \<longrightarrow> ram_of k' a = m3 a) \<and> task_space k' task c \<and> space_kept k c k'
        \<and> globals_kept k k' \<and> console k' = console k"
    by (rule copy_string_steps [OF sp free i(1,2), of va buf, folded n_def]) (rule that)
  note f = same_tables_facts [OF m1(2)]
  have wf: "wf_chunk (ram_of k) c" using sp by (simp add: task_space_def owns_chunk_def)
  have fr: "m1 a = ram_of k a" if "page_base a \<in> chunk_pages (ram_of k) c" for a by (rule m1(1)) (use that p(2) in auto)
  have us: "user_string m1 (directory_entry m1 c) (insert p (chunk_pages m1 c)) va s"
    unfolding f(1)
  proof (rule user_string_frame)
    show "user_string (ram_of k) ?d (free_pages (kmem_of k) \<union> chunk_pages (ram_of k) c) va s" using str by (simp add: task_string_def)
    show "translate m1 ?d = translate (ram_of k) ?d" by (rule chunk_frame(7) [OF wf fr])
    show "insert p (chunk_pages m1 c) \<subseteq> free_pages (kmem_of k) \<union> chunk_pages (ram_of k) c" using p(1) f(2) by auto
    show "m1 a = ram_of k a" if "page_base a \<notin> free_pages (kmem_of k) \<union> chunk_pages (ram_of k) c" for a
      by (rule m1(1)) (use that p(1) in auto)
  qed
  have vp: "\<forall>i\<le>length s. page_base (va + of_nat i) \<noteq> p" using str p(1) by (auto simp: task_string_def)
  obtain m3 where m3: "virt_strncpy_loop m2 ?d p va n = Some m3"
    "\<And>i. i \<le> min n (length s) \<Longrightarrow> m3 (p + of_nat i) = (take n s @ [0]) ! i"
    using bounce_string [OF b n(1) us vp] f(1) by metis
  from cp [OF m3(1)] obtain k' where k': "copy_string_from_task k task va buf i =
      map_option (\<lambda>b. (0, b, k')) (strncpy buf (ram_bytes (ram_of k') p (nat i)) i)"
    "\<And>a. page_base a = p \<Longrightarrow> ram_of k' a = m3 a" "task_space k' task c" "space_kept k c k'" "globals_kept k k'"
    "console k' = console k" by blast
  have w: "ram_of k' (p + of_nat j) = (take n s @ [0]) ! j" if "j \<le> min n (length s)" for j
  proof -
    have "unat (of_nat j :: u32) < 4096" using that n(1) by (simp add: unat_of_nat)
    then show ?thesis using k'(2) page_base_in_page [OF p(3)] m3(2) [OF that] by simp
  qed
  have nz: "0 \<notin> set s" using str by (simp add: task_string_def user_string_def)
  have "strncpy buf (ram_bytes (ram_of k') p (Suc n)) i = Some (take n s @ 0 # drop (Suc (min n (length s))) buf)"
    using strncpy_loop_eq [of n buf "ram_bytes (ram_of k') p (Suc n)"] ram_bytes_string [OF w nz] n
    by (simp add: strncpy_def n_def [symmetric] min.commute del: ram_bytes.simps)
  then show thesis using that k' n(3) by (simp del: ram_bytes.simps)
qed

section \<open>When every page is present\<close>

text \<open>Then the copy returns, whatever the pointer and the bytes behind it.\<close>

definition all_present :: "ram \<Rightarrow> addr \<Rightarrow> bool" where
  "all_present m c \<longleftrightarrow> (\<forall>va. translate m (directory_entry m c) va \<noteq> None)"

lemma all_present_eq:
  assumes "present_tables m (directory_entry m c)"
  shows "all_present m c \<longleftrightarrow> (\<forall>va. page_aligned va \<longrightarrow> bit (lookup_page m c va) 0)"
proof -
  have "(\<forall>va. bit (lookup_page m c (page_base va)) 0) \<longleftrightarrow> (\<forall>va. page_aligned va \<longrightarrow> bit (lookup_page m c va) 0)"
    by (metis page_aligned_page_base page_base_aligned)
  then show ?thesis by (simp add: all_present_def translate_eq [OF assms] Let_def)
qed

lemma same_tables_present:
  assumes "same_tables m c m'" "present_tables m (directory_entry m c)"
  shows "all_present m' c = all_present m c"
  using same_tables_facts(1,4,5) [OF assms(1)] assms(2) all_present_eq [of m c] all_present_eq [of m' c] by simp

lemma virt_strncpy_loop_returns:
  assumes agree: "\<And>m. (\<forall>a. page_base a \<noteq> p \<longrightarrow> m a = m0 a) \<Longrightarrow> translate m d = translate m0 d"
    and total: "\<And>va. translate m0 d va \<noteq> None"
    and dest: "\<And>i. i \<le> n \<Longrightarrow> translate m0 d (dest + of_nat i) = Some (dest + of_nat i) \<and> page_base (dest + of_nat i) = p"
    and m: "\<forall>a. page_base a \<noteq> p \<longrightarrow> m a = m0 a"
  shows "virt_strncpy_loop m d dest src n \<noteq> None"
  using dest m
proof (induction n arbitrary: m dest src)
  case 0
  then show ?case using agree [OF 0(2)] 0(1) [of 0] by (simp add: virt_write_def)
next
  case (Suc n)
  have w: "translate m d dest = Some dest" "page_base dest = p" using Suc.prems(1) [of 0] agree [OF Suc.prems(2)] by simp_all
  obtain c where c: "virt_read m d src = Some c" using total [of src] agree [OF Suc.prems(2)] by (auto simp: virt_read_def)
  have "virt_strncpy_loop (m(dest := c)) d (dest + 1) (src + 1) n \<noteq> None"
  proof (rule Suc.IH)
    show "translate m0 d (dest + 1 + of_nat i) = Some (dest + 1 + of_nat i) \<and> page_base (dest + 1 + of_nat i) = p"
      if "i \<le> n" for i
      using Suc.prems(1) [of "Suc i"] that by (simp add: add.assoc)
  qed (use Suc.prems(2) w in auto)
  then show ?case using c w by (simp add: virt_write_def)
qed

lemma bounce_returns:
  assumes b: "bounce_mapped m c p m2" and total: "all_present m c" and n: "n < 4096"
  shows "virt_strncpy_loop m2 (directory_entry m c) p va n \<noteq> None"
proof (rule virt_strncpy_loop_returns)
  note f = bounce_mapped_facts [OF b]
  have pres: "present_tables m (directory_entry m c)"
    and look2: "\<And>wa. page_aligned wa \<Longrightarrow> lookup_page m2 c wa = (if wa = p then p OR 7 else lookup_page m c wa)"
    using b by (simp_all add: bounce_mapped_def)
  have "bit (lookup_page m2 c wa) 0" if "page_aligned wa" for wa
    using look2 [OF that] total that by (simp add: all_present_eq [OF pres] bit_or_iff)
  then have "all_present m2 c" using all_present_eq [of m2 c] f(1,6) by simp
  then show "translate m2 (directory_entry m c) va' \<noteq> None" for va' using f(1) by (simp add: all_present_def)
  show "translate x (directory_entry m c) = translate m2 (directory_entry m c)"
    if "\<forall>a. page_base a \<noteq> p \<longrightarrow> x a = m2 a" for x by (rule f(8) [OF that])
  show "translate m2 (directory_entry m c) (p + of_nat i) = Some (p + of_nat i) \<and> page_base (p + of_nat i) = p" if "i \<le> n" for i
    using f(7) [of i] that n by simp
qed simp

lemma copy_string_returns:
  assumes sp: "task_space k task c" and free: "0 < kheap_avail (kmem_of k)" and total: "all_present (ram_of k) c"
    and i: "0 < i" "i < 4096" "nat i \<le> length buf"
  shows "\<exists>buf' k'. copy_string_from_task k task va buf i = Some (0, buf', k') \<and> 0 \<in> set buf'"
proof -
  let ?d = "directory_entry (ram_of k) c"
  obtain p m1 m2 where s1: "same_tables (ram_of k) c m1" and b: "bounce_mapped m1 c p m2"
    and cp: "\<And>m3. virt_strncpy_loop m2 ?d p va (nat (i - 1)) = Some m3 \<Longrightarrow>
      \<exists>k'. copy_string_from_task k task va buf i = map_option (\<lambda>b. (0, b, k')) (strncpy buf (ram_bytes (ram_of k') p (nat i)) i)
        \<and> (\<forall>a. page_base a = p \<longrightarrow> ram_of k' a = m3 a) \<and> task_space k' task c \<and> space_kept k c k'
        \<and> globals_kept k k' \<and> console k' = console k"
    by (rule copy_string_steps [OF sp free i(1,2), of va buf]) (rule that)
  have pres: "present_tables (ram_of k) ?d" using sp by (simp add: task_space_def)
  have d1: "directory_entry m1 c = ?d" using same_tables_facts(1) [OF s1] .
  have "all_present m1 c" using same_tables_present [OF s1 pres] total by simp
  moreover have "nat (i - 1) < 4096" using i by simp
  ultimately obtain m3 where "virt_strncpy_loop m2 ?d p va (nat (i - 1)) = Some m3"
    using bounce_returns [OF b, of "nat (i - 1)" va] by (auto simp: d1)
  from cp [OF this] obtain k' where k': "copy_string_from_task k task va buf i =
      map_option (\<lambda>b. (0, b, k')) (strncpy buf (ram_bytes (ram_of k') p (nat i)) i)" by blast
  let ?s = "ram_bytes (ram_of k') p (nat i)" and ?n = "nat (i - 1)"
  have "strncpy buf ?s i = Some (take ?n (cstr ?s) @ 0 # drop (Suc (min ?n (length (cstr ?s)))) buf)"
  proof -
    have "?n < length buf" "?n \<le> nat i" using i by arith+
    then show ?thesis unfolding strncpy_def by (intro strncpy_loop_eq) simp_all
  qed
  then show ?thesis using k' by auto
qed

end
