(* ===== verification/Calls.thy ===== *)
theory Calls
  imports Syscalls UserCopy
begin

text \<open>
  System calls from the trap to the return: what a task passes on its stack, what the commands do
  with it, and the state in which the task goes on.
\<close>

section \<open>Changing pages\<close>

definition with_pages :: "'d kernel \<Rightarrow> u16 \<Rightarrow> addr \<Rightarrow> 'd kernel" where
  "with_pages k seg c = k\<lparr>data_segment := seg, mmu_regs := paging_switch (ram_of k) (mmu_regs k) c\<rparr>"

lemma with_pages_simps [simp]:
  "vfs (with_pages k seg c) = vfs k" "console (with_pages k seg c) = console k"
  "task_store (with_pages k seg c) = task_store k" "process_store (with_pages k seg c) = process_store k"
  "elf_files (with_pages k seg c) = elf_files k" "kernel_chunk (with_pages k seg c) = kernel_chunk k"
  "current_task (with_pages k seg c) = current_task k" "isr80h_commands (with_pages k seg c) = isr80h_commands k"
  "interrupt_callbacks (with_pages k seg c) = interrupt_callbacks k" "current_process (with_pages k seg c) = current_process k"
  "data_segment (with_pages k seg c) = seg" "cr3 (mmu_regs (with_pages k seg c)) = directory_entry (ram_of k) c"
  "with_pages (with_pages k seg c) seg' c' = with_pages k seg' c'" "globals_of (with_pages k seg c) = globals_of k"
  by (simp_all add: with_pages_def paging_switch_def globals_of_def)

lemma globals_of_console [simp]: "globals_of (k\<lparr>console := t\<rparr>) = globals_of k"
  by (simp add: globals_of_def)

lemma put_process_fields [simp]:
  "vfs (put_process k a p) = vfs k" "console (put_process k a p) = console k"
  "process_store (put_process k a p) = (process_store k)(a \<mapsto> p)" "task_store (put_process k a p) = task_store k"
  "kernel_chunk (put_process k a p) = kernel_chunk k"
  by (simp_all add: put_process_def)

lemma globals_of_put [simp]: "globals_of (put_task k a t) = globals_of k" "globals_of (put_process k a p) = globals_of k"
  by (simp_all add: globals_of_def put_task_def put_process_def)

lemma kernel_page_eq: "kernel_chunk k \<noteq> 0 \<Longrightarrow> kernel_page k = Some (with_pages k 0x10 (kernel_chunk k))"
  by (simp add: kernel_page_def kernel_registers_def kernel_paging_switch_def with_pages_def)

lemma task_page_eq:
  assumes "task_store k (current_task k) = Some t" "page_directory t \<noteq> 0"
  shows "task_page k = Some (with_pages k 0x23 (page_directory t))"
proof -
  have "k\<lparr>data_segment := s, current_task := current_task k, mmu_regs := r\<rparr> = k\<lparr>data_segment := s, mmu_regs := r\<rparr>" for s r
    by (cases k) simp
  then show ?thesis using assms
    by (simp add: task_page_def task_switch_def user_registers_def kernel_paging_switch_def with_pages_def)
qed

lemma task_get_stack_item_ok:
  assumes "task_store k task = Some t" "page_directory t \<noteq> 0" "kernel_chunk k \<noteq> 0"
    "virt_load32 (ram_of k) (directory_entry (ram_of k) (page_directory t)) (r_esp (regs t) + 4 * word_of_int i) = Some v"
  shows "task_get_stack_item k task i = Some (v, with_pages k 0x10 (kernel_chunk k))"
  using assms
  by (simp add: task_get_stack_item_def task_page_task_def user_registers_def kernel_paging_switch_def with_pages_def
      kernel_page_def kernel_registers_def paging_switch_def)

section \<open>The state of a trap\<close>

text \<open>
  Within a trap of the current task of \<open>k\<close> its registers are those of \<open>frame\<close>, and nothing has
  happened to its address space or to the globals.
\<close>

definition in_trap :: "'d kernel \<Rightarrow> addr \<Rightarrow> interrupt_frame \<Rightarrow> 'd kernel \<Rightarrow> bool" where
  "in_trap k c frame k' \<longleftrightarrow> task_space k' (current_task k) c \<and> globals_of k' = globals_of k
     \<and> (\<exists>t. task_store k (current_task k) = Some t \<and> page_directory t = c
          \<and> task_store k' (current_task k) = Some (t\<lparr>regs := saved_registers frame\<rparr>))"

text \<open>On entry nothing else has happened; on return the processor is on the pages of the task.\<close>

definition trapped :: "'d kernel \<Rightarrow> addr \<Rightarrow> interrupt_frame \<Rightarrow> 'd kernel \<Rightarrow> bool" where
  "trapped k c frame k' \<longleftrightarrow> in_trap k c frame k' \<and> vfs k' = vfs k \<and> console k' = console k
     \<and> process_store k' = process_store k"

definition resumed :: "'d kernel \<Rightarrow> addr \<Rightarrow> interrupt_frame \<Rightarrow> 'd kernel \<Rightarrow> bool" where
  "resumed k c frame k' \<longleftrightarrow> in_trap k c frame k'
     \<and> data_segment k' = 0x23 \<and> cr3 (mmu_regs k') = directory_entry (ram_of k') c"

lemma task_space_nonzero:
  assumes "task_space k task c"
  shows "task \<noteq> 0" "c \<noteq> 0" "kernel_chunk k \<noteq> 0"
  using assms kheap_used_range(2) [of "kmem_of k"] by (auto simp: task_space_def owns_chunk_def chunk_pages_def)

lemma globals_of_fields:
  "globals_of k' = globals_of k \<Longrightarrow> current_task k' = current_task k \<and> kernel_chunk k' = kernel_chunk k
     \<and> isr80h_commands k' = isr80h_commands k \<and> current_process k' = current_process k
     \<and> interrupt_callbacks k' = interrupt_callbacks k"
  by (simp add: globals_of_def)

text \<open>Entering the kernel and leaving it, around the command.\<close>

lemma trap_enter:
  assumes "task_space k (current_task k) c"
  obtains k1 k2 where "kernel_page k = Some k1" "task_current_save_state k1 frame = Some k2" "trapped k c frame k2"
    "interrupt_callbacks k1 = interrupt_callbacks k"
proof -
  note nz = task_space_nonzero [OF assms]
  obtain t where t: "task_store k (current_task k) = Some t" "page_directory t = c" using assms by (auto simp: task_space_def)
  let ?k1 = "with_pages k 0x10 (kernel_chunk k)"
  let ?k2 = "put_task ?k1 (current_task k) (t\<lparr>regs := saved_registers frame\<rparr>)"
  show thesis
  proof (rule that [OF kernel_page_eq [OF nz(3)]])
    show "interrupt_callbacks ?k1 = interrupt_callbacks k" by simp
    show "task_current_save_state ?k1 frame = Some ?k2"
      using nz t by (simp add: task_current_save_state_def task_save_state_def)
    show "trapped k c frame ?k2"
    proof -
      have "task_space ?k2 (current_task k) c" using assms t by (simp add: task_space_def put_task_def)
      then show ?thesis using t by (simp add: trapped_def in_trap_def) (simp add: put_task_def)
    qed
  qed
qed

lemma in_trap_fields:
  assumes "in_trap k c frame k'"
  shows "current_task k' = current_task k" "kernel_chunk k' = kernel_chunk k" "kernel_chunk k' \<noteq> 0"
    "isr80h_commands k' = isr80h_commands k" "interrupt_callbacks k' = interrupt_callbacks k"
    "current_process k' = current_process k"
proof -
  have "globals_of k' = globals_of k" "task_space k' (current_task k) c" using assms by (simp_all add: in_trap_def)
  then show "current_task k' = current_task k" "kernel_chunk k' = kernel_chunk k" "kernel_chunk k' \<noteq> 0"
    "isr80h_commands k' = isr80h_commands k" "interrupt_callbacks k' = interrupt_callbacks k"
    "current_process k' = current_process k"
    using task_space_nonzero(3) globals_of_fields by blast+
qed

lemma in_trap_pages [simp]: "in_trap k c frame (with_pages k' s x) = in_trap k c frame k'"
  by (simp add: in_trap_def task_space_def)

lemma trap_leave:
  assumes "in_trap k c frame k'"
  shows "task_page k' = Some (with_pages k' 0x23 c)" "resumed k c frame (with_pages k' 0x23 c)"
proof -
  obtain t where "task_store k' (current_task k') = Some t" "page_directory t = c"
    using assms in_trap_fields(1) [OF assms] by (auto simp: in_trap_def)
  moreover have "c \<noteq> 0" using assms task_space_nonzero(2) by (auto simp: in_trap_def)
  ultimately show "task_page k' = Some (with_pages k' 0x23 c)" using task_page_eq [of k' t] by simp
  show "resumed k c frame (with_pages k' 0x23 c)" using assms by (simp add: resumed_def)
qed

lemma handler_ok:
  assumes sp: "task_space k (current_task k) c"
    and run: "\<And>k2. trapped k c frame k2 \<Longrightarrow> \<exists>k3. isr80h_handle_command buf k2 command frame = Some (r, k3)
      \<and> in_trap k c frame k3 \<and> P (vfs k3) (console k3) (process_store k3)"
  shows "\<exists>k'. isr80h_handler buf k command frame = Some (r, k') \<and> resumed k c frame k'
     \<and> P (vfs k') (console k') (process_store k')"
proof -
  obtain k1 k2 where e: "kernel_page k = Some k1" "task_current_save_state k1 frame = Some k2" "trapped k c frame k2"
    using trap_enter [OF sp] by blast
  from run [OF e(3)] obtain k3 where k3: "isr80h_handle_command buf k2 command frame = Some (r, k3)"
    "in_trap k c frame k3" "P (vfs k3) (console k3) (process_store k3)" by blast
  from e k3 trap_leave [OF k3(2)] show ?thesis by (auto simp: isr80h_handler_def)
qed

section \<open>The commands\<close>

text \<open>The word at index \<open>i\<close> of the stack of the task \<open>frame\<close> was interrupted in.\<close>

definition stack_word :: "'d kernel \<Rightarrow> addr \<Rightarrow> interrupt_frame \<Rightarrow> int \<Rightarrow> u32 option" where
  "stack_word k c frame i = virt_load32 (ram_of k) (directory_entry (ram_of k) c) (f_esp frame + 4 * word_of_int i)"

lemma trapped_pages: "trapped k c frame k2 \<Longrightarrow> trapped k c frame (with_pages k2 s x)"
  by (simp add: trapped_def)

lemma trapped_stack_item:
  assumes "trapped k c frame k2" "stack_word k c frame i = Some v"
  shows "task_get_stack_item k2 (current_task k2) i = Some (v, with_pages k2 0x10 (kernel_chunk k2))"
proof -
  have k2: "in_trap k c frame k2" "vfs k2 = vfs k" using assms(1) by (simp_all add: trapped_def)
  then obtain t where t: "task_store k2 (current_task k) = Some (t\<lparr>regs := saved_registers frame\<rparr>)" "page_directory t = c"
    and sp: "task_space k2 (current_task k) c" by (auto simp: in_trap_def)
  show ?thesis
    by (rule task_get_stack_item_ok [where t = "t\<lparr>regs := saved_registers frame\<rparr>"])
      (use t k2 in_trap_fields [OF k2(1)] task_space_nonzero [OF sp] assms(2) in
        \<open>simp_all add: stack_word_def saved_registers_def\<close>)
qed

lemma handle_registered:
  assumes "isr80h_commands k ! nat i = Some cmd" "0 \<le> i" "i < 1024" "trapped k c frame k2"
  shows "isr80h_handle_command buf k2 i frame = run_command buf k2 cmd frame"
  using assms in_trap_fields(4) [of k c frame k2] by (simp add: isr80h_handle_command_def trapped_def)

lemma sum_call:
  assumes "task_space k (current_task k) c" "isr80h_commands k ! 0 = Some Isr80h_command0_sum"
    "stack_word k c frame 0 = Some v1" "stack_word k c frame 1 = Some v2"
  shows "\<exists>k'. isr80h_handler buf k 0 frame = Some (v1 + v2, k') \<and> resumed k c frame k'
     \<and> vfs k' = vfs k \<and> console k' = console k \<and> process_store k' = process_store k"
proof (rule handler_ok [OF assms(1), where P = "\<lambda>v t p. v = vfs k \<and> t = console k \<and> p = process_store k"])
  fix k2 assume k2: "trapped k c frame k2"
  let ?k = "with_pages k2 0x10 (kernel_chunk k2)"
  note i = trapped_stack_item [OF k2 assms(4)] trapped_stack_item [OF trapped_pages [OF k2] assms(3)]
  have "isr80h_handle_command buf k2 0 frame = Some (v1 + v2, ?k)"
    using handle_registered [OF _ _ _ k2, of 0] assms(2) i(1) i(2) [of "0x10" "kernel_chunk k2"]
    by (simp add: run_command_def isr80h_command0_sum_def)
  moreover have "trapped k c frame ?k" by (rule trapped_pages [OF k2])
  ultimately show "\<exists>k3. isr80h_handle_command buf k2 0 frame = Some (v1 + v2, k3) \<and> in_trap k c frame k3
      \<and> vfs k3 = vfs k \<and> console k3 = console k \<and> process_store k3 = process_store k"
    by (auto simp: trapped_def)
qed

text \<open>Only the bytes up to the terminator are printed.\<close>

lemma terminal_print_string:
  assumes "0 \<notin> set s"
  shows "terminal_print t (s @ 0 # r) = terminal_print t (s @ [0])" "terminal_print t (s @ [0]) \<noteq> None"
proof -
  have len: "strlen (s @ 0 # r) = Some (length s)" for r using assms by (induction s) auto
  have "print_loop t (s @ r) (length s) = print_loop t s (length s)" for r
    by (induction s arbitrary: t) auto
  then show "terminal_print t (s @ 0 # r) = terminal_print t (s @ [0])" "terminal_print t (s @ [0]) \<noteq> None"
    by (simp_all add: terminal_print_def len)
qed

lemma print_call:
  assumes sp: "task_space k (current_task k) c" and cmd: "isr80h_commands k ! 1 = Some Isr80h_command1_print"
    and ptr: "stack_word k c frame 0 = Some va" and str: "task_string k c va s"
    and free: "0 < kheap_avail (kmem_of k)" and buf: "length buf = 1024"
  shows "\<exists>k'. isr80h_handler buf k 1 frame = Some (0, k') \<and> resumed k c frame k'
     \<and> space_kept k c k' \<and> terminal_print (console k) (take 1023 s @ [0]) = Some (console k')"
proof -
  let ?P = "\<lambda>v t p. (\<exists>k3. vfs k3 = v \<and> space_kept k c k3)
    \<and> terminal_print (console k) (take 1023 s @ [0]) = Some t"
  have "\<exists>k'. isr80h_handler buf k 1 frame = Some (0, k') \<and> resumed k c frame k'
     \<and> ?P (vfs k') (console k') (process_store k')"
  proof (rule handler_ok [OF sp, where P = ?P])
    fix k2 assume k2: "trapped k c frame k2"
    let ?k = "with_pages k2 0x10 (kernel_chunk k2)"
    have t: "trapped k c frame ?k" by (rule trapped_pages [OF k2])
    then have cur: "vfs k2 = vfs k" "console ?k = console k" "current_task ?k = current_task k" "globals_of ?k = globals_of k"
      using in_trap_fields(1) [of k c frame ?k] by (simp_all add: trapped_def in_trap_def)
    have "task_space ?k (current_task k) c" "task_string ?k c va s" "0 < kheap_avail (kmem_of ?k)"
      using t str free cur(1) by (simp_all add: trapped_def in_trap_def task_string_def)
    from copy_string_from_task_ok [OF this, of 1024 buf] buf obtain k3 where
      k3: "copy_string_from_task ?k (current_task k) va buf 1024 =
        Some (0, take 1023 s @ 0 # drop (Suc (min 1023 (length s))) buf, k3)"
      "task_space k3 (current_task k) c" "space_kept ?k c k3" "globals_kept ?k k3" "console k3 = console k"
      using cur(2) by auto
    have nz: "0 \<notin> set (take 1023 s)" using str by (auto simp: task_string_def user_string_def dest: in_set_takeD)
    obtain con where con: "terminal_print (console k) (take 1023 s @ [0]) = Some con"
      using terminal_print_string(2) [OF nz] by blast
    then have con': "terminal_print (console k) (take 1023 s @ 0 # r) = Some con" for r
      using terminal_print_string(1) [OF nz, of "console k" r] by simp
    let ?k3 = "k3\<lparr>console := con\<rparr>"
    have run: "isr80h_handle_command buf k2 1 frame = Some (0, ?k3)"
      using handle_registered [OF _ _ _ k2, of 1] cmd trapped_stack_item [OF k2 ptr] k3(1,5) cur con'
        in_trap_fields [of k c frame k2] k2
      by (simp add: run_command_def isr80h_command1_print_def kernel_print_def trapped_def)
    have "current_task k \<in> kheap_used (kmem_of ?k)" using sp cur(1) by (simp add: task_space_def)
    then have "task_store k3 (current_task k) = task_store ?k (current_task k)" using k3(4) by (simp add: globals_kept_def)
    moreover have "globals_of ?k3 = globals_of k" using k3(4) cur(4) by (simp add: globals_kept_def)
    moreover have "task_space ?k3 (current_task k) c" using k3(2) by (simp add: task_space_def)
    moreover have "space_kept k c k3" using k3(3) cur(1) by (auto simp: space_kept_def)
    ultimately show "\<exists>k3. isr80h_handle_command buf k2 1 frame = Some (0, k3) \<and> in_trap k c frame k3
        \<and> ?P (vfs k3) (console k3) (process_store k3)"
      using run con t by (intro exI [of _ ?k3]) (auto simp: trapped_def in_trap_def)
  qed
  then obtain k' k3 where k': "isr80h_handler buf k 1 frame = Some (0, k')" "resumed k c frame k'"
    "vfs k3 = vfs k'" "space_kept k c k3" "terminal_print (console k) (take 1023 s @ [0]) = Some (console k')" by blast
  then have "space_kept k c k'" by (auto simp: space_kept_def)
  with k' show ?thesis by blast
qed

text \<open>A command number without a command returns 0 and does nothing else.\<close>

lemma no_call:
  assumes "task_space k (current_task k) c"
    "n < 0 \<or> 1024 \<le> n \<or> isr80h_commands k ! nat n = None"
  shows "\<exists>k'. isr80h_handler buf k n frame = Some (0, k') \<and> resumed k c frame k'
     \<and> vfs k' = vfs k \<and> console k' = console k \<and> process_store k' = process_store k"
proof (rule handler_ok [OF assms(1), where P = "\<lambda>v t p. v = vfs k \<and> t = console k \<and> p = process_store k"])
  fix k2 assume k2: "trapped k c frame k2"
  have "isr80h_commands k2 = isr80h_commands k" using k2 in_trap_fields(4) by (auto simp: trapped_def)
  then have "isr80h_handle_command buf k2 n frame = Some (0, k2)"
    using assms(2) by (auto simp: isr80h_handle_command_def)
  with k2 show "\<exists>k3. isr80h_handle_command buf k2 n frame = Some (0, k3) \<and> in_trap k c frame k3
      \<and> vfs k3 = vfs k \<and> console k3 = console k \<and> process_store k3 = process_store k"
    by (auto simp: trapped_def)
qed

lemma putchar_call:
  assumes "task_space k (current_task k) c" "isr80h_commands k ! 3 = Some Isr80h_command3_putchar"
    "stack_word k c frame 0 = Some v"
  shows "\<exists>k'. isr80h_handler buf k 3 frame = Some (0, k') \<and> resumed k c frame k'
     \<and> vfs k' = vfs k \<and> console k' = terminal_default_putchar (console k) (ucast v) 15 \<and> process_store k' = process_store k"
proof (rule handler_ok [OF assms(1), where P = "\<lambda>v' t p. v' = vfs k
      \<and> t = terminal_default_putchar (console k) (ucast v) 15 \<and> p = process_store k"])
  fix k2 assume k2: "trapped k c frame k2"
  let ?k = "with_pages k2 0x10 (kernel_chunk k2)"
  let ?k3 = "?k\<lparr>console := terminal_default_putchar (console k2) (ucast v) 15\<rparr>"
  have "isr80h_handle_command buf k2 3 frame = Some (0, ?k3)"
    using handle_registered [OF _ _ _ k2, of 3] assms(2) trapped_stack_item [OF k2 assms(3)]
    by (simp add: run_command_def isr80h_command3_putchar_def)
  then show "\<exists>k3. isr80h_handle_command buf k2 3 frame = Some (0, k3) \<and> in_trap k c frame k3
      \<and> vfs k3 = vfs k \<and> console k3 = terminal_default_putchar (console k) (ucast v) 15 \<and> process_store k3 = process_store k"
    using k2 by (intro exI [of _ ?k3]) (auto simp: trapped_def in_trap_def task_space_def)
qed

section \<open>From the key to the program\<close>

text \<open>The process at \<open>a\<close> with \<open>q\<close> in its key buffer.\<close>

definition keys_waiting :: "(addr \<Rightarrow> process option) \<Rightarrow> addr \<Rightarrow> byte list \<Rightarrow> bool" where
  "keys_waiting ps a q \<longleftrightarrow> (\<exists>p. ps a = Some p \<and> ring_holds (keyboard p) q)"

definition runs_process :: "'d kernel \<Rightarrow> addr \<Rightarrow> bool" where
  "runs_process k a \<longleftrightarrow> (\<exists>t. task_store k (current_task k) = Some t \<and> task_process t = a)"

lemma keyboard_push_ok:
  assumes "keys_waiting (process_store k) (current_process k) q" "current_process k \<noteq> 0" "c \<noteq> 0" "length q < 1024"
  obtains p where "keyboard_push k c = Some (put_process k (current_process k) p)"
    "keys_waiting (process_store (put_process k (current_process k) p)) (current_process k) (q @ [c])"
proof -
  obtain p where p: "process_store k (current_process k) = Some p" "ring_holds (keyboard p) q"
    using assms(1) by (auto simp: keys_waiting_def)
  show thesis
    by (rule that [of "p\<lparr>keyboard := push_key (keyboard p) c\<rparr>"])
      (use assms(2) p push_key_holds [OF p(2) assms(3,4)] in
        \<open>simp_all add: keyboard_push_def process_current_def put_process_def keys_waiting_def\<close>)
qed

lemma getkey_call:
  assumes sp: "task_space k (current_task k) c" and cmd: "isr80h_commands k ! 2 = Some Isr80h_command2_getkey"
    and r: "runs_process k a" "keys_waiting (process_store k) a (b # q)"
  shows "\<exists>k'. isr80h_handler buf k 2 frame = Some (scast b, k') \<and> resumed k c frame k'
     \<and> keys_waiting (process_store k') a q \<and> vfs k' = vfs k \<and> console k' = console k"
proof (rule handler_ok [OF sp, where P = "\<lambda>v t p. keys_waiting p a q \<and> v = vfs k \<and> t = console k"])
    fix k2 assume k2: "trapped k c frame k2"
    then have i: "in_trap k c frame k2" "process_store k2 = process_store k" by (simp_all add: trapped_def)
    obtain p where p: "process_store k2 a = Some p" "ring_holds (keyboard p) (b # q)"
      using r(2) i(2) by (auto simp: keys_waiting_def)
    obtain kb where kb: "pop_key (keyboard p) = (b, kb)" "ring_holds kb q" using pop_key_holds [OF p(2)] by blast
    let ?k3 = "put_process k2 a (p\<lparr>keyboard := kb\<rparr>)"
    obtain t where "task_store k2 (current_task k) = Some t" "task_process t = a"
      using i(1) r(1) by (auto simp: in_trap_def runs_process_def)
    moreover have "current_task k2 = current_task k" "current_task k \<noteq> 0"
      using in_trap_fields(1) [OF i(1)] task_space_nonzero(1) [OF sp] by simp_all
    ultimately have "keyboard_pop k2 = Some (b, ?k3)" using p(1) kb(1) by (simp add: keyboard_pop_def)
    then have "isr80h_handle_command buf k2 2 frame = Some (scast b, ?k3)"
      using handle_registered [OF _ _ _ k2, of 2] cmd by (simp add: run_command_def isr80h_command2_getkey_def)
    moreover have "in_trap k c frame ?k3" using i(1) by (simp add: in_trap_def task_space_def)
    moreover have "vfs ?k3 = vfs k \<and> console ?k3 = console k \<and> keys_waiting (process_store ?k3) a q"
      using k2 kb(2) by (simp add: trapped_def put_process_def keys_waiting_def)
    ultimately show "\<exists>k3. isr80h_handle_command buf k2 2 frame = Some (scast b, k3) \<and> in_trap k c frame k3
        \<and> keys_waiting (process_store k3) a q \<and> vfs k3 = vfs k \<and> console k3 = console k" by blast
qed

lemma set_dev_fields [simp]:
  "console (set_dev k d) = console k" "task_store (set_dev k d) = task_store k" "process_store (set_dev k d) = process_store k"
  "kernel_chunk (set_dev k d) = kernel_chunk k" "current_task (set_dev k d) = current_task k"
  "current_process (set_dev k d) = current_process k" "globals_of (set_dev k d) = globals_of k"
  "data_segment (set_dev k d) = data_segment k" "mmu_regs (set_dev k d) = mmu_regs k"
  by (simp_all add: set_dev_def globals_of_def)

lemma in_trap_more [simp]:
  "in_trap k c frame (set_dev k' d) = in_trap k c frame k'"
  "in_trap k c frame (put_process k' a p) = in_trap k c frame k'"
proof -
  have "task_space (put_process k' a p) x c = task_space k' x c" for x by (simp add: task_space_def put_process_def)
  moreover have "task_store (put_process k' a p) = task_store k'" by (simp add: put_process_def)
  ultimately show "in_trap k c frame (put_process k' a p) = in_trap k c frame k'" by (simp add: in_trap_def)
  show "in_trap k c frame (set_dev k' d) = in_trap k c frame k'" by (simp add: in_trap_def task_space_def)
qed

text \<open>What the driver reads: the scan code, and another byte that it drops.\<close>

definition key_code :: "'d ports \<Rightarrow> 'd kernel \<Rightarrow> byte" where
  "key_code io k = fst (insb io KEYBOARD_INPUT_PORT (fs_dev (lower (vfs k))))"

lemma keyboard_interrupt:
  assumes sp: "task_space k (current_task k) c"
    and cb: "interrupt_callbacks k ! 0x21 = Some Qwerty_keyboard_handle_interrupt"
    and keys: "keys_waiting (process_store k) (current_process k) q" "current_process k \<noteq> 0" "length q < 1024"
    and code: "qwerty_keyboard_scancode_to_char (key_code io k) = Some b"
  shows "\<exists>k'. interrupt_handler io k 0x21 frame = Some k' \<and> resumed k c frame k' \<and> kmem_of k' = kmem_of k
     \<and> console k' = console k \<and> keys_waiting (process_store k') (current_process k)
        (if bit (key_code io k) 7 \<or> b = 0 then q else q @ [b])"
proof -
  obtain k1 k2 where e: "kernel_page k = Some k1" "task_current_save_state k1 frame = Some k2" "trapped k c frame k2"
      "interrupt_callbacks k1 = interrupt_callbacks k"
    using trap_enter [OF sp] by blast
  have k2: "in_trap k c frame k2" "vfs k2 = vfs k" "process_store k2 = process_store k" "console k2 = console k"
    using e(3) by (simp_all add: trapped_def)
  note f = in_trap_fields [OF k2(1)]
  let ?q = "if bit (key_code io k) 7 \<or> b = 0 then q else q @ [b]"
  have "\<exists>k6. qwerty_keyboard_handle_interrupt io k2 = Some k6 \<and> in_trap k c frame k6 \<and> kmem_of k6 = kmem_of k
     \<and> console k6 = console k \<and> keys_waiting (process_store k6) (current_process k) ?q"
  proof -
    obtain d1 x d2 where d: "insb io KEYBOARD_INPUT_PORT (fs_dev (lower (vfs k))) = (key_code io k, d1)"
      "insb io KEYBOARD_INPUT_PORT d1 = (x, d2)" by (metis key_code_def prod.collapse)
    let ?k4 = "set_dev (with_pages k2 0x10 (kernel_chunk k2)) d2"
    have rel: "key_code io k AND 0x80 \<noteq> 0 \<longleftrightarrow> bit (key_code io k) 7"
      using and_exp_eq_0_iff_not_bit [of "key_code io k" 7] by simp
    have run: "qwerty_keyboard_handle_interrupt io k2 = (if bit (key_code io k) 7 then Some ?k4
        else do { k \<leftarrow> (if b \<noteq> 0 then keyboard_push ?k4 b else Some ?k4); task_page k })"
      using d code k2(2) kernel_page_eq [OF f(3)]
      by (simp add: qwerty_keyboard_handle_interrupt_def QWERTY_KEYBOARD_KEY_RELEASED_def rel)
    have k4: "in_trap k c frame ?k4" "process_store ?k4 = process_store k" "console ?k4 = console k"
      "kmem_of ?k4 = kmem_of k" "current_process ?k4 = current_process k" using k2 f(6) by simp_all
    show ?thesis
    proof (cases "bit (key_code io k) 7 \<or> b = 0")
      case True
      then show ?thesis using run k4 keys(1) trap_leave(1) [OF k4(1)]
        by (cases "bit (key_code io k) 7") simp_all
    next
      case False
      obtain p where p: "keyboard_push ?k4 b = Some (put_process ?k4 (current_process ?k4) p)"
        "keys_waiting (process_store (put_process ?k4 (current_process ?k4) p)) (current_process ?k4) (q @ [b])"
        by (rule keyboard_push_ok [of ?k4 q b]) (use keys k4(2,5) False in simp_all)
      let ?k5 = "put_process ?k4 (current_process ?k4) p"
      have "in_trap k c frame ?k5" using k4(1) by simp
      from trap_leave(1) [OF this] show ?thesis
        using run False p k4 k2 by simp
    qed
  qed
  then obtain k6 where k6: "qwerty_keyboard_handle_interrupt io k2 = Some k6" "in_trap k c frame k6"
    "kmem_of k6 = kmem_of k" "console k6 = console k" "keys_waiting (process_store k6) (current_process k) ?q" by blast
  show ?thesis
    using e(1,2,4) cb k6 trap_leave [OF k6(2)] by (simp add: interrupt_handler_def run_callback_def resumed_def)
qed

end
