(* ===== verification/Running.thy ===== *)
theory Running
  imports Calls
begin

text \<open>
  A program that runs: stores in user mode, system calls and interrupts, in any order, as a step
  relation on the state of the kernel; what a run can change, and what it cannot.
\<close>

section \<open>Stores in user mode\<close>

text \<open>
  Where a store of ring 3 goes: both levels must be present, writable and open to user mode.
\<close>

definition user_target :: "ram \<Rightarrow> addr \<Rightarrow> addr \<Rightarrow> addr option" where
  "user_target m d va =
     (let e = table_entry m d (dir_index va) in
      if \<not> (bit e 0 \<and> bit e 1 \<and> bit e 2) then None
      else let p = table_entry m (e AND 0xFFFFF000) (tab_index va) in
        if \<not> (bit p 0 \<and> bit p 1 \<and> bit p 2) then None else Some ((p AND 0xFFFFF000) + (va AND 0xFFF)))"

definition user_store :: "'d kernel \<Rightarrow> addr \<Rightarrow> byte \<Rightarrow> 'd kernel option" where
  "user_store k va b = map_option (\<lambda>pa. set_ram k ((ram_of k)(pa := b))) (user_target (ram_of k) (cr3 (mmu_regs k)) va)"

text \<open>The physical pages a task of this address space can write.\<close>

definition user_pages :: "ram \<Rightarrow> addr \<Rightarrow> addr set" where
  "user_pages m d = {page_base pa | pa. \<exists>va. user_target m d va = Some pa}"

lemma same_tables_target:
  assumes "same_tables m c m'"
  shows "user_target m' (directory_entry m c) = user_target m (directory_entry m c)"
proof
  fix va
  let ?d = "directory_entry m c"
  have e: "table_entry m' ?d (dir_index va) = table_entry m ?d (dir_index va)"
    using assms dir_index_less by (simp add: same_tables_def)
  have "paging_get_table_entry m' ?d (page_base va) = paging_get_table_entry m ?d (page_base va)"
    using same_tables_facts(1,5) [OF assms] by (metis page_aligned_page_base)
  then show "user_target m' ?d va = user_target m ?d va"
    by (simp add: user_target_def e paging_get_table_entry_eq page_base_def [symmetric] Let_def)
qed

section \<open>Steps\<close>

text \<open>
  One event while the current task runs: it stores a byte, it makes a system call with any number
  and any registers (\<open>buf\<close> being what the kernel stack holds where \<^verbatim>\<open>print\<close> keeps its buffer), or the
  machine interrupts it.
\<close>

inductive user_step :: "'d ports \<Rightarrow> 'd kernel \<Rightarrow> 'd kernel \<Rightarrow> bool" for io where
  store: "user_store k va b = Some k' \<Longrightarrow> user_step io k k'"
| trap: "isr80h_handler buf k n frame = Some (r, k') \<Longrightarrow> user_step io k k'"
| interrupt: "interrupt_handler io k i frame = Some k' \<Longrightarrow> user_step io k k'"

inductive_cases user_stepE: "user_step io k k'"

text \<open>
  The current task runs in its own address space, and cannot write to its page tables nor to free
  blocks of the heap.
\<close>

definition running :: "'d kernel \<Rightarrow> addr \<Rightarrow> bool" where
  "running k c \<longleftrightarrow> task_space k (current_task k) c \<and> cr3 (mmu_regs k) = directory_entry (ram_of k) c
     \<and> user_pages (ram_of k) (directory_entry (ram_of k) c) \<inter> (chunk_pages (ram_of k) c \<union> free_pages (kmem_of k)) = {}"

text \<open>What a run leaves as it was.\<close>

definition others_kept :: "'d kernel \<Rightarrow> 'd kernel \<Rightarrow> bool" where
  "others_kept k k' \<longleftrightarrow> globals_of k' = globals_of k
     \<and> (\<forall>a\<in>kheap_used (kmem_of k) - {current_task k}. task_store k' a = task_store k a)
     \<and> map_option task_process (task_store k' (current_task k)) = map_option task_process (task_store k (current_task k))
     \<and> (\<forall>a\<in>kheap_used (kmem_of k). process_store k a \<noteq> None \<longrightarrow> process_store k' a \<noteq> None)"

definition confined :: "'d kernel \<Rightarrow> addr \<Rightarrow> 'd kernel \<Rightarrow> bool" where
  "confined k c k' \<longleftrightarrow> others_kept k k' \<and> kheap_used (kmem_of k') = kheap_used (kmem_of k)
     \<and> kheap_avail (kmem_of k') = kheap_avail (kmem_of k) \<and> same_tables (ram_of k) c (ram_of k')
     \<and> (\<forall>a. page_base a \<notin> user_pages (ram_of k) (directory_entry (ram_of k) c)
           \<union> chunk_pages (ram_of k) c \<union> free_pages (kmem_of k) \<longrightarrow> ram_of k' a = ram_of k a)"

lemma others_kept_refl [simp]: "others_kept k k"
  by (simp add: others_kept_def)

lemma confined_refl [simp]: "confined k c k"
  by (simp add: confined_def)

lemma free_pages_cong: "kheap_used k' = kheap_used k \<Longrightarrow> free_pages k' = free_pages k"
  by (simp add: free_pages_def)

lemma same_tables_pages:
  assumes "same_tables m c m'"
  shows "user_pages m' (directory_entry m' c) = user_pages m (directory_entry m c)"
  using same_tables_target [OF assms] same_tables_facts(1) [OF assms] by (simp add: user_pages_def)

lemma confined_trans:
  assumes "confined k c k1" "confined k1 c k2"
  shows "confined k c k2"
proof -
  have s: "same_tables (ram_of k) c (ram_of k1)" and u: "kheap_used (kmem_of k1) = kheap_used (kmem_of k)"
    and cur: "current_task k1 = current_task k"
    using assms(1) globals_of_fields [of k1 k] by (auto simp: confined_def others_kept_def)
  note pages = same_tables_pages [OF s] same_tables_facts(2) [OF s] free_pages_cong [OF u]
  from assms show ?thesis
    by (simp add: confined_def others_kept_def pages u cur same_tables_trans [OF s])
qed

lemma confined_running:
  assumes "running k c" "confined k c k'" "task_space k' (current_task k) c" "cr3 (mmu_regs k') = directory_entry (ram_of k') c"
  shows "running k' c"
proof -
  have s: "same_tables (ram_of k) c (ram_of k')" and u: "kheap_used (kmem_of k') = kheap_used (kmem_of k)"
    and cur: "current_task k' = current_task k"
    using assms(2) globals_of_fields [of k' k] by (auto simp: confined_def others_kept_def)
  note pages = same_tables_pages [OF s] same_tables_facts(2) [OF s] free_pages_cong [OF u]
  from assms show ?thesis by (simp add: running_def pages cur)
qed

section \<open>A store\<close>

lemma store_confined:
  assumes "running k c" "user_store k va b = Some k'"
  shows "running k' c \<and> confined k c k'"
proof -
  let ?d = "directory_entry (ram_of k) c"
  obtain pa where pa: "user_target (ram_of k) ?d va = Some pa" "k' = set_ram k ((ram_of k)(pa := b))"
    using assms by (auto simp: user_store_def running_def)
  have up: "page_base pa \<in> user_pages (ram_of k) ?d" using pa(1) by (auto simp: user_pages_def)
  then have out: "page_base pa \<notin> chunk_pages (ram_of k) c" using assms(1) by (auto simp: running_def)
  have wf: "wf_chunk (ram_of k) c" using assms(1) by (simp add: running_def task_space_def owns_chunk_def)
  have fr: "ram_of k' a = ram_of k a" if "page_base a \<in> chunk_pages (ram_of k) c" for a
    using that out pa(2) by auto
  have s: "same_tables (ram_of k) c (ram_of k')" by (rule same_tables_frame [OF wf fr])
  note f = same_tables_facts [OF s]
  have k': "kmem_of k' = (kmem_of k)\<lparr>phys := ram_of k'\<rparr>" "globals_of k' = globals_of k" "task_store k' = task_store k"
    "mmu_regs k' = mmu_regs k" "current_task k' = current_task k" "kernel_chunk k' = kernel_chunk k"
    using pa(2) by (simp_all add: globals_of_def set_ram_def set_kmem_def)
  have "process_store k' = process_store k" using pa(2) by simp
  then have con: "confined k c k'"
    using s k'(2,3) up pa(2) by (auto simp: confined_def others_kept_def)
  moreover have "task_space k' (current_task k) c"
    using assms(1) f(1-4) k'(3,6) pa(2) by (simp add: running_def task_space_def owns_chunk_def)
  moreover have "cr3 (mmu_regs k') = directory_entry (ram_of k') c"
    using assms(1) k'(4) f(1) by (simp add: running_def)
  ultimately show ?thesis using confined_running [OF assms(1)] by blast
qed

section \<open>A system call\<close>

text \<open>Within a trap, whatever the commands have done so far.\<close>

definition undisturbed :: "'d kernel \<Rightarrow> addr \<Rightarrow> interrupt_frame \<Rightarrow> 'd kernel \<Rightarrow> bool" where
  "undisturbed k c frame k' \<longleftrightarrow> in_trap k c frame k' \<and> space_kept k c k' \<and> others_kept k k'"

lemma trap_enter_undisturbed:
  assumes "task_space k (current_task k) c"
  obtains k1 k2 where "kernel_page k = Some k1" "task_current_save_state k1 frame = Some k2" "undisturbed k c frame k2"
    "interrupt_callbacks k1 = interrupt_callbacks k"
proof -
  obtain k1 k2 where e: "kernel_page k = Some k1" "task_current_save_state k1 frame = Some k2" "trapped k c frame k2"
    "interrupt_callbacks k1 = interrupt_callbacks k"
    using trap_enter [OF assms] by blast
  have k1: "k1 = with_pages k 0x10 (kernel_chunk k)" using e(1) kernel_page_eq [of k] task_space_nonzero(3) [OF assms] by simp
  then have "task_store k2 a = task_store k a" if "a \<noteq> current_task k" for a
    using e(2) that by (auto simp: task_current_save_state_def task_save_state_def put_task_def split: if_splits bind_splits)
  moreover have "map_option task_process (task_store k2 (current_task k)) = map_option task_process (task_store k (current_task k))"
    using e(3) by (auto simp: trapped_def in_trap_def)
  ultimately have "others_kept k k2" using e(3) by (auto simp: others_kept_def trapped_def in_trap_def)
  with that [OF e(1,2)] e(3,4) show thesis by (simp add: undisturbed_def trapped_def space_kept_def)
qed

lemma undisturbed_pages [simp]: "undisturbed k c frame (with_pages k' s x) = undisturbed k c frame k'"
  by (simp add: undisturbed_def space_kept_def others_kept_def)

lemma undisturbed_console [simp]: "undisturbed k c frame (k'\<lparr>console := t\<rparr>) = undisturbed k c frame k'"
  by (simp add: undisturbed_def space_kept_def others_kept_def in_trap_def task_space_def)

lemma undisturbed_dev [simp]: "undisturbed k c frame (set_dev k' d) = undisturbed k c frame k'"
  by (simp add: undisturbed_def space_kept_def others_kept_def)

lemma undisturbed_process: "undisturbed k c frame k' \<Longrightarrow> undisturbed k c frame (put_process k' a p)"
  by (simp add: undisturbed_def space_kept_def others_kept_def)

lemma stack_item_pages:
  assumes "task_get_stack_item k task i = Some (v, k')"
  shows "k' = with_pages k 0x10 (kernel_chunk k)"
  using assms
  by (auto simp: task_get_stack_item_def task_page_task_def user_registers_def kernel_paging_switch_def with_pages_def
      kernel_page_def kernel_registers_def paging_switch_def split: bind_splits if_splits)

lemma stack_item_undisturbed:
  assumes "undisturbed k c frame k1" "task_get_stack_item k1 task i = Some (v, k2)"
  shows "undisturbed k c frame k2" "current_task k2 = current_task k1"
  using assms(1) stack_item_pages [OF assms(2)] by simp_all

lemma copy_string_undisturbed:
  assumes "undisturbed k c frame k1" "copy_string_from_task k1 (current_task k1) va buf 1024 = Some (res, buf', k2)"
    "current_task k \<in> kheap_used (kmem_of k)"
  shows "undisturbed k c frame k2"
proof -
  have u: "in_trap k c frame k1" "space_kept k c k1" "others_kept k k1" using assms(1) by (simp_all add: undisturbed_def)
  have cur: "current_task k1 = current_task k" by (rule in_trap_fields(1) [OF u(1)])
  have sp: "task_space k1 (current_task k) c" using u(1) by (simp add: in_trap_def)
  have k2: "task_space k2 (current_task k) c" "space_kept k1 c k2" "globals_kept k1 k2"
    using copy_string_kept [OF sp _ _ assms(2) [unfolded cur]] by simp_all
  have used: "kheap_used (kmem_of k1) = kheap_used (kmem_of k)" using u(2) by (simp add: space_kept_def)
  then have st: "task_store k2 a = task_store k1 a" if "a \<in> kheap_used (kmem_of k)" for a
    using k2(3) that by (simp add: globals_kept_def)
  have "in_trap k c frame k2"
    using u(1) k2(1,3) st [OF assms(3)] by (auto simp: in_trap_def globals_kept_def)
  moreover have "others_kept k k2"
    using u(3) k2(3) st used assms(3) by (simp add: others_kept_def globals_kept_def)
  ultimately show ?thesis using space_kept_trans [OF u(2) k2(2)] by (simp add: undisturbed_def)
qed

lemma command_undisturbed:
  assumes "undisturbed k c frame k1" "run_command buf k1 cmd frame = Some (r, k2)" "current_task k \<in> kheap_used (kmem_of k)"
  shows "undisturbed k c frame k2"
proof (cases cmd)
  case Isr80h_command0_sum
  then obtain v2 k3 v1 where "task_get_stack_item k1 (current_task k1) 1 = Some (v2, k3)"
    "task_get_stack_item k3 (current_task k3) 0 = Some (v1, k2)"
    using assms(2) by (auto simp: run_command_def isr80h_command0_sum_def split: bind_splits)
  then show ?thesis using stack_item_undisturbed(1) assms(1) by blast
next
  case Isr80h_command1_print
  then obtain va k3 res buf' k4 where s: "task_get_stack_item k1 (current_task k1) 0 = Some (va, k3)"
    "copy_string_from_task k3 (current_task k3) va buf 1024 = Some (res, buf', k4)" "kernel_print k4 buf' = Some k2"
    using assms(2) by (auto simp: run_command_def isr80h_command1_print_def split: bind_splits)
  have "undisturbed k c frame k4"
    by (rule copy_string_undisturbed [OF stack_item_undisturbed(1) [OF assms(1) s(1)] s(2) assms(3)])
  then show ?thesis using s(3) by (auto simp: kernel_print_def split: bind_splits)
next
  case Isr80h_command2_getkey
  then show ?thesis using assms(1,2)
    by (auto simp: run_command_def isr80h_command2_getkey_def keyboard_pop_def undisturbed_process split: bind_splits if_splits prod.splits)
next
  case Isr80h_command3_putchar
  then obtain v k3 where "task_get_stack_item k1 (current_task k1) 0 = Some (v, k3)"
    "k2 = k3\<lparr>console := terminal_default_putchar (console k3) (ucast v) 15\<rparr>"
    using assms(2) by (auto simp: run_command_def isr80h_command3_putchar_def split: bind_splits)
  then show ?thesis using stack_item_undisturbed(1) assms(1) by simp
qed

lemma handler_undisturbed:
  assumes sp: "task_space k (current_task k) c" and run: "isr80h_handler buf k n frame = Some (r, k')"
  shows "undisturbed k c frame k' \<and> resumed k c frame k'"
proof -
  obtain k1 k2 where e: "kernel_page k = Some k1" "task_current_save_state k1 frame = Some k2" "undisturbed k c frame k2"
    using trap_enter_undisturbed [OF sp] by blast
  obtain k3 where k3: "isr80h_handle_command buf k2 n frame = Some (r, k3)" "task_page k3 = Some k'"
    using run e(1,2) by (auto simp: isr80h_handler_def split: bind_splits)
  have "current_task k \<in> kheap_used (kmem_of k)" using sp by (simp add: task_space_def)
  then have u: "undisturbed k c frame k3"
    using k3(1) e(3) command_undisturbed [OF e(3)]
    by (auto simp: isr80h_handle_command_def split: if_splits option.splits)
  then have "in_trap k c frame k3" by (simp add: undisturbed_def)
  from trap_leave [OF this] k3(2) u show ?thesis by auto
qed

section \<open>An interrupt\<close>

lemma callback_undisturbed:
  assumes u: "undisturbed k c frame k1" and run: "run_callback io k1 cb = Some k2"
  shows "undisturbed k c frame k2"
proof -
  have t: "in_trap k c frame k1" using u by (simp add: undisturbed_def)
  obtain s d1 x d2 where d: "insb io KEYBOARD_INPUT_PORT (fs_dev (lower (vfs k1))) = (s, d1)" "insb io KEYBOARD_INPUT_PORT d1 = (x, d2)"
    by (metis prod.collapse)
  let ?k = "set_dev (with_pages k1 0x10 (kernel_chunk k1)) d2"
  have u': "undisturbed k c frame ?k" using u by simp
  have "undisturbed k c frame k2" if "keyboard_push ?k b = Some k3" "task_page k3 = Some k2" for b k3
  proof -
    have "undisturbed k c frame k3"
      using that(1) u' by (auto simp: keyboard_push_def Let_def undisturbed_process split: if_splits bind_splits)
    then show ?thesis using that(2) trap_leave(1) [of k c frame k3] by (auto simp: undisturbed_def [of k c frame k3])
  qed
  moreover have "undisturbed k c frame k2" if "task_page ?k = Some k2"
    using that u trap_leave(1) [of k c frame ?k] t by auto
  ultimately show ?thesis using run d u' kernel_page_eq [OF in_trap_fields(3) [OF t]]
    by (cases cb) (auto simp: run_callback_def qwerty_keyboard_handle_interrupt_def Let_def split: if_splits bind_splits)
qed

lemma undisturbed_confined:
  assumes "running k c" "undisturbed k c frame k'" "cr3 (mmu_regs k') = directory_entry (ram_of k') c"
  shows "running k' c \<and> confined k c k'"
proof -
  have "confined k c k'" using assms(2) by (simp add: undisturbed_def space_kept_def confined_def)
  moreover have "task_space k' (current_task k) c" using assms(2) by (simp add: undisturbed_def in_trap_def)
  ultimately show ?thesis using confined_running [OF assms(1)] assms(3) by blast
qed

lemma trap_confined:
  assumes "running k c" "isr80h_handler buf k n frame = Some (r, k')"
  shows "running k' c \<and> confined k c k'"
proof -
  have "undisturbed k c frame k' \<and> resumed k c frame k'"
    using handler_undisturbed [OF _ assms(2)] assms(1) by (simp add: running_def)
  then show ?thesis using undisturbed_confined [OF assms(1), of frame k'] by (simp add: resumed_def)
qed

lemma interrupt_confined:
  assumes r: "running k c" and run: "interrupt_handler io k i frame = Some k'"
  shows "running k' c \<and> confined k c k'"
proof -
  have sp: "task_space k (current_task k) c" using r by (simp add: running_def)
  obtain k1 k2 where e: "kernel_page k = Some k1" "task_current_save_state k1 frame = Some k2" "undisturbed k c frame k2"
    "interrupt_callbacks k1 = interrupt_callbacks k"
    using trap_enter_undisturbed [OF sp] by blast
  show ?thesis
  proof (cases "interrupt_callbacks k ! nat i")
    case None
    obtain t where t: "task_store k (current_task k) = Some t" "page_directory t = c" using sp by (auto simp: task_space_def)
    have k1: "k1 = with_pages k 0x10 (kernel_chunk k)" using e(1) kernel_page_eq [of k] task_space_nonzero(3) [OF sp] by simp
    obtain d where "k' = set_dev (with_pages k 0x23 c) d"
      using run None e(1,4) task_page_eq [of k1 t] t k1 task_space_nonzero(2) [OF sp]
      by (auto simp: interrupt_handler_def split: if_splits)
    then have "confined k c k'" "task_space k' (current_task k) c" "cr3 (mmu_regs k') = directory_entry (ram_of k') c"
      using sp by (simp_all add: confined_def others_kept_def task_space_def)
    then show ?thesis using confined_running [OF r] by blast
  next
    case (Some cb)
    obtain k3 k4 where k: "run_callback io k2 cb = Some k3" "task_page k3 = Some k4"
      "k' = set_dev k4 (outb io MASTER_PIC_COMMAND_AND_STATUS_REG END_OF_INTERRUPT (fs_dev (lower (vfs k4))))"
      using run Some e(1,2,4) by (auto simp: interrupt_handler_def split: if_splits bind_splits)
    have u: "undisturbed k c frame k3" by (rule callback_undisturbed [OF e(3) k(1)])
    then have "in_trap k c frame k3" by (simp add: undisturbed_def)
    from trap_leave [OF this] k(2) have k4: "k4 = with_pages k3 0x23 c" by simp
    show ?thesis by (rule undisturbed_confined [OF r]) (use u k4 k(3) in simp_all)
  qed
qed

section \<open>Runs\<close>

lemma step_confined:
  assumes "user_step io k k'" "running k c"
  shows "running k' c \<and> confined k c k'"
  using assms by (auto elim!: user_stepE dest: store_confined trap_confined interrupt_confined)

lemma run_confined:
  assumes "(user_step io)\<^sup>*\<^sup>* k k'" "running k c"
  shows "running k' c \<and> confined k c k'"
  using assms
proof (induction rule: rtranclp_induct)
  case (step k1 k2)
  from step.IH [OF step.prems] step_confined [OF step.hyps(2)] show ?case using confined_trans by blast
qed simp

section \<open>No system call gets stuck\<close>

text \<open>
  Every page of the task is present, its process exists, and the heap has a block for the bounce
  buffer.
\<close>

definition alive :: "'d kernel \<Rightarrow> addr \<Rightarrow> bool" where
  "alive k c \<longleftrightarrow> all_present (ram_of k) c \<and> 0 < kheap_avail (kmem_of k)
     \<and> (\<exists>a\<in>kheap_used (kmem_of k). runs_process k a \<and> process_store k a \<noteq> None)"

lemma alive_kept:
  assumes "alive k c" "task_space k (current_task k) c" "others_kept k k'" "kheap_used (kmem_of k') = kheap_used (kmem_of k)"
    "kheap_avail (kmem_of k') = kheap_avail (kmem_of k)" "same_tables (ram_of k) c (ram_of k')"
  shows "alive k' c"
proof -
  have cur: "current_task k' = current_task k" using assms(3) globals_of_fields [of k' k] by (simp add: others_kept_def)
  obtain a where a: "a \<in> kheap_used (kmem_of k)" "runs_process k a" "process_store k a \<noteq> None"
    using assms(1) by (auto simp: alive_def)
  then have "map_option task_process (task_store k' (current_task k)) = Some a"
    using assms(3) by (auto simp: others_kept_def runs_process_def)
  then have "runs_process k' a" by (auto simp: runs_process_def cur)
  moreover have "process_store k' a \<noteq> None" using a assms(3) by (auto simp: others_kept_def)
  moreover have "present_tables (ram_of k) (directory_entry (ram_of k) c)" using assms(2) by (simp add: task_space_def)
  ultimately show ?thesis
    using assms(1,4,5) a(1) same_tables_present [OF assms(6)] by (auto simp: alive_def)
qed

lemma alive_confined:
  assumes "alive k c" "running k c" "confined k c k'"
  shows "alive k' c"
  by (rule alive_kept [OF assms(1)]) (use assms(2,3) in \<open>simp_all add: running_def confined_def\<close>)

lemma alive_undisturbed:
  assumes "alive k c" "task_space k (current_task k) c" "undisturbed k c frame k'"
  shows "alive k' c"
  by (rule alive_kept [OF assms(1,2)]) (use assms(3) in \<open>simp_all add: undisturbed_def space_kept_def\<close>)

lemma stack_item_returns:
  assumes "in_trap k c frame k1" "alive k1 c"
  shows "\<exists>v. task_get_stack_item k1 (current_task k1) i = Some (v, with_pages k1 0x10 (kernel_chunk k1))"
proof -
  have cur: "current_task k1 = current_task k" and kc: "kernel_chunk k1 \<noteq> 0"
    using in_trap_fields [OF assms(1)] by simp_all
  obtain t where t: "task_store k1 (current_task k1) = Some t" "page_directory t = c"
    using assms(1) by (auto simp: in_trap_def cur)
  have c: "c \<noteq> 0" using assms(1) task_space_nonzero(2) by (auto simp: in_trap_def)
  have "virt_read (ram_of k1) (directory_entry (ram_of k1) c) x \<noteq> None" for x
    using assms(2) by (simp add: alive_def all_present_def virt_read_def)
  then have "virt_load32 (ram_of k1) (directory_entry (ram_of k1) c) x \<noteq> None" for x
    by (simp add: virt_load32_def) (metis bind.bind_lunit option.distinct(1) option.exhaust)
  then show ?thesis using task_get_stack_item_ok [of k1 "current_task k1" t i] t c kc by fastforce
qed

lemma command_returns:
  assumes sp: "task_space k (current_task k) c" and al: "alive k c" and u: "undisturbed k c frame k1" and buf: "length buf = 1024"
  shows "\<exists>r k2. run_command buf k1 cmd frame = Some (r, k2)"
proof -
  have t: "in_trap k c frame k1" using u by (simp add: undisturbed_def)
  have a: "alive k1 c" by (rule alive_undisturbed [OF al sp u])
  let ?k = "with_pages k1 0x10 (kernel_chunk k1)"
  have u': "undisturbed k c frame ?k" and t': "in_trap k c frame ?k" using u t by simp_all
  have a': "alive ?k c" by (rule alive_undisturbed [OF al sp u'])
  have item: "\<exists>v. task_get_stack_item k1 (current_task k1) i = Some (v, ?k)" for i
    by (rule stack_item_returns [OF t a])
  show ?thesis
  proof (cases cmd)
    case Isr80h_command0_sum
    then show ?thesis using item [of 1] stack_item_returns [OF t' a', of 0]
      by (auto simp: run_command_def isr80h_command0_sum_def)
  next
    case Isr80h_command1_print
    have "task_space ?k (current_task ?k) c" using t' in_trap_fields(1) [OF t'] by (simp add: in_trap_def)
    moreover obtain va where va: "task_get_stack_item k1 (current_task k1) 0 = Some (va, ?k)" using item by blast
    ultimately obtain buf' k3 where k3: "copy_string_from_task ?k (current_task ?k) va buf 1024 = Some (0, buf', k3)" "0 \<in> set buf'"
      using copy_string_returns [of ?k "current_task ?k" c 1024 buf va] a' buf by (auto simp: alive_def)
    then show ?thesis using va Isr80h_command1_print
      by (auto simp: run_command_def isr80h_command1_print_def kernel_print_def terminal_print_def strlen_eq)
  next
    case Isr80h_command2_getkey
    obtain p t' where "task_store k1 (current_task k1) = Some t'" "process_store k1 (task_process t') = Some p"
      using a by (auto simp: alive_def runs_process_def)
    then show ?thesis using Isr80h_command2_getkey
      by (auto simp: run_command_def isr80h_command2_getkey_def keyboard_pop_def split: prod.splits)
  next
    case Isr80h_command3_putchar
    then show ?thesis using item [of 0] by (auto simp: run_command_def isr80h_command3_putchar_def)
  qed
qed

lemma handler_returns:
  assumes "running k c" "alive k c" "length buf = 1024"
  shows "\<exists>r k'. isr80h_handler buf k n frame = Some (r, k')"
proof -
  have sp: "task_space k (current_task k) c" using assms(1) by (simp add: running_def)
  obtain k1 k2 where e: "kernel_page k = Some k1" "task_current_save_state k1 frame = Some k2" "undisturbed k c frame k2"
    using trap_enter_undisturbed [OF sp] by blast
  have "\<exists>r k3. isr80h_handle_command buf k2 n frame = Some (r, k3)"
    using command_returns [OF sp assms(2) e(3) assms(3)]
    by (auto simp: isr80h_handle_command_def split: option.splits)
  then obtain r k3 where k3: "isr80h_handle_command buf k2 n frame = Some (r, k3)" by blast
  have "current_task k \<in> kheap_used (kmem_of k)" using sp by (simp add: task_space_def)
  then have "undisturbed k c frame k3"
    using k3 e(3) command_undisturbed [OF e(3)]
    by (auto simp: isr80h_handle_command_def split: if_splits option.splits)
  then show ?thesis using e(1,2) k3 trap_leave(1) [of k c frame k3] by (simp add: isr80h_handler_def undisturbed_def)
qed

lemma run_alive:
  assumes "(user_step io)\<^sup>*\<^sup>* k k'" "running k c" "alive k c"
  shows "alive k' c"
  using alive_confined [OF assms(3,2)] run_confined [OF assms(1,2)] by blast

end
