(* ===== verification/ElfProofs.thy ===== *)
theory ElfProofs
  imports Process AddressSpace
begin

text \<open>
  What the ELF loader makes of the program headers of an image: the bounds of the loaded image, and
  the pages through which a task sees the bytes of the file.
\<close>

section \<open>The bounds of an image\<close>

text \<open>The program headers that the loops walk, in order.\<close>

definition program_headers :: "ram \<Rightarrow> elf_file \<Rightarrow> elf32_phdr list" where
  "program_headers m f = map (\<lambda>i. elf32_phdr_at m (elf_program_header m (elf_header f) i))
     [0..<unat (e_phnum (elf_header_at m (elf_header f)))]"

definition load_segments :: "ram \<Rightarrow> elf_file \<Rightarrow> elf32_phdr list" where
  "load_segments m f = filter (\<lambda>p. p_type p = PT_LOAD) (program_headers m f)"

definition seg_end :: "elf32_phdr \<Rightarrow> addr" where
  "seg_end p = p_vaddr p + p_filesz p"

text \<open>The bounds that \<open>f\<close> records are those of the segments \<open>ps\<close>.\<close>

definition image_bounds :: "elf32_phdr list \<Rightarrow> elf_file \<Rightarrow> bool" where
  "image_bounds ps f \<longleftrightarrow>
     virtual_base_address f = Min (p_vaddr ` set ps) \<and> virtual_end_address f = Max (seg_end ` set ps)
     \<and> (\<exists>p\<in>set ps. p_vaddr p = virtual_base_address f \<and> physical_base_address f = ef_memory f + p_offset p)
     \<and> (\<exists>p\<in>set ps. seg_end p = virtual_end_address f
          \<and> physical_end_address f = ef_memory f + p_offset p + p_filesz p)"

lemma pt_load_memory [simp]: "ef_memory (snd (elf_process_phdr_pt_load f p)) = ef_memory f"
  by (simp add: elf_process_phdr_pt_load_def Let_def)

lemma pheader_memory [simp]: "ef_memory (snd (elf_process_pheader f p)) = ef_memory f" "fst (elf_process_pheader f p) = 0"
  by (simp_all add: elf_process_pheader_def elf_process_phdr_pt_load_def elf_memory_def Let_def)

lemma pheaders_loop_eq:
  "pheaders_loop m f i 0 n = (0, fold (\<lambda>p f. snd (elf_process_pheader f p))
     (map (\<lambda>i. elf32_phdr_at m (elf_program_header m (elf_header f) i)) [i..<i + n]) f)"
proof (induction n arbitrary: i f)
  case (Suc n)
  let ?p = "elf32_phdr_at m (elf_program_header m (elf_header f) i)"
  obtain r f' where e: "elf_process_pheader f ?p = (r, f')" by fastforce
  then have f': "r = 0" "elf_header f' = elf_header f"
    using pheader_memory [of f ?p] by (simp_all add: elf_header_def)
  have "[i..<i + Suc n] = i # [Suc i..<Suc i + n]" by (simp add: upt_conv_Cons)
  then show ?case using Suc.IH [of f' "Suc i"] e f' by (simp add: Let_def)
qed simp

lemma elf_process_pheaders_eq:
  "elf_process_pheaders m f = (0, fold (\<lambda>p f. snd (elf_process_phdr_pt_load f p)) (load_segments m f) f)"
proof -
  have "fold (\<lambda>p f. snd (elf_process_pheader f p)) ps g =
      fold (\<lambda>p f. snd (elf_process_phdr_pt_load f p)) (filter (\<lambda>p. p_type p = PT_LOAD) ps) g" for ps g
    by (induction ps arbitrary: g) (simp_all add: elf_process_pheader_def)
  then show ?thesis
    by (simp add: elf_process_pheaders_def pheaders_loop_eq load_segments_def program_headers_def)
qed

lemma pt_load_first:
  assumes "virtual_base_address f = 0" "virtual_end_address f = 0"
  shows "image_bounds [p] (snd (elf_process_phdr_pt_load f p))"
  using assms by (simp add: image_bounds_def elf_process_phdr_pt_load_def elf_memory_def seg_end_def Let_def)

lemma pt_load_next:
  assumes b: "image_bounds ps f" and ne: "ps \<noteq> []" "\<forall>q\<in>set ps. p_vaddr q \<noteq> 0"
  shows "image_bounds (ps @ [p]) (snd (elf_process_phdr_pt_load f p))"
proof -
  let ?f = "snd (elf_process_phdr_pt_load f p)"
  have v: "virtual_base_address f = Min (p_vaddr ` set ps)" "virtual_end_address f = Max (seg_end ` set ps)"
    using b by (simp_all add: image_bounds_def)
  have "Min (p_vaddr ` set ps) \<in> p_vaddr ` set ps" using ne(1) by (intro Min_in) auto
  then have nz: "virtual_base_address f \<noteq> 0" using v(1) ne(2) by auto
  have mem: "ef_memory ?f = ef_memory f"
    by (simp add: elf_process_phdr_pt_load_def Let_def)
  have base: "virtual_base_address ?f = min (p_vaddr p) (virtual_base_address f)"
    "physical_base_address ?f = (if p_vaddr p \<le> virtual_base_address f then ef_memory f + p_offset p else physical_base_address f)"
    using nz by (auto simp: elf_process_phdr_pt_load_def Let_def elf_memory_def min_def)
  have "virtual_end_address f = 0 \<Longrightarrow> virtual_end_address f \<le> seg_end p" by simp
  then have en: "virtual_end_address ?f = max (seg_end p) (virtual_end_address f)"
    "physical_end_address ?f = (if virtual_end_address f \<le> seg_end p then ef_memory f + p_offset p + p_filesz p else physical_end_address f)"
    by (auto simp: elf_process_phdr_pt_load_def Let_def elf_memory_def max_def seg_end_def)
  have s: "set (ps @ [p]) = insert p (set ps)" by simp
  have "virtual_base_address ?f = Min (p_vaddr ` set (ps @ [p]))" "virtual_end_address ?f = Max (seg_end ` set (ps @ [p]))"
    unfolding s base(1) en(1) v image_insert using ne(1) by simp_all
  moreover have "\<exists>q\<in>set (ps @ [p]). p_vaddr q = virtual_base_address ?f \<and> physical_base_address ?f = ef_memory ?f + p_offset q"
    unfolding s mem base using b by (auto simp: image_bounds_def min_def)
  moreover have "\<exists>q\<in>set (ps @ [p]). seg_end q = virtual_end_address ?f
      \<and> physical_end_address ?f = ef_memory ?f + p_offset q + p_filesz q"
    unfolding s mem en using b by (auto simp: image_bounds_def max_def)
  ultimately show ?thesis unfolding image_bounds_def by blast
qed

lemma pt_load_all:
  assumes "image_bounds ps f" "ps \<noteq> []" "\<forall>q\<in>set (ps @ qs). p_vaddr q \<noteq> 0"
  shows "image_bounds (ps @ qs) (fold (\<lambda>p f. snd (elf_process_phdr_pt_load f p)) qs f)"
  using assms
proof (induction qs arbitrary: ps f)
  case (Cons q qs)
  have "image_bounds (ps @ [q]) (snd (elf_process_phdr_pt_load f q))"
    using Cons.prems by (intro pt_load_next) auto
  from Cons.IH [OF this] Cons.prems show ?case by simp
qed simp

lemma elf_process_pheaders_bounds:
  assumes "load_segments m f \<noteq> []" "\<forall>p\<in>set (load_segments m f). p_vaddr p \<noteq> 0"
    "virtual_base_address f = 0" "virtual_end_address f = 0"
  obtains f' where "elf_process_pheaders m f = (0, f')" "image_bounds (load_segments m f) f'"
    "ef_memory f' = ef_memory f"
proof -
  obtain p ps where p: "load_segments m f = p # ps" using assms(1) by (cases "load_segments m f") auto
  have "image_bounds ([p] @ ps) (fold (\<lambda>p f. snd (elf_process_phdr_pt_load f p)) ps (snd (elf_process_phdr_pt_load f p)))"
    by (rule pt_load_all [OF pt_load_first]) (use assms p in auto)
  moreover have "ef_memory (fold (\<lambda>p f. snd (elf_process_phdr_pt_load f p)) qs g) = ef_memory g" for qs g
    by (induction qs arbitrary: g) simp_all
  ultimately show thesis using that elf_process_pheaders_eq [of m f] p by simp
qed

section \<open>The pages of an image\<close>

lemma page_aligned_minus: "page_aligned a \<Longrightarrow> page_aligned b \<Longrightarrow> page_aligned (a - b)"
  by (metis dvd_triv_left page_aligned_unat page_offset)

lemma page_base_shift:
  assumes "page_aligned x"
  shows "page_base (v + x) = page_base v + x" "(v + x) AND 0xFFF = v AND 0xFFF"
proof -
  have v: "v + x = (page_base v + x) + (v AND 0xFFF)"
    using page_split [of v] by (metis add.assoc add.commute)
  have "page_aligned (page_base v + x)" using assms by (intro page_aligned_add) simp_all
  then show pb: "page_base (v + x) = page_base v + x"
    unfolding v by (rule page_base_in_page) simp
  have "(page_base v + x) + ((v + x) AND 0xFFF) = (page_base v + x) + (v AND 0xFFF)"
    using page_split [of "v + x"] v unfolding pb by (simp only:)
  then show "(v + x) AND 0xFFF = v AND 0xFFF" by simp
qed

lemma elf32_phdr_at_cong:
  "(\<And>x. unat (x - a) < 32 \<Longrightarrow> m' x = m x) \<Longrightarrow> elf32_phdr_at m' a = elf32_phdr_at m a"
  by (simp add: elf32_phdr_at_def load32_def)

text \<open>The virtual pages a header makes \<^verbatim>\<open>process_map_elf\<close> map, and the entries they get.\<close>

definition seg_base :: "elf_file \<Rightarrow> elf32_phdr \<Rightarrow> addr" where
  "seg_base f p = elf_phdr_phys_address f p"

definition seg_covers :: "elf_file \<Rightarrow> elf32_phdr \<Rightarrow> addr \<Rightarrow> bool" where
  "seg_covers f p wa \<longleftrightarrow>
     wa - page_base (p_vaddr p) < paging_align_address (seg_base f p + p_filesz p) - page_base (seg_base f p)"

definition seg_entry :: "elf_file \<Rightarrow> elf32_phdr \<Rightarrow> addr \<Rightarrow> u32" where
  "seg_entry f p wa = (page_base (seg_base f p) + (wa - page_base (p_vaddr p))) OR segment_flags p"

text \<open>The segment lies inside of memory as the loader sees it.\<close>

definition seg_fits :: "elf_file \<Rightarrow> elf32_phdr \<Rightarrow> bool" where
  "seg_fits f p \<longleftrightarrow> unat (ef_memory f) + unat (p_offset p) + unat (p_filesz p) \<le> 4294963200"

lemma seg_fits_unat:
  assumes "seg_fits f p"
  shows "unat (seg_base f p) = unat (ef_memory f) + unat (p_offset p)"
    "unat (seg_base f p + p_filesz p) = unat (seg_base f p) + unat (p_filesz p)"
    "unat (seg_base f p) + unat (p_filesz p) \<le> 4294963200"
proof -
  show b: "unat (seg_base f p) = unat (ef_memory f) + unat (p_offset p)"
    using assms by (simp add: seg_base_def elf_phdr_phys_address_def elf_memory_def seg_fits_def unat_word_ariths(1))
  show "unat (seg_base f p) + unat (p_filesz p) \<le> 4294963200" using assms b by (simp add: seg_fits_def)
  then show "unat (seg_base f p + p_filesz p) = unat (seg_base f p) + unat (p_filesz p)"
    by (simp add: unat_word_ariths(1))
qed

lemma map_segment_ok:
  assumes wf: "wf_chunk m c" and fit: "seg_fits f p"
  obtains m' where "map_segment m c f p = (0, m')" "wf_chunk m' c" "tables_only m c m'"
    "directory_entry m' c = directory_entry m c"
    "\<And>wa. page_aligned wa \<Longrightarrow> lookup_page m' c wa = (if seg_covers f p wa then seg_entry f p wa else lookup_page m c wa)"
proof -
  let ?e = "seg_base f p + p_filesz p"
  have e: "unat ?e \<le> 4294963200" "seg_base f p \<le> ?e" using seg_fits_unat [OF fit] by (simp_all add: word_le_nat_alt)
  have "page_base (seg_base f p) \<le> seg_base f p" by (simp add: word_le_nat_alt unat_page_base)
  then have le: "page_base (seg_base f p) \<le> paging_align_address ?e"
    using e(2) paging_align_address_eq(3) [OF e(1)] by (meson order_trans)
  from paging_map_to_ok [OF wf page_aligned_page_base page_aligned_page_base paging_align_address_eq(2) [OF e(1)] le,
      of "p_vaddr p" "segment_flags p"]
  obtain m' where "paging_map_to m c (page_base (p_vaddr p)) (page_base (seg_base f p)) (paging_align_address ?e) (segment_flags p) = (0, m')"
    "wf_chunk m' c" "tables_only m c m'" "directory_entry m' c = directory_entry m c"
    "\<forall>wa. page_aligned wa \<longrightarrow> lookup_page m' c wa =
      (if wa - page_base (p_vaddr p) < paging_align_address ?e - page_base (seg_base f p)
       then (page_base (seg_base f p) + (wa - page_base (p_vaddr p))) OR segment_flags p else lookup_page m c wa)" by blast
  then show thesis
    by (intro that [of m']) (simp_all add: map_segment_def paging_align_to_lower_page_eq seg_base_def [symmetric] Let_def
        seg_covers_def seg_entry_def)
qed

text \<open>The entry of a page after all headers: that of the last one that covers it.\<close>

definition mapped_entry :: "elf_file \<Rightarrow> elf32_phdr list \<Rightarrow> addr \<Rightarrow> u32 \<Rightarrow> u32" where
  "mapped_entry f ps wa e = fold (\<lambda>p e. if seg_covers f p wa then seg_entry f p wa else e) ps e"

lemma map_elf_loop_ok:
  assumes "wf_chunk m c" "\<forall>p\<in>set (map (\<lambda>j. elf32_phdr_at m (phdrs + 32 * of_nat j)) [i..<i + n]). seg_fits f p"
    "\<And>x. unat (x - phdrs) < 32 * (i + n) \<Longrightarrow> page_base x \<notin> chunk_pages m c" "i + n \<le> 65535"
  shows "\<exists>m'. map_elf_loop m c f phdrs i 0 n = (0, m') \<and> wf_chunk m' c \<and> tables_only m c m'
     \<and> directory_entry m' c = directory_entry m c
     \<and> (\<forall>wa. page_aligned wa \<longrightarrow> lookup_page m' c wa =
          mapped_entry f (map (\<lambda>j. elf32_phdr_at m (phdrs + 32 * of_nat j)) [i..<i + n]) wa (lookup_page m c wa))"
  using assms
proof (induction n arbitrary: m i)
  case (Suc n)
  let ?h = "\<lambda>m j. elf32_phdr_at m (phdrs + 32 * of_nat j)"
  have up: "[i..<i + Suc n] = i # [Suc i..<Suc i + n]" by (simp add: upt_conv_Cons)
  have fit: "seg_fits f (?h m i)" using Suc.prems(2) unfolding up by simp
  obtain m1 where m1: "map_segment m c f (?h m i) = (0, m1)" "wf_chunk m1 c" "tables_only m c m1"
    "directory_entry m1 c = directory_entry m c"
    and look: "\<And>wa. page_aligned wa \<Longrightarrow> lookup_page m1 c wa =
      (if seg_covers f (?h m i) wa then seg_entry f (?h m i) wa else lookup_page m c wa)"
    using map_segment_ok [OF Suc.prems(1) fit] by blast
  note pg = tables_only_pages [OF m1(3)]
  have hd: "?h m1 j = ?h m j" if j: "j < i + Suc n" for j
  proof (rule elf32_phdr_at_cong)
    fix x :: addr assume x: "unat (x - (phdrs + 32 * of_nat j)) < 32"
    have j': "unat (32 * of_nat j :: u32) = 32 * j" using j Suc.prems(4) by (simp add: unat_word_ariths unat_of_nat)
    define w where "w = x - (phdrs + 32 * of_nat j)"
    have "x - phdrs = 32 * of_nat j + w" by (simp add: w_def)
    moreover have "unat (32 * of_nat j + w) = 32 * j + unat w"
      using x j Suc.prems(4) j' by (simp add: unat_word_ariths(1) flip: w_def)
    ultimately have "unat (x - phdrs) < 32 * (i + Suc n)" using x j by (simp flip: w_def)
    then show "m1 x = m x" using Suc.prems(3) pg(2) by blast
  qed
  have mp: "map (?h m1) [Suc i..<Suc i + n] = map (?h m) [Suc i..<Suc i + n]"
    by (rule map_cong [OF refl]) (rule hd, auto)
  have "\<exists>m'. map_elf_loop m1 c f phdrs (Suc i) 0 n = (0, m') \<and> wf_chunk m' c \<and> tables_only m1 c m'
     \<and> directory_entry m' c = directory_entry m1 c
     \<and> (\<forall>wa. page_aligned wa \<longrightarrow> lookup_page m' c wa =
          mapped_entry f (map (?h m1) [Suc i..<Suc i + n]) wa (lookup_page m1 c wa))"
  proof (rule Suc.IH [OF m1(2)])
    show "\<forall>p\<in>set (map (?h m1) [Suc i..<Suc i + n]). seg_fits f p" using Suc.prems(2) unfolding mp up by simp
    show "page_base x \<notin> chunk_pages m1 c" if "unat (x - phdrs) < 32 * (Suc i + n)" for x
      using Suc.prems(3) [of x] that pg(1) by simp
  qed (use Suc.prems(4) in simp)
  then obtain m' where m': "map_elf_loop m1 c f phdrs (Suc i) 0 n = (0, m')" "wf_chunk m' c" "tables_only m1 c m'"
    "directory_entry m' c = directory_entry m1 c"
    "\<forall>wa. page_aligned wa \<longrightarrow> lookup_page m' c wa = mapped_entry f (map (?h m) [Suc i..<Suc i + n]) wa (lookup_page m1 c wa)"
    unfolding mp by blast
  then show ?case
    using m1 look tables_only_trans [OF m1(3) m'(3)] unfolding up by (simp add: mapped_entry_def)
qed (simp add: mapped_entry_def)

lemma mapped_entry_last:
  assumes "ps = us @ p # vs" "seg_covers f p wa" "\<forall>q\<in>set vs. \<not> seg_covers f q wa"
  shows "mapped_entry f ps wa e = seg_entry f p wa"
proof -
  have "\<forall>q\<in>set vs. \<not> seg_covers f q wa \<Longrightarrow> fold (\<lambda>p e. if seg_covers f p wa then seg_entry f p wa else e) vs x = x" for x
    by (induction vs) auto
  then show ?thesis using assms by (simp add: mapped_entry_def)
qed

lemma segment_flags_bits:
  "bit (segment_flags p) 0" "bit (segment_flags p) 2" "bit (segment_flags p) 1 \<longleftrightarrow> p_flags p AND PF_W \<noteq> 0"
  by (simp_all add: segment_flags_def Let_def bit_simps PAGING_IS_PRESENT_def PAGING_ACCESS_BY_ALL_def PAGING_IS_WRITABLE_def)

lemma segment_flags_byte: "\<exists>b :: byte. segment_flags p = ucast b"
  by (simp add: segment_flags_def Let_def) blast

text \<open>
  A byte of a segment whose address agrees with its place in the image modulo the page size is
  covered, and the entry of its page leads to that place.
\<close>

lemma seg_byte:
  assumes fit: "seg_fits f p" and al: "p_vaddr p AND 0xFFF = seg_base f p AND 0xFFF"
    and v: "unat (v - p_vaddr p) < unat (p_filesz p)"
  shows "seg_covers f p (page_base v)"
    "page_base (seg_entry f p (page_base v)) + (v AND 0xFFF) = seg_base f p + (v - p_vaddr p)"
    "bit (seg_entry f p (page_base v)) 0"
    "bit (seg_entry f p (page_base v)) 1 \<longleftrightarrow> p_flags p AND PF_W \<noteq> 0"
proof -
  let ?b = "seg_base f p" and ?e = "seg_base f p + p_filesz p"
  define x where "x = page_base ?b - page_base (p_vaddr p)"
  define w where "w = v + x"
  have x: "page_aligned x" unfolding x_def by (rule page_aligned_minus) simp_all
  have "?b - p_vaddr p = (page_base ?b + (?b AND 0xFFF)) - (page_base (p_vaddr p) + (p_vaddr p AND 0xFFF))"
    by (simp only: page_split)
  then have xd: "x = ?b - p_vaddr p" by (simp add: x_def al)
  have w: "w = ?b + (v - p_vaddr p)" by (simp add: w_def xd)
  have sh: "page_base w = page_base v + x" "w AND 0xFFF = v AND 0xFFF"
    using page_base_shift [OF x, of v] by (simp_all add: w_def)
  note u = seg_fits_unat [OF fit]
  have uw: "unat w = unat ?b + unat (v - p_vaddr p)"
    unfolding w using u(3) v by (simp add: unat_word_ariths(1))
  have ent: "page_base ?b + (page_base v - page_base (p_vaddr p)) = page_base w"
    unfolding sh(1) x_def by (simp add: algebra_simps)
  have pe: "page_aligned (page_base w)" by simp
  obtain b :: byte where b: "segment_flags p = ucast b" using segment_flags_byte by blast
  have se: "seg_entry f p (page_base v) = page_base w OR segment_flags p"
    by (simp add: seg_entry_def ent)
  show "page_base (seg_entry f p (page_base v)) + (v AND 0xFFF) = ?b + (v - p_vaddr p)"
    unfolding se b page_base_flags [OF pe] sh(2) [symmetric] page_split by (rule w)
  show "bit (seg_entry f p (page_base v)) 0"
    unfolding se using segment_flags_bits(1) by (simp add: bit_or_iff)
  have "\<not> bit (page_base w) 1" by (simp add: page_base_alt bit_push_bit_iff)
  then show "bit (seg_entry f p (page_base v)) 1 \<longleftrightarrow> p_flags p AND PF_W \<noteq> 0"
    unfolding se using segment_flags_bits(3) by (simp add: bit_or_iff)
  have e: "unat ?e \<le> 4294963200" using u by simp
  have "unat ?e \<le> unat (paging_align_address ?e)"
    using paging_align_address_eq(3) [OF e] by (simp add: word_le_nat_alt)
  moreover have "unat (page_base w) \<le> unat w" "unat (page_base ?b) \<le> unat ?b" by (simp_all add: unat_page_base)
  moreover have "unat (page_base ?b) \<le> unat (page_base w)"
    unfolding unat_page_base using uw by (simp add: div_le_mono)
  ultimately have "unat (page_base w - page_base ?b) < unat (paging_align_address ?e - page_base ?b)"
    using uw v u(2) by (simp add: unat_sub word_le_nat_alt)
  moreover have "page_base v - page_base (p_vaddr p) = page_base w - page_base ?b"
    unfolding sh(1) x_def by simp
  ultimately show "seg_covers f p (page_base v)" by (simp add: seg_covers_def word_less_nat_alt)
qed

text \<open>A process with its task and its image, whose headers lie outside of the task's page tables.\<close>

definition elf_process :: "'d kernel \<Rightarrow> addr \<Rightarrow> elf_file \<Rightarrow> addr \<Rightarrow> bool" where
  "elf_process k a f c \<longleftrightarrow>
     (\<exists>p t. process_store k a = Some p \<and> elf_files k (proc_ptr p) = Some f
        \<and> task_store k (proc_task p) = Some t \<and> page_directory t = c)
     \<and> wf_chunk (ram_of k) c \<and> present_tables (ram_of k) (directory_entry (ram_of k) c)
     \<and> (\<forall>p\<in>set (program_headers (ram_of k) f). seg_fits f p)
     \<and> (\<forall>x. unat (x - elf_pheader (ram_of k) (elf_header f)) < 32 * length (program_headers (ram_of k) f)
          \<longrightarrow> page_base x \<notin> chunk_pages (ram_of k) c)"

lemma process_map_elf_ok:
  assumes "elf_process k a f c"
  obtains m' where "process_map_elf k a = Some (0, set_ram k m')" "wf_chunk m' c" "tables_only (ram_of k) c m'"
    "\<And>wa. page_aligned wa \<Longrightarrow> lookup_page m' c wa = mapped_entry f (program_headers (ram_of k) f) wa (lookup_page (ram_of k) c wa)"
proof -
  let ?m = "ram_of k" and ?n = "unat (e_phnum (elf_header_at (ram_of k) (elf_header f)))"
  let ?ph = "elf_pheader (ram_of k) (elf_header f)"
  obtain p t where pt: "process_store k a = Some p" "elf_files k (proc_ptr p) = Some f" "task_store k (proc_task p) = Some t"
    "page_directory t = c" using assms by (auto simp: elf_process_def)
  have hs: "map (\<lambda>j. elf32_phdr_at ?m (?ph + 32 * of_nat j)) [0..<0 + ?n] = program_headers ?m f"
    by (simp add: program_headers_def elf_program_header_def)
  have len: "length (program_headers ?m f) = ?n" by (simp add: program_headers_def)
  have "?n < 2 ^ LENGTH(16)" by (rule unsigned_less)
  then have n: "0 + ?n \<le> 65535" by simp
  have wf: "wf_chunk ?m c" using assms by (simp add: elf_process_def)
  have "\<exists>m'. map_elf_loop ?m c f ?ph 0 0 ?n = (0, m') \<and> wf_chunk m' c \<and> tables_only ?m c m'
     \<and> directory_entry m' c = directory_entry ?m c
     \<and> (\<forall>wa. page_aligned wa \<longrightarrow> lookup_page m' c wa = mapped_entry f (program_headers ?m f) wa (lookup_page ?m c wa))"
    unfolding hs [symmetric]
    by (rule map_elf_loop_ok [OF wf _ _ n]) (use assms len in \<open>auto simp: elf_process_def hs [simplified]\<close>)
  then show thesis using that pt by (auto simp: process_map_elf_def Let_def)
qed

lemma process_map_elf_byte:
  assumes ep: "elf_process k a f c" and ph: "program_headers (ram_of k) f = us @ p # vs"
    and al: "p_vaddr p AND 0xFFF = elf_phdr_phys_address f p AND 0xFFF"
    and v: "unat (v - p_vaddr p) < unat (p_filesz p)" "\<forall>q\<in>set vs. \<not> seg_covers f q (page_base v)"
  shows "\<exists>m'. process_map_elf k a = Some (0, set_ram k m') \<and> tables_only (ram_of k) c m'
     \<and> translate m' (directory_entry m' c) v = Some (elf_phdr_phys_address f p + (v - p_vaddr p))
     \<and> (bit (lookup_page m' c (page_base v)) 1 \<longleftrightarrow> p_flags p AND PF_W \<noteq> 0)"
proof -
  obtain m' where m': "process_map_elf k a = Some (0, set_ram k m')" "tables_only (ram_of k) c m'"
    and look: "\<And>wa. page_aligned wa \<Longrightarrow>
      lookup_page m' c wa = mapped_entry f (program_headers (ram_of k) f) wa (lookup_page (ram_of k) c wa)"
    using process_map_elf_ok [OF ep] by blast
  have "seg_fits f p" using ep ph by (simp add: elf_process_def)
  note b = seg_byte [OF this _ v(1), unfolded seg_base_def, OF al]
  have l: "lookup_page m' c (page_base v) = seg_entry f p (page_base v)"
    using look [of "page_base v"] mapped_entry_last [OF ph b(1) v(2)] by simp
  have "present_tables m' (directory_entry m' c)"
    using tables_only_present [OF m'(2)] ep by (simp add: elf_process_def)
  then have "translate m' (directory_entry m' c) v = Some (elf_phdr_phys_address f p + (v - p_vaddr p))"
    using b(2,3) l by (simp add: translate_eq Let_def)
  then show ?thesis using m' l b(4) by auto
qed

text \<open>A page that no header covers keeps its entry.\<close>

lemma mapped_entry_none: "\<forall>p\<in>set ps. \<not> seg_covers f p wa \<Longrightarrow> mapped_entry f ps wa e = e"
  unfolding mapped_entry_def by (induction ps) auto

end
