(* ===== verification/TaskList.thy ===== *)
theory TaskList
  imports AddressSpace
begin

text \<open>
  The list of tasks that \<^verbatim>\<open>task.c\<close> keeps through \<^verbatim>\<open>next\<close> and \<^verbatim>\<open>prev\<close>: what adding a task and
  choosing the next one make of it, and where removing one breaks it.
\<close>

section \<open>The list\<close>

primrec task_path :: "(addr \<Rightarrow> task option) \<Rightarrow> addr \<Rightarrow> addr \<Rightarrow> addr list \<Rightarrow> bool" where
  "task_path s p a [] \<longleftrightarrow> a = 0"
| "task_path s p a (x # xs) \<longleftrightarrow>
     a = x \<and> x \<noteq> 0 \<and> (\<exists>t. s x = Some t \<and> task_prev t = p \<and> task_path s x (task_next t) xs)"

definition task_list :: "'d kernel \<Rightarrow> addr list \<Rightarrow> bool" where
  "task_list k ts \<longleftrightarrow> task_path (task_store k) 0 (task_head k) ts \<and> distinct ts
     \<and> (ts \<noteq> [] \<longrightarrow> task_tail k = last ts)"

lemma task_path_frame:
  "task_path s p a ts \<Longrightarrow> (\<And>x. x \<in> set ts \<Longrightarrow> s' x = s x) \<Longrightarrow> task_path s' p a ts"
  by (induction ts arbitrary: p a) auto

lemma task_path_last:
  "task_path s p a ts \<Longrightarrow> ts \<noteq> [] \<Longrightarrow> \<exists>t. s (last ts) = Some t \<and> task_next t = 0"
  by (induction ts arbitrary: p a) (auto split: if_splits)

lemma task_path_append:
  assumes "task_path s p a ts" "ts \<noteq> []" "distinct ts" "n \<notin> set ts" "n \<noteq> 0" "s (last ts) = Some l"
    "task_next t = 0"
  shows "task_path (s(last ts \<mapsto> l\<lparr>task_next := n\<rparr>, n \<mapsto> t\<lparr>task_prev := last ts\<rparr>)) p a (ts @ [n])"
  using assms(1-6)
proof (induction ts arbitrary: p a)
  case (Cons x xs)
  then obtain u where u: "s x = Some u" "task_prev u = p" "task_path s x (task_next u) xs" by auto
  show ?case
  proof (cases xs)
    case Nil
    then show ?thesis using Cons.prems u assms(7) by auto
  next
    case (Cons y ys)
    then have "xs \<noteq> []" by simp
    moreover have "x \<noteq> last xs" "x \<noteq> n" using Cons.prems \<open>xs \<noteq> []\<close> by auto
    ultimately show ?thesis using Cons.IH [OF u(3)] Cons.prems u by auto
  qed
qed simp

lemma task_list_add_ok:
  assumes l: "task_list k ts" and n: "n \<notin> set ts" "n \<noteq> 0" "task_store k n = Some t" "task_next t = 0" "task_prev t = 0"
  obtains k' where "task_list_add k n = Some k'" "task_list k' (ts @ [n])"
    "current_task k' = (if ts = [] then n else current_task k)"
    "vfs k' = vfs k" "process_store k' = process_store k" "elf_files k' = elf_files k"
    "\<And>x. x \<notin> set ts \<Longrightarrow> x \<noteq> n \<Longrightarrow> task_store k' x = task_store k x"
    "\<exists>u. task_store k' n = Some u \<and> u\<lparr>task_prev := 0\<rparr> = t"
proof (cases ts)
  case Nil
  let ?k = "k\<lparr>task_head := n, task_tail := n, current_task := n\<rparr>"
  have "task_list_add k n = Some ?k" using l Nil by (simp add: task_list_add_def task_list_def)
  moreover have "t\<lparr>task_prev := 0\<rparr> = t" using n(5) by (cases t) simp
  ultimately show thesis using that [of ?k] Nil n by (simp add: task_list_def)
next
  case (Cons a as)
  then have p: "task_path (task_store k) 0 (task_head k) ts" "distinct ts" "task_tail k = last ts" "task_head k \<noteq> 0" "ts \<noteq> []"
    using l by (auto simp: task_list_def)
  from task_path_last [OF p(1,5)] obtain u where u: "task_store k (last ts) = Some u" by blast
  have ne: "last ts \<noteq> n" using n(1) p(5) by auto
  let ?s = "(task_store k)(last ts \<mapsto> u\<lparr>task_next := n\<rparr>, n \<mapsto> t\<lparr>task_prev := last ts\<rparr>)"
  let ?k = "k\<lparr>task_store := ?s, task_tail := n\<rparr>"
  have "task_list_add k n = Some ?k"
    using p(3,4) u n(3) ne by (simp add: task_list_add_def put_task_def Let_def)
  moreover have "task_list ?k (ts @ [n])"
    using task_path_append [OF p(1,5,2) n(1,2) u n(4)] p(2) n(1) by (simp add: task_list_def)
  moreover have "t\<lparr>task_prev := last ts, task_prev := 0\<rparr> = t" using n(5) by (cases t) simp
  moreover have "?s x = task_store k x" if "x \<notin> set ts" "x \<noteq> n" for x
    using that last_in_set [OF p(5)] by auto
  ultimately show thesis using that [of ?k] p(5) by simp
qed

section \<open>The next task\<close>

lemma task_path_nth:
  "task_path s p a ts \<Longrightarrow> i < length ts \<Longrightarrow>
     \<exists>t. s (ts ! i) = Some t \<and> task_next t = (if Suc i < length ts then ts ! Suc i else 0)
       \<and> task_prev t = (if i = 0 then p else ts ! (i - 1)) \<and> ts ! i \<noteq> 0"
proof (induction ts arbitrary: p a i)
  case (Cons x xs)
  then obtain u where u: "s x = Some u" "task_prev u = p" "task_path s x (task_next u) xs" "x \<noteq> 0" by auto
  show ?case
  proof (cases i)
    case 0
    then show ?thesis using u by (cases xs) auto
  next
    case (Suc j)
    then show ?thesis using Cons.IH [OF u(3), of j] Cons.prems(2) by (cases j) auto
  qed
qed simp

lemma task_get_next_ok:
  assumes "task_list k ts" "i < length ts" "current_task k = ts ! i"
  shows "task_get_next k = Some (ts ! (Suc i mod length ts))"
proof -
  have p: "task_path (task_store k) 0 (task_head k) ts" using assms(1) by (simp add: task_list_def)
  have hd: "task_head k = ts ! 0" using p assms(2) by (cases ts) auto
  show ?thesis
  proof (cases "Suc i < length ts")
    case True
    then show ?thesis using task_path_nth [OF p assms(2)] task_path_nth [OF p True] assms(3)
      by (auto simp: task_get_next_def)
  next
    case False
    then have "Suc i = length ts" using assms(2) by simp
    then show ?thesis using task_path_nth [OF p assms(2)] assms(3) hd by (auto simp: task_get_next_def)
  qed
qed

section \<open>Removing the last task\<close>

lemma task_list_remove_last:
  assumes "task_list k (ts @ [b])" "ts \<noteq> []" "task_list_remove k b = Some k'"
  shows "task_head k' \<noteq> 0" "task_tail k' = b"
proof -
  have p: "task_path (task_store k) 0 (task_head k) (ts @ [b])" and t: "task_tail k = b"
    using assms(1) by (simp_all add: task_list_def)
  have hd: "task_head k \<noteq> 0" using p assms(2) by (cases ts) auto
  have i: "length ts - 1 < length (ts @ [b])" "length ts < length (ts @ [b])" by simp_all
  obtain u where u: "task_store k b = Some u" "task_prev u \<noteq> 0"
    using task_path_nth [OF p i(2)] task_path_nth [OF p i(1)] assms(2) by auto
  show "task_head k' \<noteq> 0" "task_tail k' = b"
    using assms(3) u hd t by (auto simp: task_list_remove_def put_task_def split: bind_splits if_splits)
qed

lemma task_free_last:
  assumes l: "task_list k (ts @ [b])" "ts \<noteq> []" and f: "task_free k b = Some (r, k')"
  shows "task_list_add k' n = None"
proof -
  have "\<exists>m k1. task_list_remove (set_kmem k m) b = Some k1 \<and> kernel_free k1 b = Some k'"
    using f by (auto simp: task_free_def split: bind_splits)
  then obtain m k1 where 1: "task_list_remove (set_kmem k m) b = Some k1" "kernel_free k1 b = Some k'" by blast
  have "task_list (set_kmem k m) (ts @ [b])" using l(1) by (simp add: task_list_def)
  from task_list_remove_last [OF this l(2) 1(1)] have "task_head k1 \<noteq> 0" "task_tail k1 = b" .
  moreover have "task_head k' = task_head k1" "task_tail k' = task_tail k1" "task_store k' b = None"
    using 1(2) by (auto simp: kernel_free_def split: bind_splits)
  ultimately show ?thesis by (simp add: task_list_add_def)
qed

section \<open>Creating a task\<close>

text \<open>The registers a new task starts with.\<close>

definition start_registers :: "addr \<Rightarrow> registers" where
  "start_registers ip = zero_registers\<lparr>r_ip := ip, r_ss := USER_DATA_SEGMENT, r_cs := USER_CODE_SEGMENT,
     r_esp := RASOS_PROGRAM_VIRTUAL_STACK_ADDRESS_BOTTOM\<rparr>"

lemma put_task_fields [simp]:
  "vfs (put_task k a t) = vfs k" "process_store (put_task k a t) = process_store k" "elf_files (put_task k a t) = elf_files k"
  "task_store (put_task k a t) = (task_store k)(a \<mapsto> t)" "put_task (put_task k a t) a u = put_task k a u"
  "set_kmem (put_task k a t) m = put_task (set_kmem k m) a t" "current_task (put_task k a t) = current_task k"
  "task_head (put_task k a t) = task_head k" "task_tail (put_task k a t) = task_tail k"
  by (simp_all add: put_task_def set_kmem_def)

text \<open>Where the task of a process starts, memory being \<open>m\<close>.\<close>

definition entry_of :: "'d kernel \<Rightarrow> ram \<Rightarrow> process \<Rightarrow> addr option" where
  "entry_of k m p = (if filetype p = PROCESS_FILETYPE_ELF
     then map_option (\<lambda>f. e_entry (elf_header_at m (elf_header f))) (elf_files k (proc_ptr p))
     else Some RASOS_PROGRAM_VIRTUAL_ADDRESS)"

text \<open>A task as \<^verbatim>\<open>task_init\<close> leaves it.\<close>

definition fresh_task :: "'d kernel \<Rightarrow> addr \<Rightarrow> addr \<Rightarrow> addr \<Rightarrow> addr \<Rightarrow> bool" where
  "fresh_task k n process ip c \<longleftrightarrow>
     (\<exists>t. task_store k n = Some t \<and> task_process t = process \<and> regs t = start_registers ip \<and> page_directory t = c)
     \<and> owns_chunk (kmem_of k) c \<and> present_tables (ram_of k) (directory_entry (ram_of k) c)
     \<and> user_tables (ram_of k) (directory_entry (ram_of k) c)
     \<and> identity_mapped (ram_of k) (directory_entry (ram_of k) c) (PAGING_IS_PRESENT OR PAGING_ACCESS_BY_ALL)"

lemma task_new_ok:
  assumes ok: "kheap_ok (kmem_of k)" "1027 \<le> kheap_avail (kmem_of k)" and l: "task_list k ts" "set ts \<subseteq> kheap_used (kmem_of k)"
    and p: "process_store k process = Some p"
    and ip: "\<And>m. (\<And>a. page_base a \<in> kheap_used (kmem_of k) \<Longrightarrow> m a = ram_of k a) \<Longrightarrow> entry_of k m p = Some ip"
  obtains n c k' where "task_new k process = Some (n, k')" "task_list k' (ts @ [n])" "n \<notin> kheap_used (kmem_of k)" "n \<noteq> 0"
    "fresh_task k' n process ip c" "kheap_ok (kmem_of k')" "kheap_avail (kmem_of k') + 1027 = kheap_avail (kmem_of k)"
    "\<And>x. x \<in> kheap_used (kmem_of k) \<Longrightarrow> x \<notin> set ts \<Longrightarrow> task_store k' x = task_store k x"
    "current_task k' = (if ts = [] then n else current_task k)"
    "insert n (kheap_used (kmem_of k)) \<subseteq> kheap_used (kmem_of k')" "chunk_pages (ram_of k') c \<inter> kheap_used (kmem_of k) = {}"
    "\<And>a. page_base a \<in> kheap_used (kmem_of k) \<Longrightarrow> ram_of k' a = ram_of k a" "n \<notin> chunk_pages (ram_of k') c"
    "process_store k' = process_store k" "elf_files k' = elf_files k" "kernel_chunk k' = kernel_chunk k" "processes k' = processes k"
proof -
  have req: "page_request 64" by (simp add: page_request_def)
  obtain n m1 where m1: "kzalloc (kmem_of k) 64 = Some (n, m1)" "kheap_ok m1" "n \<noteq> 0" "page_aligned n" "n \<notin> kheap_used (kmem_of k)"
    "kheap_used m1 = insert n (kheap_used (kmem_of k))" "Suc (kheap_avail m1) = kheap_avail (kmem_of k)"
    using kpage.alloc_page [OF ok(1) req] ok(2) by auto
  have "1026 \<le> kheap_avail m1" using m1(7) ok(2) by simp
  from paging_new_4gb_ok [OF m1(2) this, of "PAGING_IS_PRESENT OR PAGING_ACCESS_BY_ALL"] obtain c m2 where
    m2: "paging_new_4gb m1 (PAGING_IS_PRESENT OR PAGING_ACCESS_BY_ALL) = Some (c, m2)" "kheap_ok m2" "c \<noteq> 0" "owns_chunk m2 c"
    "identity_mapped (phys m2) (directory_entry (phys m2) c) (PAGING_IS_PRESENT OR PAGING_ACCESS_BY_ALL)"
    "present_tables (phys m2) (directory_entry (phys m2) c)" "user_tables (phys m2) (directory_entry (phys m2) c)"
    "kheap_avail m2 + 1026 = kheap_avail m1"
    "kheap_used m2 = kheap_used m1 \<union> chunk_pages (phys m2) c" "chunk_pages (phys m2) c \<inter> kheap_used m1 = {}"
    by (auto simp: bit_or_iff PAGING_IS_PRESENT_def PAGING_ACCESS_BY_ALL_def)
  have kept: "phys m2 a = ram_of k a" if "page_base a \<in> kheap_used (kmem_of k)" for a
    using paging_new_4gb_frame [OF m1(2) m2(1), of a] kzalloc_outside [OF m1(1) req m1(4), of a] that m1(5,6) by auto
  have ent: "entry_of k (phys m2) p = Some ip" by (rule ip [OF kept])
  let ?t = "zero_task\<lparr>page_directory := c, regs := start_registers ip, task_process := process\<rparr>"
  let ?k = "put_task (set_kmem k m2) n ?t"
  have init: "task_init (set_kmem k m1) n process = Some (0, ?k)"
    using m2(1,3) p ent by (auto simp: task_init_def start_registers_def entry_of_def split: if_splits)
  have nts: "n \<notin> set ts" using l(2) m1(5) by auto
  have a: "task_list ?k ts"
    using l(1) nts by (auto simp: task_list_def intro: task_path_frame)
  have b: "task_store ?k n = Some ?t" "task_next ?t = 0" "task_prev ?t = 0" by (simp_all add: zero_task_def)
  obtain k' where k': "task_list_add ?k n = Some k'" "task_list k' (ts @ [n])"
    "current_task k' = (if ts = [] then n else current_task ?k)"
    "vfs k' = vfs ?k" "process_store k' = process_store ?k" "elf_files k' = elf_files ?k"
    "\<And>x. x \<notin> set ts \<Longrightarrow> x \<noteq> n \<Longrightarrow> task_store k' x = task_store ?k x"
    "\<exists>u. task_store k' n = Some u \<and> u\<lparr>task_prev := 0\<rparr> = ?t"
    by (rule task_list_add_ok [OF a nts m1(3) b], rule that)
  have g: "kernel_chunk k' = kernel_chunk ?k" "processes k' = processes ?k"
    using k'(1) by (auto simp: task_list_add_def put_task_def Let_def split: if_splits bind_splits)
  have km: "kmem_of k' = m2" unfolding k'(4) by simp
  show thesis
  proof (rule that [of n k' c])
    show "task_new k process = Some (n, k')"
      using m1(1,3) init k'(1) by (simp add: task_new_def kernel_zalloc_def)
    obtain u where u: "task_store k' n = Some u" "u\<lparr>task_prev := 0\<rparr> = ?t" using k'(8) by blast
    have "task_process (u\<lparr>task_prev := 0\<rparr>) = process" "page_directory (u\<lparr>task_prev := 0\<rparr>) = c"
      "regs (u\<lparr>task_prev := 0\<rparr>) = start_registers ip"
      unfolding u(2) by simp_all
    then show "fresh_task k' n process ip c"
      using u(1) m2(4-7) by (simp add: km fresh_task_def)
    show "task_store k' x = task_store k x" if "x \<in> kheap_used (kmem_of k)" "x \<notin> set ts" for x
    proof -
      have "x \<noteq> n" using that(1) m1(5) by auto
      then show ?thesis using k'(7) [OF that(2)] by simp
    qed
    show "kernel_chunk k' = kernel_chunk k" "processes k' = processes k" using g by (simp_all add: put_task_def)
    show "chunk_pages (ram_of k') c \<inter> kheap_used (kmem_of k) = {}" "n \<notin> chunk_pages (ram_of k') c"
      using m2(10) m1(6) by (auto simp: km)
  qed (use k' m1(3,5-7) m2(2,8,9) km kept in auto)
qed

end
