(* ===== verification/ExampleKernel.thy ===== *)
theory ExampleKernel
  imports Running ElfProofs TaskList
begin

text \<open>
  A kernel in the middle of its life, for the witnesses: its own address space, one task with an
  address space that maps every page to itself, and chosen contents of the memory outside the heap.
\<close>

lemma example_space:
  fixes kb :: "'d kernel" and mem :: ram and fl :: byte
  assumes fl: "bit fl 0" "bit fl 2"
  obtains k c a where "task_space k (current_task k) c" "0 < kheap_avail (kmem_of k)"
    "isr80h_commands k = [Some Isr80h_command0_sum, Some Isr80h_command1_print, Some Isr80h_command2_getkey,
       Some Isr80h_command3_putchar] @ replicate 1020 None"
    "interrupt_callbacks k = (replicate 512 None)[0x21 := Some Qwerty_keyboard_handle_interrupt]"
    "\<And>va. translate (ram_of k) (directory_entry (ram_of k) c) va = Some va"
    "\<And>x. unat x < 16777216 \<Longrightarrow> ram_of k x = mem x"
    "runs_process k a" "current_process k = a" "a \<noteq> 0" "process_store k a = Some empty_process" "console k = console kb"
    "fs_dev (lower (vfs k)) = fs_dev (lower (vfs kb))"
    "identity_mapped (ram_of k) (directory_entry (ram_of k) c) fl" "user_tables (ram_of k) (directory_entry (ram_of k) c)"
    "cr3 (mmu_regs k) = directory_entry (ram_of k) c" "a \<in> kheap_used (kmem_of k)"
proof -
  obtain kc k1 where k1: "paging_new_4gb (boot_kmem mem) 7 = Some (kc, k1)" "kheap_ok k1" "owns_chunk k1 kc"
    "kheap_avail k1 = 24574"
    using paging_new_4gb_ok [of "boot_kmem mem" 7] by auto
  obtain c k2 where k2: "kheap_ok k2" "c \<noteq> 0" "owns_chunk k2 c" "kheap_avail k2 = 23548"
    "identity_mapped (phys k2) (directory_entry (phys k2) c) fl" "present_tables (phys k2) (directory_entry (phys k2) c)"
    "user_tables (phys k2) (directory_entry (phys k2) c)"
    "kheap_used k2 = kheap_used k1 \<union> chunk_pages (phys k2) c" "chunk_pages (phys k2) c \<inter> kheap_used k1 = {}"
    using paging_new_4gb_ok [OF k1(2), of fl] k1(4) fl by auto
  obtain p k3 where k3: "kzalloc k2 4096 = Some (p, k3)" "kheap_ok k3" "p \<noteq> 0" "page_aligned p" "p \<notin> kheap_used k2"
    "kheap_used k3 = insert p (kheap_used k2)" "Suc (kheap_avail k3) = kheap_avail k2"
    using kpage.alloc_page [OF k2(1), of 4096] k2(4) by auto
  let ?r = "\<lambda>a. if page_base a \<in> kheap_used k3 then phys k3 a else mem a"
  let ?d = "directory_entry (phys k2) c"
  have wf: "wf_chunk (phys k2) c" and sub: "chunk_pages (phys k2) c \<subseteq> kheap_used k2" using k2(3) by (simp_all add: owns_chunk_def)
  have fr: "?r a = phys k2 a" if "page_base a \<in> chunk_pages (phys k2) c" for a
    using kzalloc_outside [OF k3(1) page_request_4096 k3(4), of a] that sub k3(5,6) by auto
  note f = chunk_frame [OF wf fr]
  have fe: "directory_entry ?r c = ?d" "wf_chunk ?r c" "chunk_pages ?r c = chunk_pages (phys k2) c" "present_tables ?r ?d"
    "translate ?r ?d = translate (phys k2) ?d"
    using f k2(6) by auto
  have tr: "translate (phys k2) ?d va = Some va" for va
  proof -
    have "paging_get_table_entry (phys k2) ?d (page_base va) = page_base va OR ucast fl"
      using k2(5) by (simp only: identity_mapped_def)
    moreover have "bit (page_base va OR ucast fl) 0" using fl by (simp add: bit_simps)
    moreover have "page_base (page_base va OR ucast fl) = page_base va"
      by (rule page_base_flags) simp
    ultimately show ?thesis unfolding translate_eq [OF k2(6)] by (simp only: Let_def if_True page_split)
  qed
  have im: "identity_mapped ?r ?d fl"
    using k2(5) f(6) [OF _ page_aligned_page_base] fe(1) by (simp add: identity_mapped_def)
  have ut: "user_tables ?r ?d" using k2(7) f(2) by (simp add: user_tables_def)
  let ?t = "zero_task\<lparr>page_directory := c, task_process := p\<rparr>"
  let ?k = "(set_kmem kb (k3\<lparr>phys := ?r\<rparr>))\<lparr>task_store := [p \<mapsto> ?t], current_task := p, kernel_chunk := kc,
    mmu_regs := (mmu_regs kb)\<lparr>cr3 := ?d\<rparr>,
    process_store := [p \<mapsto> empty_process], current_process := p,
    isr80h_commands := [Some Isr80h_command0_sum, Some Isr80h_command1_print, Some Isr80h_command2_getkey,
       Some Isr80h_command3_putchar] @ replicate 1020 None,
    interrupt_callbacks := (replicate 512 None)[0x21 := Some Qwerty_keyboard_handle_interrupt]\<rparr>"
  have kc: "kc \<in> kheap_used k1" using k1(3) by (auto simp: owns_chunk_def chunk_pages_def)
  have kr: "kmem_of ?k = k3\<lparr>phys := ?r\<rparr>" by (simp add: set_kmem_def)
  show thesis
  proof (rule that [of ?k c p])
    show "task_space ?k (current_task ?k) c"
      using k3(2,6) fe k2(8,9) kc sub by (auto simp: task_space_def kr owns_chunk_def)
    show "ram_of ?k x = mem x" if x: "unat x < 16777216" for x
    proof -
      have "unat (page_base x) < 16777216" using x unat_page_base [of x] by simp
      then have "page_base x \<notin> kheap_used k3" using kheap_used_range(3) [OF k3(2), of "page_base x"] by auto
      then show ?thesis by (simp add: kr)
    qed
  qed (use k3 k2(4) tr fe im ut in \<open>simp_all add: kr runs_process_def set_kmem_def\<close>)
qed

lemma example_kernel:
  fixes kb :: "'d kernel" and mem :: ram
  obtains k c a where "task_space k (current_task k) c" "0 < kheap_avail (kmem_of k)"
    "isr80h_commands k = [Some Isr80h_command0_sum, Some Isr80h_command1_print, Some Isr80h_command2_getkey,
       Some Isr80h_command3_putchar] @ replicate 1020 None"
    "interrupt_callbacks k = (replicate 512 None)[0x21 := Some Qwerty_keyboard_handle_interrupt]"
    "\<And>va. translate (ram_of k) (directory_entry (ram_of k) c) va = Some va"
    "\<And>x. unat x < 16777216 \<Longrightarrow> ram_of k x = mem x"
    "runs_process k a" "current_process k = a" "a \<noteq> 0" "process_store k a = Some empty_process" "console k = console kb"
    "fs_dev (lower (vfs k)) = fs_dev (lower (vfs kb))"
  by (rule example_space [of 7 mem kb]) (simp, simp, rule that)

text \<open>Memory below 16 MiB is no part of the heap.\<close>

lemma low_not_heap:
  assumes "task_space k task c" "unat x < 16777216"
  shows "page_base x \<notin> free_pages (kmem_of k) \<union> chunk_pages (ram_of k) c"
proof -
  have low: "unat (page_base x) < 16777216" using assms(2) unat_page_base [of x] by simp
  then have "page_base x \<notin> kheap_used (kmem_of k)"
    using assms(1) kheap_used_range(3) [of "kmem_of k" "page_base x"] by (auto simp: task_space_def)
  moreover have "page_base x \<notin> heap_blk ` {..<25600}" using low by (auto simp: unat_heap_blk)
  ultimately show ?thesis using assms(1) by (auto simp: task_space_def owns_chunk_def free_pages_def)
qed

lemma example_string:
  assumes k: "task_space k task c" "\<And>va. translate (ram_of k) (directory_entry (ram_of k) c) va = Some va"
    and s: "0 \<notin> set s" "unat va + length s < 16777216"
    "\<And>i. i \<le> length s \<Longrightarrow> ram_of k (va + of_nat i) = (s @ [0]) ! i"
  shows "task_string k c va s"
proof -
  have "unat (va + of_nat i) < 16777216" if "i \<le> length s" for i
    using that s(2) by (simp add: unat_word_ariths(1) unat_of_nat)
  then show ?thesis using k(2) s(1,3) low_not_heap [OF k(1)] by (auto simp: task_string_def user_string_def)
qed

definition example_frame :: interrupt_frame where
  "example_frame = \<lparr>f_edi = 0, f_esi = 0, f_ebp = 0, f_reserved = 0, f_ebx = 0, f_edx = 0, f_ecx = 0, f_eax = 1,
     f_ip = 0x400010, f_cs = 0x1B, f_flags = 0x202, f_esp = 0x3FE000, f_ss = 0x23\<rparr>"

section \<open>A program\<close>

text \<open>An image at 0x200000 with two segments, the second one below the first.\<close>

definition example_image :: ram where
  "example_image a = (case map_of [(0x200000, 0x7F), (0x200001, 69), (0x200002, 76), (0x200003, 70), (0x20001C, 52),
     (0x20002C, 2), (0x200034, 1), (0x200039, 0x10), (0x20003D, 0x10), (0x20003E, 0x40), (0x200044, 0x20), (0x20004C, 5),
     (0x200054, 1), (0x200059, 0x20), (0x20005E, 0x40), (0x200065, 1), (0x20006C, 6)] a of None \<Rightarrow> 0 | Some b \<Rightarrow> b)"

definition example_text :: elf32_phdr where
  "example_text = \<lparr>p_type = 1, p_offset = 0x1000, p_vaddr = 0x401000, p_paddr = 0, p_filesz = 0x20, p_memsz = 0,
     p_flags = 5, p_align = 0\<rparr>"

definition example_data :: elf32_phdr where
  "example_data = \<lparr>p_type = 1, p_offset = 0x2000, p_vaddr = 0x400000, p_paddr = 0, p_filesz = 0x100, p_memsz = 0,
     p_flags = 6, p_align = 0\<rparr>"

lemma header_fields: "e_phnum (elf_header_at m a) = load16 m (a + 44)" "e_phoff (elf_header_at m a) = load32 m (a + 28)"
  by (simp_all add: elf_header_at_def)

lemma example_headers_in:
  assumes m: "\<And>x. unat x < 16777216 \<Longrightarrow> m x = example_image x"
  shows "program_headers m (empty_elf_file\<lparr>ef_memory := 0x200000\<rparr>) = [example_text, example_data]"
    "elf_pheader m (elf_header (empty_elf_file\<lparr>ef_memory := 0x200000\<rparr>)) = 0x200034"
proof -
  have h: "e_phnum (elf_header_at m 0x200000) = 2" "e_phoff (elf_header_at m 0x200000) = 52"
    by (simp_all add: header_fields load16_def load32_def m) (simp_all add: example_image_def)
  have hd: "elf32_phdr_at m x = elf32_phdr_at example_image x" if "unat x < 16000000" for x
  proof (rule elf32_phdr_at_cong)
    fix y assume y: "unat (y - x) < 32"
    define w where "w = y - x"
    have "unat (x + w) < 16777216" using that y by (simp add: unat_word_ariths(1) flip: w_def)
    then show "m y = example_image y" using m by (simp add: w_def)
  qed
  have p: "elf32_phdr_at example_image 0x200034 = example_text" "elf32_phdr_at example_image 0x200054 = example_data"
    by (simp_all add: elf32_phdr_at_def load32_def example_image_def example_text_def example_data_def)
  have "[0..<2] = [0, Suc 0]" by (simp add: numeral_2_eq_2)
  then show "program_headers m (empty_elf_file\<lparr>ef_memory := 0x200000\<rparr>) = [example_text, example_data]"
    "elf_pheader m (elf_header (empty_elf_file\<lparr>ef_memory := 0x200000\<rparr>)) = 0x200034"
    using h p by (simp_all add: program_headers_def elf_program_header_def elf_pheader_def elf_header_def hd)
qed

lemmas example_headers = example_headers_in [OF refl]

lemma example_segments:
  "load_segments example_image (empty_elf_file\<lparr>ef_memory := 0x200000\<rparr>) = [example_text, example_data]"
  by (simp add: load_segments_def example_headers) (simp add: example_text_def example_data_def)

lemma example_header:
  "elf_valid_signature (elf_header_at example_image 0x200000)" "elf_valid_class (elf_header_at example_image 0x200000)"
  "elf_valid_encoding (elf_header_at example_image 0x200000)" "elf_has_program_header (elf_header_at example_image 0x200000)"
  by code_simp+

lemma example_elf_process:
  obtains k :: "'d kernel" and c a where "elf_process k a (empty_elf_file\<lparr>ef_memory := 0x200000\<rparr>) c"
    "program_headers (ram_of k) (empty_elf_file\<lparr>ef_memory := 0x200000\<rparr>) = [example_text, example_data]"
proof -
  let ?f = "empty_elf_file\<lparr>ef_memory := 0x200000\<rparr>"
  obtain k0 :: "'d kernel" and c a where k0: "task_space k0 (current_task k0) c"
    "\<And>x. unat x < 16777216 \<Longrightarrow> ram_of k0 x = example_image x"
    "process_store k0 a = Some empty_process"
    using example_kernel [of example_image] by metis
  let ?k = "k0\<lparr>elf_files := [0x1000 \<mapsto> ?f], process_store := [a \<mapsto> empty_process\<lparr>proc_ptr := 0x1000, proc_task := current_task k0\<rparr>]\<rparr>"
  note ph = example_headers_in [OF k0(2)]
  have low: "page_base x \<notin> chunk_pages (ram_of k0) c" if x: "unat (x - 0x200034) < 64" for x
  proof -
    define w where "w = x - 0x200034"
    have "unat (0x200034 + w) < 16777216" using x by (simp add: unat_word_ariths(1) flip: w_def)
    then show ?thesis using low_not_heap [OF k0(1), of x] by (simp add: w_def)
  qed
  have "elf_process ?k a ?f c"
    using k0(1) low by (auto simp: elf_process_def ph seg_fits_def example_text_def example_data_def task_space_def owns_chunk_def)
  then show thesis using that [of ?k a c] ph by simp
qed

section \<open>Two tasks\<close>

lemma example_two_tasks:
  obtains k k' :: "'d kernel" and a b where "task_list k [a, b]" "task_free k b = Some (0, k')"
proof -
  obtain c m1 where m1: "kheap_ok m1" "owns_chunk m1 c" "kheap_avail m1 = 24574"
    using paging_new_4gb_ok [of "boot_kmem (\<lambda>_. 0)" 5] by auto
  obtain a m2 where m2: "kzalloc m1 4096 = Some (a, m2)" "kheap_ok m2" "a \<noteq> 0" "page_aligned a" "a \<notin> kheap_used m1"
    "kheap_used m2 = insert a (kheap_used m1)" "Suc (kheap_avail m2) = kheap_avail m1"
    using kpage.alloc_page [OF m1(1), of 4096] m1(3) by auto
  obtain b m3 where m3: "kzalloc m2 4096 = Some (b, m3)" "kheap_ok m3" "b \<noteq> 0" "page_aligned b" "b \<notin> kheap_used m2"
    "kheap_used m3 = insert b (kheap_used m2)" "Suc (kheap_avail m3) = kheap_avail m2"
    using kpage.alloc_page [OF m2(2), of 4096] m1(3) m2(7) by auto
  have o2: "owns_chunk m2 c" by (rule owns_chunk_kzalloc [OF m1(2) m2(1) _ m2(4-6)]) simp
  have o3: "owns_chunk m3 c" by (rule owns_chunk_kzalloc [OF o2 m3(1) _ m3(4-6)]) simp
  have "b \<notin> chunk_pages (phys m3) c"
  proof -
    have sub: "chunk_pages (phys m2) c \<subseteq> kheap_used m2" and wf: "wf_chunk (phys m2) c" using o2 by (simp_all add: owns_chunk_def)
    have fr: "phys m3 x = phys m2 x" if "page_base x \<in> chunk_pages (phys m2) c" for x
      using kzalloc_outside [OF m3(1) page_request_4096 m3(4), of x] that sub m3(5) by auto
    show ?thesis using chunk_frame(4) [OF wf fr] sub m3(5) by auto
  qed
  moreover obtain m4 where m4: "paging_free_4gb m3 c = Some m4" "kheap_ok m4" "kheap_used m4 = kheap_used m3 - chunk_pages (phys m3) c"
    using paging_free_4gb_ok [OF o3 m3(2)] by blast
  ultimately have b: "b \<in> kheap_used m4" using m3(6) by simp
  have ab: "a \<noteq> b" using m3(5) m2(6) by auto
  let ?tb = "zero_task\<lparr>page_directory := c, task_prev := a\<rparr>" and ?ta = "zero_task\<lparr>task_next := b\<rparr>"
  let ?k = "(set_kmem undefined m3)\<lparr>task_head := a, task_tail := b, current_task := a, task_store := [a \<mapsto> ?ta, b \<mapsto> ?tb]\<rparr> :: 'd kernel"
  let ?k1 = "put_task (set_kmem ?k m4) a (?ta\<lparr>task_next := 0\<rparr>)"
  have km: "kmem_of ?k = m3" by (simp add: set_kmem_def)
  have "kheap_ok (kmem_of ?k1)" "b \<in> kheap_used (kmem_of ?k1)" using m4(2) b by simp_all
  from kernel_free_ok [OF this] obtain k' where k': "kernel_free ?k1 b = Some k'" by blast
  have tf: "task_free ?k b = Some (0, k')"
    using m4(1) ab m2(3) m3(3) k' by (simp add: task_free_def km task_list_remove_def zero_task_def)
  have "task_list ?k [a, b]" using ab m2(3) m3(3) by (simp add: task_list_def zero_task_def)
  from that [OF this tf] show thesis .
qed

section \<open>A running program\<close>

text \<open>
  As \<^verbatim>\<open>task_init\<close> does it, every page is readable to the task and mapped to itself; the page at
  0x400000 is writable too.
\<close>

lemma example_running:
  fixes kb :: "'d kernel" and mem :: ram
  obtains k :: "'d kernel" and c where "running k c" "alive k c" "isr80h_commands k ! 1 = Some Isr80h_command1_print"
    "user_target (ram_of k) (directory_entry (ram_of k) c) 0x400123 = Some 0x400123"
    "\<And>va. translate (ram_of k) (directory_entry (ram_of k) c) va = Some va"
    "\<And>x. unat x < 16777216 \<Longrightarrow> ram_of k x = mem x"
proof -
  obtain k :: "'d kernel" and c a where sp: "task_space k (current_task k) c" and av: "0 < kheap_avail (kmem_of k)"
    and cmd: "isr80h_commands k = [Some Isr80h_command0_sum, Some Isr80h_command1_print, Some Isr80h_command2_getkey,
       Some Isr80h_command3_putchar] @ replicate 1020 None"
    and mem: "\<And>x. unat x < 16777216 \<Longrightarrow> ram_of k x = mem x"
    and run: "runs_process k a" "process_store k a = Some empty_process" and cur: "current_process k = a"
    and im: "identity_mapped (ram_of k) (directory_entry (ram_of k) c) 5" "user_tables (ram_of k) (directory_entry (ram_of k) c)"
    and cr3: "cr3 (mmu_regs k) = directory_entry (ram_of k) c" and used: "a \<in> kheap_used (kmem_of k)"
    by (rule example_space [of 5 mem kb]) (simp, simp, rule that)
  let ?m = "ram_of k" and ?d = "directory_entry (ram_of k) c" and ?p = "0x400000 :: addr"
  have wf: "wf_chunk ?m c" and own: "owns_chunk (kmem_of k) c" and pres: "present_tables ?m ?d" using sp by (simp_all add: task_space_def owns_chunk_def)
  have al: "page_aligned ?p" by (simp add: page_aligned_def)
  obtain m' where m': "wf_chunk m' c" "directory_entry m' c = ?d" "tables_only ?m c m'"
    and look: "\<And>wa. page_aligned wa \<Longrightarrow> lookup_page m' c wa = (if wa = ?p then ?p OR 7 else lookup_page ?m c wa)"
    by (rule paging_map_ok [OF wf al al, of 7]) blast
  note pg = tables_only_pages [OF m'(3)]
  have t': "present_tables m' ?d" "user_tables m' ?d"
    using tables_only_present [OF m'(3)] tables_only_user [OF m'(3)] m'(2) pres im(2) by simp_all
  have e: "paging_get_table_entry m' ?d (page_base va) = page_base va OR (if page_base va = ?p then 7 else 5)" for va
    using look [of "page_base va"] im(1) m'(2) by (auto simp: identity_mapped_def)
  have fl: "page_base (page_base va OR f) = page_base va" if "f = 5 \<or> f = 7" for va and f :: u32
    using that page_base_flags [of "page_base va" "5 :: byte"] page_base_flags [of "page_base va" "7 :: byte"] by auto
  have tr: "translate m' ?d va = Some va" for va
    by (auto simp: translate_eq [OF t'(1)] e Let_def fl page_split bit_or_iff)
  have ut: "user_target m' ?d va = (if page_base va = ?p then Some va else None)" for va
  proof -
    have d: "bit (table_entry m' ?d (dir_index va)) 0" "bit (table_entry m' ?d (dir_index va)) 1" "bit (table_entry m' ?d (dir_index va)) 2"
      using t' by (simp_all add: present_tables_def user_tables_def)
    have "table_entry m' (table_addr m' ?d (dir_index va)) (tab_index va) = page_base va OR (if page_base va = ?p then 7 else 5)"
      using e [of va] by (simp add: paging_get_table_entry_eq)
    moreover have "page_base 4194311 = (4194304 :: u32)" by (simp add: page_base_def)
    ultimately show ?thesis
      using d fl [of 5 va] fl [of 7 va] page_split [of va] page_base_bit [of 1 va]
      by (auto simp: user_target_def page_base_def [symmetric] Let_def bit_or_iff)
  qed
  let ?k = "set_ram k m'"
  have up: "user_pages m' ?d \<subseteq> {?p}" by (auto simp: user_pages_def ut split: if_splits)
  have sp': "task_space ?k (current_task ?k) c"
    using sp m'(1,2) t'(1) pg(1) by (simp add: task_space_def owns_chunk_def)
  have low: "?p \<notin> free_pages (kmem_of k) \<union> chunk_pages ?m c"
    using low_not_heap [OF sp, of ?p] by (simp add: page_base_aligned [OF al])
  have "running ?k c"
    using sp' up low m'(2) cr3 pg(1) by (auto simp: running_def free_pages_def)
  moreover have "alive ?k c"
    using used av tr m'(2) run by (auto simp: alive_def all_present_def runs_process_def)
  moreover have "m' x = mem x" if "unat x < 16777216" for x
    using low_not_heap [OF sp that] pg(2) mem [OF that] by simp
  ultimately show thesis
    using that [of ?k c] cmd tr ut m'(2) by (simp add: page_base_def)
qed

end
