(* ===== verification/Kernel.thy ===== *)
theory Kernel
  imports Syscalls
begin

text \<open>
  \<^verbatim>\<open>kernel_main\<close> of \<^verbatim>\<open>src/kernel.c\<close>: the order in which the parts are brought up.
\<close>

text \<open>The addresses the linker gives to objects whose address the kernel stores.\<close>

record link_map =
  tss_address :: addr
  idt_address :: addr
  interrupt_pointer_table :: "nat \<Rightarrow> addr"
  idt_zero_address :: addr
  isr80h_wrapper_address :: addr

definition zero_tss :: tss where
  "zero_tss = \<lparr>tss_link = 0, tss_esp0 = 0, tss_ss0 = 0, tss_esp1 = 0, tss_esp2 = 0, tss_ss2 = 0, tss_sr3 = 0,
     tss_eip = 0, tss_eflags = 0, tss_eax = 0, tss_ecx = 0, tss_edx = 0, tss_ebx = 0, tss_esp = 0, tss_ebp = 0,
     tss_esi = 0, tss_edi = 0, tss_es = 0, tss_cs = 0, tss_ss = 0, tss_ds = 0, tss_fs = 0, tss_gs = 0,
     tss_ldtr = 0, tss_iopb = 0\<rparr>"

definition enable_paging :: "'d kernel \<Rightarrow> 'd kernel" where
  "enable_paging k = k\<lparr>paging_enabled := True\<rparr>"

text \<open>The terminal, the descriptor table, the heap and the file system.\<close>

definition kernel_init_memory :: "'d vtable \<Rightarrow> link_map \<Rightarrow> 'd kernel \<Rightarrow> 'd kernel option" where
  "kernel_init_memory vt addrs k = do {
     let k = k\<lparr>console := terminal_initialize (console k)\<rparr>;
     k \<leftarrow> kernel_print k (c_string (''Hello, World!'' @ [CHR 0x0A] @ ''Welcome to RasOS!'' @ [CHR 0x0A]));
     gdt \<leftarrow> (case gdt_structured_to_gdt (kernel_gdt (tss_address addrs)) of Inl _ \<Rightarrow> None | Inr gdt \<Rightarrow> Some gdt);
     let k = k\<lparr>gdt_real := gdt\<rparr>;
     let (msg, m) = kheap_init (kmem_of k);
     k \<leftarrow> (if msg = [] then Some k else kernel_print k (c_string msg));
     let k = set_kmem k m;
     v \<leftarrow> fs_init (vfs k);
     v \<leftarrow> disk_search_and_init vt v;
     Some (k\<lparr>vfs := v\<rparr>)
   }"

text \<open>Interrupts, the task state segment, the kernel's pages, the system calls and the keyboard.\<close>

definition kernel_init_devices :: "'d ports \<Rightarrow> link_map \<Rightarrow> 'd kernel \<Rightarrow> 'd kernel option" where
  "kernel_init_devices io addrs k = do {
     k \<leftarrow> idt_init (idt_address addrs) (interrupt_pointer_table addrs) (idt_zero_address addrs)
       (isr80h_wrapper_address addrs) k;
     let k = k\<lparr>tss_segment := zero_tss\<lparr>tss_esp0 := 0x600000, tss_ss0 := KERNEL_DATA_SELECTOR\<rparr>\<rparr>;
     (chunk, m) \<leftarrow> paging_new_4gb (kmem_of k) (PAGING_IS_WRITABLE OR PAGING_IS_PRESENT OR PAGING_ACCESS_BY_ALL);
     k \<leftarrow> kernel_paging_switch ((set_kmem k m)\<lparr>kernel_chunk := chunk\<rparr>) chunk;
     k \<leftarrow> isr80h_register_commands (enable_paging k);
     Some (keyboard_init io k)
   }"

text \<open>A failure to load the first program panics, so what is returned is the departure to user mode.\<close>

definition kernel_main :: "'d ports \<Rightarrow> link_map \<Rightarrow> 'd kernel \<Rightarrow> (registers \<times> 'd kernel) option" where
  "kernel_main io addrs k = do {
     k \<leftarrow> kernel_init_memory (fat16_vtable io) addrs k;
     k \<leftarrow> kernel_init_devices io addrs k;
     (res, _, k) \<leftarrow> process_load_switch (fat16_vtable io) k (c_string ''0:/blank.elf'');
     if res \<noteq> OK then None else task_run_first_ever_task k
   }"

end
