(* ===== verification/Boot.thy ===== *)
theory Boot
  imports Kernel Calls
begin

text \<open>
  Bringing the kernel up: the gates of the interrupt table, and the state in which
  \<^verbatim>\<open>kernel_main\<close> leaves the devices before it loads the first program.
\<close>

section \<open>Gates\<close>

definition gate_of :: "addr \<Rightarrow> idt_desc" where
  "gate_of address = \<lparr>offset_1 = ucast (address AND 0x0000FFFF), selector = KERNEL_CODE_SELECTOR, desc_zero = 0,
     type_attributes = 0xEE, offset_2 = ucast (drop_bit 16 address)\<rparr>"

text \<open>Where the processor goes through a gate.\<close>

definition gate_target :: "idt_desc \<Rightarrow> addr" where
  "gate_target g = push_bit 16 (ucast (offset_2 g)) OR ucast (offset_1 g)"

lemma gate_target_of [simp]: "gate_target (gate_of a) = a"
proof -
  have m: "(0x0000FFFF :: u32) = mask 16" by (simp add: mask_eq_exp_minus_1)
  show ?thesis unfolding gate_target_def gate_of_def idt_desc.simps m
    by (rule bit_word_eqI) (auto simp: bit_simps)
qed

lemma idt_set_ok:
  "i < length (idt_descriptors k) \<Longrightarrow>
     idt_set k (int i) a = Some (k\<lparr>idt_descriptors := (idt_descriptors k)[i := gate_of a]\<rparr>)"
  by (simp add: idt_set_def gate_of_def)

lemma idt_set_loop_ok:
  assumes "length (idt_descriptors k) = 512" "n \<le> 512"
  shows "idt_set_loop k t n = Some (k\<lparr>idt_descriptors := map (\<lambda>i. gate_of (t i)) [0..<n] @ drop n (idt_descriptors k)\<rparr>)"
  using assms(2)
proof (induction n)
  case 0
  then show ?case by simp
next
  case (Suc n)
  let ?ds = "map (\<lambda>i. gate_of (t i)) [0..<n] @ drop n (idt_descriptors k)"
  have "?ds[n := gate_of (t n)] = map (\<lambda>i. gate_of (t i)) [0..<Suc n] @ drop (Suc n) (idt_descriptors k)"
    using Suc.prems assms(1) Cons_nth_drop_Suc [of n "idt_descriptors k"] by (simp add: list_update_append)
      (metis list_update_code(2))
  then show ?case
    using Suc assms(1) idt_set_ok [of n "k\<lparr>idt_descriptors := ?ds\<rparr>" "t n"] by simp
qed

lemma idt_init_ok:
  obtains ds where "idt_init base t z w k = Some (k\<lparr>idtr_descriptor := \<lparr>idtr_limit = 4095, idtr_base = base\<rparr>,
      idt_descriptors := ds\<rparr>)" "length ds = 512"
    "\<And>i. i < 512 \<Longrightarrow> gate_target (ds ! i) = (if i = 0 then z else if i = 0x80 then w else t i)"
proof -
  define k1 where "k1 = k\<lparr>idtr_descriptor := \<lparr>idtr_limit = 4095, idtr_base = base\<rparr>\<rparr>"
  define ds where "ds = map (\<lambda>i. gate_of (t i)) [0..<512]"
  have len: "length ds = 512" by (simp add: ds_def del: upt_conv_Cons)
  have k1: "k\<lparr>idt_descriptors := x, idtr_descriptor := \<lparr>idtr_limit = 4095, idtr_base = base\<rparr>\<rparr> = k1\<lparr>idt_descriptors := x\<rparr>" for x
    by (simp add: k1_def)
  have "idt_set_loop (k1\<lparr>idt_descriptors := replicate 512 zero_idt_desc\<rparr>) t 512 = Some (k1\<lparr>idt_descriptors := ds\<rparr>)"
    by (subst idt_set_loop_ok) (simp_all add: ds_def del: upt_conv_Cons upt_Suc)
  moreover have "idt_set (k1\<lparr>idt_descriptors := ds\<rparr>) 0 z = Some (k1\<lparr>idt_descriptors := ds[0 := gate_of z]\<rparr>)"
    using idt_set_ok [of 0 "k1\<lparr>idt_descriptors := ds\<rparr>" z] len by simp
  moreover have "idt_set (k1\<lparr>idt_descriptors := ds[0 := gate_of z]\<rparr>) 128 w =
      Some (k1\<lparr>idt_descriptors := ds[0 := gate_of z, 0x80 := gate_of w]\<rparr>)"
    using idt_set_ok [of 128 "k1\<lparr>idt_descriptors := ds[0 := gate_of z]\<rparr>" w] len by simp
  ultimately have run: "idt_init base t z w k = Some (k1\<lparr>idt_descriptors := ds[0 := gate_of z, 0x80 := gate_of w]\<rparr>)"
    by (simp add: idt_init_def k1)
  have "gate_target (ds ! i) = t i" if "i < 512" for i using that by (simp add: ds_def del: upt_conv_Cons upt_Suc)
  then show thesis
    by (intro that [OF run [unfolded k1_def]]) (simp_all add: nth_list_update len)
qed

section \<open>The system calls and the keyboard\<close>

lemma register_commands_ok:
  assumes "isr80h_commands k = replicate 1024 None"
  shows "isr80h_register_commands k = Some (k\<lparr>isr80h_commands := [Some Isr80h_command0_sum, Some Isr80h_command1_print,
     Some Isr80h_command2_getkey, Some Isr80h_command3_putchar] @ replicate 1020 None\<rparr>)"
proof -
  have r: "replicate 1024 x = x # x # x # x # replicate 1020 x" for x :: "isr80h_command option"
    by (simp flip: replicate_Suc)
  show ?thesis
    by (simp add: isr80h_register_commands_def isr80h_register_command_def assms r SYSTEM_COMMAND0_SUM_def
        SYSTEM_COMMAND1_PRINT_def SYSTEM_COMMAND2_GETKEY_def SYSTEM_COMMAND3_PUTCHAR_def)
qed

text \<open>Every gate leads where the linker put its stub, every system call and the keyboard have their handler.\<close>

definition handlers_up :: "link_map \<Rightarrow> 'd kernel \<Rightarrow> bool" where
  "handlers_up addrs k \<longleftrightarrow> length (idt_descriptors k) = 512 \<and> (\<forall>i<512. gate_target (idt_descriptors k ! i) =
          (if i = 0 then idt_zero_address addrs else if i = 0x80 then isr80h_wrapper_address addrs
           else interrupt_pointer_table addrs i))
     \<and> isr80h_commands k = [Some Isr80h_command0_sum, Some Isr80h_command1_print, Some Isr80h_command2_getkey,
          Some Isr80h_command3_putchar] @ replicate 1020 None
     \<and> interrupt_callbacks k = (replicate 512 None)[0x21 := Some Qwerty_keyboard_handle_interrupt]"

text \<open>What \<^verbatim>\<open>kernel_init_devices\<close> leaves: pages, gates, system calls and the keyboard.\<close>

definition devices_up :: "link_map \<Rightarrow> 'd kernel \<Rightarrow> bool" where
  "devices_up addrs k \<longleftrightarrow> kheap_ok (kmem_of k) \<and> owns_chunk (kmem_of k) (kernel_chunk k) \<and> paging_enabled k
     \<and> cr3 (mmu_regs k) = directory_entry (ram_of k) (kernel_chunk k)
     \<and> (\<forall>va. translate (ram_of k) (cr3 (mmu_regs k)) va = Some va) \<and> handlers_up addrs k"

lemma identity_translate:
  assumes "identity_mapped m d fl" "present_tables m d" "bit fl 0"
  shows "translate m d va = Some va"
proof -
  have e: "paging_get_table_entry m d (page_base va) = page_base va OR ucast fl" using assms(1) by (simp only: identity_mapped_def)
  have "bit (page_base va OR ucast fl) 0" using assms(3) by (simp add: bit_simps)
  moreover have "page_base (page_base va OR ucast fl) = page_base va" by (rule page_base_flags) simp
  ultimately show ?thesis unfolding translate_eq [OF assms(2)] e by (simp only: Let_def if_True page_split)
qed

lemma kernel_init_devices_ok:
  assumes "kheap_ok (kmem_of k)" "1026 \<le> kheap_avail (kmem_of k)"
    "isr80h_commands k = replicate 1024 None" "interrupt_callbacks k = replicate 512 None"
  obtains k' where "kernel_init_devices io addrs k = Some k'" "devices_up addrs k'"
    "kheap_avail (kmem_of k') + 1026 = kheap_avail (kmem_of k)" "kheap_used (kmem_of k) \<subseteq> kheap_used (kmem_of k')"
    "console k' = console k" "task_head k' = task_head k" "processes k' = processes k"
    "\<exists>d m. vfs k' = (vfs k)\<lparr>lower := (lower (vfs k))\<lparr>fs_kmem := m, fs_dev := d\<rparr>\<rparr>"
    "\<And>a n. free_blocks (kmem_of k) a (1026 + n) \<Longrightarrow> free_blocks (kmem_of k') (a + 1026) n"
proof -
  obtain ds where ds: "idt_init (idt_address addrs) (interrupt_pointer_table addrs) (idt_zero_address addrs)
      (isr80h_wrapper_address addrs) k = Some (k\<lparr>idtr_descriptor := \<lparr>idtr_limit = 4095, idtr_base = idt_address addrs\<rparr>,
      idt_descriptors := ds\<rparr>)" "length ds = 512"
    "\<And>i. i < 512 \<Longrightarrow> gate_target (ds ! i) = (if i = 0 then idt_zero_address addrs else if i = 0x80 then isr80h_wrapper_address addrs
       else interrupt_pointer_table addrs i)"
    by (rule idt_init_ok) (rule that)
  have fl: "PAGING_IS_WRITABLE OR PAGING_IS_PRESENT OR PAGING_ACCESS_BY_ALL = (7 :: byte)" by code_simp
  obtain c m where m: "paging_new_4gb (kmem_of k) 7 = Some (c, m)" "kheap_ok m" "c \<noteq> 0" "owns_chunk m c"
    "identity_mapped (phys m) (directory_entry (phys m) c) 7" "present_tables (phys m) (directory_entry (phys m) c)"
    "kheap_avail m + 1026 = kheap_avail (kmem_of k)" "kheap_used (kmem_of k) \<subseteq> kheap_used m"
    using paging_new_4gb_ok [OF assms(1,2), of 7] by auto
  let ?k1 = "k\<lparr>idtr_descriptor := \<lparr>idtr_limit = 4095, idtr_base = idt_address addrs\<rparr>, idt_descriptors := ds,
      tss_segment := zero_tss\<lparr>tss_esp0 := 0x600000, tss_ss0 := KERNEL_DATA_SELECTOR\<rparr>\<rparr>"
  let ?k2 = "enable_paging (with_pages ((set_kmem ?k1 m)\<lparr>kernel_chunk := c\<rparr>) (data_segment k) c)"
  let ?cmds = "[Some Isr80h_command0_sum, Some Isr80h_command1_print, Some Isr80h_command2_getkey,
      Some Isr80h_command3_putchar] @ replicate 1020 None"
  let ?k' = "keyboard_init io (?k2\<lparr>isr80h_commands := ?cmds\<rparr>)"
  have "kernel_paging_switch ((set_kmem ?k1 m)\<lparr>kernel_chunk := c\<rparr>) c = Some (with_pages ((set_kmem ?k1 m)\<lparr>kernel_chunk := c\<rparr>) (data_segment k) c)"
    using m(3) by (simp add: kernel_paging_switch_def with_pages_def set_kmem_def)
  moreover have "isr80h_register_commands ?k2 = Some (?k2\<lparr>isr80h_commands := ?cmds\<rparr>)"
    by (rule register_commands_ok) (simp add: assms(3) enable_paging_def with_pages_def set_kmem_def)
  ultimately have run: "kernel_init_devices io addrs k = Some ?k'"
    using ds(1) m(1) by (simp add: kernel_init_devices_def fl set_kmem_def)
  have tr: "translate (phys m) (directory_entry (phys m) c) va = Some va" for va
    by (rule identity_translate [OF m(5,6)]) simp
  note kb = keyboard_init_def keyboard_insert_def qwerty_init_def qwerty_keyboard_init_def idt_register_interrupt_callback_def
    ISR_KEYBOARD_INTERRUPT_def set_dev_def set_kmem_def enable_paging_def with_pages_def paging_switch_def
  show thesis
  proof (rule that [OF run])
    show "\<exists>d m. vfs ?k' = (vfs k)\<lparr>lower := (lower (vfs k))\<lparr>fs_kmem := m, fs_dev := d\<rparr>\<rparr>" by (auto simp: kb)
    show "free_blocks (kmem_of ?k') (a + 1026) n" if "free_blocks (kmem_of k) a (1026 + n)" for a n
      using paging_new_4gb_rest [OF assms(1) m(1) that] by (simp add: kb)
    show "devices_up addrs ?k'"
      unfolding devices_up_def handlers_up_def using m tr ds(2,3) assms(4) by (simp add: kb)
  qed (use m in \<open>simp_all add: kb\<close>)
qed

section \<open>The terminal, the heap and the disk\<close>

lemma mounted_cong:
  assumes "mounted io img pend priv st"
  shows "mounted io img pend priv (st\<lparr>fs_kmem := m\<rparr>)" "mounted io img pend priv (st\<lparr>fs_dev := d\<rparr>)"
  using assms by (simp_all add: mounted_def private_of_def open_stream_def)

lemma c_string_print: "0 \<notin> of_char ` set s \<Longrightarrow> \<exists>t'. terminal_print t (c_string s) = Some t'"
  by (simp add: terminal_print_def c_string_def strlen_eq)

lemma kheap_init_boot: "kheap_init m = ('''', boot_kmem (phys m))"
  by (cases m) (simp add: boot_kmem_def kheap_init_eq)

text \<open>A disk that holds a FAT16 volume: its boot sector, and a root directory that ends.\<close>

definition fat16_volume :: "(nat \<Rightarrow> u16 list) \<Rightarrow> nat \<Rightarrow> bool" where
  "fat16_volume img n \<longleftrightarrow> signature (extended_header (boot_header img)) = 0x29
     \<and> 0 < unat (root_dir_entries (primary_header (boot_header img)))
     \<and> unat (root_dir_entries (primary_header (boot_header img))) \<le> 128
     \<and> dir_end img (512 * root_sector (primary_header (boot_header img))) n
     \<and> 512 * root_sector (primary_header (boot_header img)) + 32 * (n + 1) < 2 ^ 31
     \<and> 512 * root_sector (primary_header (boot_header img)) + 4096 < 2 ^ 31"

lemma kernel_init_memory_ok:
  assumes io: "drive_serves io img pend" and vol: "fat16_volume img n"
  obtains k' priv p where "kernel_init_memory (fat16_vtable io) addrs k = Some k'" "mounted io img pend priv (lower (vfs k'))"
    "disk_filesystem (the_disk (lower (vfs k'))) = Some Fat16_fs" "header priv = boot_header img"
    "root_directory priv = root_of img (primary_header (boot_header img)) n p" "p \<in> kheap_used (kmem_of k')"
    "item_arrays (lower (vfs k')) p = Some (img_bytes img (512 * root_sector (primary_header (boot_header img)))
       (root_size (primary_header (boot_header img))))"
    "vfs_ok (vfs k')" "file_descriptors (vfs k') = replicate 512 0" "kheap_avail (kmem_of k') = 25595"
    "isr80h_commands k' = isr80h_commands k" "interrupt_callbacks k' = interrupt_callbacks k"
    "task_head k' = task_head k" "processes k' = processes k"
proof -
  let ?ph = "primary_header (boot_header img)"
  have "(0 :: byte) \<notin> of_char ` set (''Hello, World!'' @ [CHR 0x0A] @ ''Welcome to RasOS!'' @ [CHR 0x0A])" by code_simp
  then obtain t where t: "terminal_print (terminal_initialize (console k))
      (c_string (''Hello, World!'' @ [CHR 0x0A] @ ''Welcome to RasOS!'' @ [CHR 0x0A])) = Some t"
    using c_string_print by blast
  obtain gdt where gdt: "gdt_structured_to_gdt (kernel_gdt (tss_address addrs)) = Inr gdt" using kernel_gdt_ok by blast
  let ?st = "(lower (vfs k))\<lparr>fs_kmem := boot_kmem (ram_of k), the_disk := \<lparr>disk_type = 0, sector_size = 512, disk_id = 0,
      disk_filesystem = None, fs_private = 0\<rparr>\<rparr>"
  let ?v = "(vfs k)\<lparr>lower := (lower (vfs k))\<lparr>fs_kmem := boot_kmem (ram_of k)\<rparr>, file_descriptors := replicate 512 0,
      filesystems := Some Fat16_fs # replicate 11 None\<rparr>"
  have st: "fs_ok ?st" "fs_avail ?st = 25600" by (simp_all add: fs_ok_def fs_avail_def)
  obtain st' priv p where r: "fat16_resolve io ?st = Some (0, st')" "mounted io img pend priv st'"
    "disk_filesystem (the_disk st') = Some Fat16_fs" "header priv = boot_header img"
    "root_directory priv = root_of img ?ph n p" "p \<in> fs_used st'"
    "item_arrays st' p = Some (img_bytes img (512 * root_sector ?ph) (root_size ?ph))"
    "fs_ok st'" "fs_avail st' + 5 = fs_avail ?st"
    using fat16_resolve_ok [OF io st(1), of ?ph n] vol st(2) by (auto simp: fat16_volume_def)
  let ?k = "k\<lparr>console := t, gdt_real := gdt, vfs := ?v\<lparr>lower := st'\<rparr>\<rparr>"
  have "disk_search_and_init (fat16_vtable io) ?v = Some (?v\<lparr>lower := st'\<lparr>the_disk := (the_disk st')\<lparr>disk_filesystem := Some Fat16_fs\<rparr>\<rparr>\<rparr>)"
    using disk_search_and_init_one [of ?v 11 ?st io 0 st'] r(1) by simp
  moreover have "st'\<lparr>the_disk := (the_disk st')\<lparr>disk_filesystem := Some Fat16_fs\<rparr>\<rparr> = st'"
  proof -
    have "(the_disk st')\<lparr>disk_filesystem := Some Fat16_fs\<rparr> = the_disk st'" using r(3) by (cases "the_disk st'") simp
    then show ?thesis by (cases st') simp
  qed
  ultimately have run: "kernel_init_memory (fat16_vtable io) addrs k = Some ?k"
    using t gdt by (simp add: kernel_init_memory_def kernel_print_def kheap_init_boot fs_init_eq set_kmem_def)
  show thesis
    by (rule that [OF run]) (use r st(2) in \<open>simp_all add: vfs_ok_def fs_used_def fs_ok_def fs_avail_def\<close>)
qed

end
