(* ===== verification/Loading.thy ===== *)
theory Loading
  imports ElfProofs
begin

text \<open>
  From a file on the disk to an ELF image in memory: \<^verbatim>\<open>elf_load\<close> through the file layer, the driver
  and the drive.
\<close>

section \<open>A file on the disk\<close>

text \<open>
  The path \<open>s\<close> names a file in the root directory of the mounted volume whose content, the bytes of
  its clusters up to its size, is \<open>bytes\<close>.
\<close>

definition on_disk :: "'d ports \<Rightarrow> 'd vfs_state \<Rightarrow> cbuf \<Rightarrow> cbuf \<Rightarrow> bool" where
  "on_disk io v s bytes \<longleftrightarrow> 0 \<notin> set s \<and> valid_path s \<and> s ! 0 = 48
     \<and> (\<exists>img pend priv name i entry. mounted io img pend priv (lower v) \<and> disk_filesystem (the_disk (lower v)) = Some Fat16_fs
          \<and> components (drop 3 s) = [name] \<and> root_file (lower v) name i entry
          \<and> attribute (item_of_bytes entry) AND FAT_FILE_SUBDIRECTORY = 0 \<and> first_cluster entry < 65536
          \<and> 0 < cluster_size priv \<and> filesize (item_of_bytes entry) = of_nat (length bytes)
          \<and> file_extent img priv (first_cluster entry) (length bytes)
          \<and> bytes = file_bytes img priv (first_cluster entry) 0 (length bytes))
     \<and> 0 < length bytes \<and> length bytes < 2 ^ 31"

lemma on_disk_heap:
  assumes "on_disk io v s bytes" "fs_used (lower v) \<subseteq> kheap_used k"
  shows "on_disk io (v\<lparr>lower := (lower v)\<lparr>fs_kmem := k\<rparr>\<rparr>) s bytes"
proof -
  have m: "mounted io img pend priv (lower v) \<Longrightarrow> mounted io img pend priv ((lower v)\<lparr>fs_kmem := k\<rparr>)" for img pend priv
    by (simp add: mounted_def private_of_def open_stream_def)
  from assms(1) show ?thesis
    unfolding on_disk_def using m root_file_heap [OF _ assms(2)] by simp blast
qed

lemma fd_lower [simp]:
  "file_get_descriptor (v\<lparr>lower := st\<rparr>) fd = file_get_descriptor v fd" "fd_open (v\<lparr>lower := st\<rparr>) fd h = fd_open v fd h"
  "fd_apart (v\<lparr>lower := st\<rparr>) os = fd_apart v os"
  by (simp_all add: fd_open_def file_get_descriptor_def fd_apart_def)

text \<open>Opening, asking for the size, and reading all of it once the buffer has been allocated.\<close>

lemma open_on_disk:
  assumes "on_disk io v s bytes" "vfs_ok v" "7 \<le> fs_avail (lower v)" "free_index (file_descriptors v) 0 = Some j" "j < 511"
  obtains v' h f p entry where "fopen (fat16_vtable io) v (s @ 0 # r) (114 # m) = Some (int j + 1, v')" "vfs_ok v'"
    "fd_open v' (int j + 1) h" "open_file (lower v') h f p entry 0" "filesize (item_of_bytes entry) = of_nat (length bytes)"
    "fd_apart v' {h, f, p}" "fs_avail (lower v') + 7 = fs_avail (lower v)" "fs_used (lower v) \<subseteq> fs_used (lower v')"
    "insert (file_get_descriptor v' (int j + 1)) {h, f, p} \<inter> fs_used (lower v) = {}"
    "\<And>st. same_volume (lower v') st \<Longrightarrow> open_file st h f p entry 0 \<Longrightarrow>
       \<exists>st'. fat16_read io st h (of_nat (length bytes)) 1 = Some (1, bytes, st') \<and> moved st st'"
proof -
  have s: "0 \<notin> set s" "valid_path s" "s ! 0 = 48" and len: "0 < length bytes" "length bytes < 2 ^ 31"
    using assms(1) by (simp_all add: on_disk_def)
  obtain img pend priv name i entry where d: "mounted io img pend priv (lower v)" "disk_filesystem (the_disk (lower v)) = Some Fat16_fs"
    "components (drop 3 s) = [name]" "root_file (lower v) name i entry"
    "attribute (item_of_bytes entry) AND FAT_FILE_SUBDIRECTORY = 0" "first_cluster entry < 65536" "0 < cluster_size priv"
    "filesize (item_of_bytes entry) = of_nat (length bytes)" "file_extent img priv (first_cluster entry) (length bytes)"
    "bytes = file_bytes img priv (first_cluster entry) 0 (length bytes)"
    using assms(1) unfolding on_disk_def by blast
  from fopen_ok [OF assms(2,3) d(2) s d(3-5) assms(4), of io r m] assms(5) obtain v' h f p where
    o: "fopen (fat16_vtable io) v (s @ 0 # r) (114 # m) = Some (int j + 1, v')" "vfs_ok v'"
    "fd_open v' (int j + 1) h" "open_file (lower v') h f p entry 0" "fd_apart v' {h, f, p}"
    "fs_avail (lower v') + 7 = fs_avail (lower v)" "fs_used (lower v) \<subseteq> fs_used (lower v')"
    "insert (file_descriptors v' ! j) {h, f, p} \<inter> fs_used (lower v) = {}" "same_volume (lower v) (lower v')"
    by blast
  have n: "unat (of_nat (length bytes) :: u32) = length bytes" using len by (simp add: unat_of_nat)
  show thesis
  proof (rule that [OF o(1-4) d(8) o(5-7)])
    show "insert (file_get_descriptor v' (int j + 1)) {h, f, p} \<inter> fs_used (lower v) = {}"
      using o(8) assms(5) by (simp add: file_get_descriptor_def)
    fix st assume st: "same_volume (lower v') st" "open_file st h f p entry 0"
    have "mounted io img pend priv st" using same_volume_mounted [OF st(1) same_volume_mounted [OF o(9) d(1)]] .
    from fat16_read_ok [OF this st(2) d(6,7), of "of_nat (length bytes)" 1] n len d(9,10)
    show "\<exists>st'. fat16_read io st h (of_nat (length bytes)) 1 = Some (1, bytes, st') \<and> moved st st'"
      by (simp add: pieces_aligned_def)
  qed
qed

section \<open>Loading an image\<close>

text \<open>The blocks of an object of \<open>n\<close> blocks at block \<open>b\<close>.\<close>

abbreviation blocks :: "nat \<Rightarrow> nat \<Rightarrow> addr set" where
  "blocks b n \<equiv> heap_blk ` {b..<b + n}"

lemma free_blocks_apart: "free_blocks k b n \<Longrightarrow> blocks b n \<inter> kheap_used k = {}"
proof -
  assume f: "free_blocks k b n"
  have "heap_blk i \<notin> kheap_used k" if "b \<le> i" "i < b + n" for i
  proof -
    have "i - b < n" "b + (i - b) = i" using that by simp_all
    then show ?thesis using f unfolding free_blocks_def by metis
  qed
  then show ?thesis by auto
qed

lemma open_file_moved:
  assumes "moved st st'" "open_file st h f p e ofs"
  shows "open_file st' h f p e ofs" "fs_kmem st' = fs_kmem st"
  using assms by (auto simp: moved_def open_file_def fs_used_def)

lemma vfs_kernel_fields [simp]:
  "vfs (set_kmem k m) = (vfs k)\<lparr>lower := (lower (vfs k))\<lparr>fs_kmem := m\<rparr>\<rparr>"
  "vfs (set_ram k x) = (vfs k)\<lparr>lower := (lower (vfs k))\<lparr>fs_kmem := (kmem_of k)\<lparr>phys := x\<rparr>\<rparr>\<rparr>"
  by (simp_all add: set_kmem_def set_ram_def)

lemma elf_load_ok:
  assumes disk: "on_disk io (vfs k) s bytes" and v: "vfs_ok (vfs k)" "free_index (file_descriptors (vfs k)) 0 = Some j" "j < 511"
    and room: "free_blocks (kmem_of k) a (9 * nblocks (of_nat (length bytes)))" "8 \<le> kheap_avail (kmem_of k)"
  obtains ef b k' res f where
    "elf_load (fat16_vtable io) k (s @ 0 # r) = Some (res, if res < 0 then None else Some ef, k')"
    "elf_process_loaded (ram_of k') (empty_elf_file\<lparr>ef_memory := heap_blk b\<rparr>) = (res, f)"
    "k' = k\<lparr>vfs := vfs k', elf_files := (elf_files k)(ef \<mapsto> f)\<rparr>" "vfs_ok (vfs k')"
    "ef \<noteq> 0" "ef \<notin> kheap_used (kmem_of k)" "free_blocks (kmem_of k) b (nblocks (of_nat (length bytes)))"
    "insert ef (kheap_used (kmem_of k) \<union> blocks b (nblocks (of_nat (length bytes)))) \<subseteq> kheap_used (kmem_of k')"
    "kheap_avail (kmem_of k') + nblocks (of_nat (length bytes)) + 4 = kheap_avail (kmem_of k)"
    "\<And>i. i < length bytes \<Longrightarrow> ram_of k' (heap_blk b + of_nat i) = bytes ! i"
proof -
  let ?sz = "of_nat (length bytes) :: u32" and ?n = "nblocks (of_nat (length bytes))"
  have len: "0 < length bytes" "length bytes < 2 ^ 31" using disk by (simp_all add: on_disk_def)
  have ok: "kheap_ok (kmem_of k)" using v(1) by (simp add: vfs_ok_def fs_ok_def)
  obtain ef m1 where m1: "kzalloc (kmem_of k) 152 = Some (ef, m1)" "kheap_ok m1" "ef \<noteq> 0" "ef \<notin> kheap_used (kmem_of k)"
    "kheap_used m1 = insert ef (kheap_used (kmem_of k))" "Suc (kheap_avail m1) = kheap_avail (kmem_of k)"
    using kpage.alloc_page [OF ok, of 152] room(2) by (auto simp: page_request_def)
  let ?v1 = "(vfs k)\<lparr>lower := (lower (vfs k))\<lparr>fs_kmem := m1\<rparr>\<rparr>"
  have d1: "on_disk io ?v1 s bytes" by (rule on_disk_heap [OF disk]) (use m1(5) in \<open>auto simp: fs_used_def\<close>)
  have v1: "vfs_ok ?v1" by (rule vfs_ok_lower [OF v(1)]) (use m1(2,5) in \<open>auto simp: fs_ok_def fs_used_def\<close>)
  obtain v2 h f0 p0 entry where o: "fopen (fat16_vtable io) ?v1 (s @ 0 # r) [114, 0] = Some (int j + 1, v2)" "vfs_ok v2"
    "fd_open v2 (int j + 1) h" "open_file (lower v2) h f0 p0 entry 0" "filesize (item_of_bytes entry) = ?sz"
    "fd_apart v2 {h, f0, p0}" "fs_avail (lower v2) + 7 = fs_avail (lower ?v1)" "fs_used (lower ?v1) \<subseteq> fs_used (lower v2)"
    "insert (file_get_descriptor v2 (int j + 1)) {h, f0, p0} \<inter> fs_used (lower ?v1) = {}"
    and read: "\<And>st. same_volume (lower v2) st \<Longrightarrow> open_file st h f0 p0 entry 0 \<Longrightarrow>
       \<exists>st'. fat16_read io st h ?sz 1 = Some (1, bytes, st') \<and> moved st st'"
    by (rule open_on_disk [OF d1 v1 _ _ v(3), of r "[0]"]) (use m1(6) room(2) v(2) in \<open>simp_all add: fs_avail_def\<close>)
  obtain fl where stat: "fstat (fat16_vtable io) v2 (int j + 1) x = Some (0, \<lparr>stat_flags = fl, stat_filesize = ?sz\<rparr>)" for x
    using fstat_open [OF o(3)] fat16_stat_ok [OF o(4)] o(5) by metis
  let ?m2 = "fs_kmem (lower v2)"
  have m2: "kheap_ok ?m2" using o(2) by (simp add: vfs_ok_def fs_ok_def)
  have u2: "insert ef (kheap_used (kmem_of k)) \<subseteq> kheap_used ?m2" using o(8) m1(5) by (simp add: fs_used_def)
  have av2: "kheap_avail ?m2 + 8 = kheap_avail (kmem_of k)" using o(7) m1(6) by (simp add: fs_avail_def)
  have n0: "0 < ?n" using len by (simp add: nblocks_eq unat_of_nat div_greater_zero_iff flip: length_greater_0_conv)
  have sz: "unat ?sz = length bytes" using len by (simp add: unat_of_nat)
  have room': "free_blocks (kmem_of k) a (Suc 8 * ?n)" using room(1) by simp
  obtain b0 where "free_blocks ?m2 b0 ?n"
    by (rule free_blocks_remain [OF ok m2 _ _ room']) (use u2 av2 in auto)
  from kzalloc_run [OF m2 n0 this] obtain b m3 where m3: "kzalloc ?m2 ?sz = Some (heap_blk b, m3)" "kheap_ok m3"
    "free_blocks ?m2 b ?n" "kheap_used m3 = kheap_used ?m2 \<union> blocks b ?n" "kheap_avail m3 + ?n = kheap_avail ?m2" by blast
  have b0: "heap_blk b \<noteq> 0" using m3(3) by (simp add: free_blocks_def heap_blk_nonzero)
  let ?st3 = "(lower v2)\<lparr>fs_kmem := m3\<rparr>"
  have "open_file ?st3 h f0 p0 entry 0" by (rule open_file_heap [OF o(4)]) (use m3(4) in \<open>auto simp: fs_used_def\<close>)
  moreover have "same_volume (lower v2) ?st3" by (simp add: same_volume_def)
  ultimately obtain st4 where st4: "fat16_read io ?st3 h ?sz 1 = Some (1, bytes, st4)" "open_file st4 h f0 p0 entry 0" "fs_kmem st4 = m3"
    using read [of ?st3] open_file_moved by fastforce
  let ?r = "ram_write (phys m3) (heap_blk b) bytes"
  let ?v5 = "v2\<lparr>lower := st4\<lparr>fs_kmem := m3\<lparr>phys := ?r\<rparr>\<rparr>\<rparr>"
  have fr: "fread (fat16_vtable io) (v2\<lparr>lower := ?st3\<rparr>) ?sz 1 (int j + 1) = Some (1, bytes, v2\<lparr>lower := st4\<rparr>)"
  proof -
    have "fd_open (v2\<lparr>lower := ?st3\<rparr>) (int j + 1) h" using o(3) by simp
    moreover have "0 < ?sz" using len sz by (simp add: word_less_nat_alt)
    ultimately show ?thesis using fread_open [of "v2\<lparr>lower := ?st3\<rparr>" "int j + 1" h ?sz 1 io] st4(1) by simp
  qed
  have v5: "vfs_ok ?v5" "fd_open ?v5 (int j + 1) h" "open_file (lower ?v5) h f0 p0 entry 0" "fd_apart ?v5 {h, f0, p0}"
    "file_get_descriptor ?v5 (int j + 1) = file_get_descriptor v2 (int j + 1)"
  proof -
    show "vfs_ok ?v5" by (rule vfs_ok_lower [OF o(2)]) (use m3(2,4) in \<open>auto simp: fs_ok_def fs_used_def\<close>)
    show "open_file (lower ?v5) h f0 p0 entry 0" using open_file_heap [OF st4(2), of "m3\<lparr>phys := ?r\<rparr>"] st4(3) by (simp add: fs_used_def)
  qed (use o(3,6) in simp_all)
  from fclose_ok [OF v5(1-4), of io] obtain v6 where v6: "fclose (fat16_vtable io) ?v5 (int j + 1) = Some (0, v6)" "vfs_ok v6"
    "fs_avail (lower v6) = fs_avail (lower ?v5) + 4"
    "fs_used (lower v6) = fs_used (lower ?v5) - insert (file_get_descriptor v2 (int j + 1)) {h, f0, p0}" unfolding v5(5) by blast
  have ram6: "phys (fs_kmem (lower v6)) = ?r" using fclose_phys [OF v6(1)] by simp
  obtain res f where e: "elf_process_loaded ?r (empty_elf_file\<lparr>ef_memory := heap_blk b\<rparr>) = (res, f)" by fastforce
  let ?k' = "k\<lparr>vfs := v6, elf_files := (elf_files k)(ef \<mapsto> f)\<rparr>"
  have run: "elf_load (fat16_vtable io) k (s @ 0 # r) = Some (res, if res < 0 then None else Some ef, ?k')"
    using m1(1,3) o(1) stat m3(1) fr b0 e st4(3) v6(1)
    by (simp add: elf_load_def elf_load_body_def kernel_zalloc_def c_string_def set_kmem_def set_ram_def)
  have desc: "file_get_descriptor v2 (int j + 1) \<in> fs_used (lower v2)"
  proof -
    have "file_get_descriptor v2 (int j + 1) = file_descriptors v2 ! j" using v(3) by (simp add: file_get_descriptor_def)
    moreover have "file_get_descriptor v2 (int j + 1) \<noteq> 0" using o(3) by (simp add: fd_open_def)
    ultimately show ?thesis using o(2) v(3) by (simp add: vfs_ok_def)
  qed
  have used6: "kheap_used (fs_kmem (lower v6)) = kheap_used m3 - insert (file_get_descriptor v2 (int j + 1)) {h, f0, p0}"
    using v6(4) by (simp add: fs_used_def)
  show thesis
  proof (rule that [OF run])
    show "elf_process_loaded (ram_of ?k') (empty_elf_file\<lparr>ef_memory := heap_blk b\<rparr>) = (res, f)" using e ram6 by simp
    show "free_blocks (kmem_of k) b ?n" using m3(3) u2 by (auto simp: free_blocks_def)
    define D where "D = insert (file_get_descriptor v2 (int j + 1)) {h, f0, p0}"
    have "D \<subseteq> kheap_used ?m2" using o(4) desc by (simp add: D_def open_file_def fs_used_def)
    moreover have "D \<inter> insert ef (kheap_used (kmem_of k)) = {}" using o(9) m1(5) by (simp only: D_def fs_used_def) simp
    moreover have "kheap_used (kmem_of ?k') = kheap_used m3 - D" using used6 by (simp add: D_def)
    ultimately show "insert ef (kheap_used (kmem_of k) \<union> blocks b ?n) \<subseteq> kheap_used (kmem_of ?k')"
      using m3(4) u2 free_blocks_apart [OF m3(3)] by blast
    show "kheap_avail (kmem_of ?k') + ?n + 4 = kheap_avail (kmem_of k)"
      using v6(3) m3(5) av2 by (simp add: fs_avail_def)
    show "ram_of ?k' (heap_blk b + of_nat i) = bytes ! i" if "i < length bytes" for i
    proof -
      have "unat (of_nat i :: u32) = i" using that len by (simp add: unat_of_nat)
      then show ?thesis using ram_write_apply [of bytes "phys m3" "heap_blk b" "heap_blk b + of_nat i"] that len ram6 by simp
    qed
  qed (use v6(2) m1(3,4) in simp_all)
qed

end
