(* ===== verification/Images.thy ===== *)
theory Images
  imports Loading TaskList
begin

text \<open>
  An ELF image as the content of a file, and how \<^verbatim>\<open>process_load_data\<close> brings it and a stack into
  memory.
\<close>

section \<open>Addresses in blocks\<close>

lemma in_blocks:
  assumes "s + n \<le> 25600" "unat (a - heap_blk s) < 4096 * n"
  shows "page_base a \<in> blocks s n"
proof -
  define w where "w = a - heap_blk s"
  have a: "a = heap_blk s + w" by (simp add: w_def)
  have w: "unat w < 4096 * n" using assms(2) by (simp add: w_def)
  have s: "unat (heap_blk s) = 16777216 + 4096 * s" using assms(1) by (simp add: unat_heap_blk)
  have u: "unat a = 16777216 + 4096 * s + unat w"
    unfolding a using s w assms(1) by (simp add: unat_word_ariths(1))
  let ?q = "unat w div 4096"
  have q: "?q < n" using w by (simp add: div_less_iff_less_mult mult.commute)
  have "unat a = 4096 * (4096 + s + ?q) + unat w mod 4096" using u by simp
  then have "unat a div 4096 = 4096 + s + ?q" by simp
  then have "unat (page_base a) = 16777216 + 4096 * (s + ?q)" by (simp add: unat_page_base)
  then have "page_base a = heap_blk (s + ?q)" using assms(1) q by (simp add: word_unat_eq_iff unat_heap_blk)
  then show ?thesis using q by auto
qed

lemma kzalloc_frame:
  assumes "kzalloc k n = Some (heap_blk s, k')" "free_blocks k s (nblocks n)" "unat n \<le> 4096 * nblocks n"
    "page_base a \<in> kheap_used k"
  shows "phys k' a = phys k a"
proof -
  have "s + nblocks n \<le> 25600" using assms(2) by (simp add: free_blocks_def)
  from in_blocks [OF this, of a] have "\<not> unat (a - heap_blk s) < unat n"
    using assms(3,4) free_blocks_apart [OF assms(2)] by auto
  then show ?thesis using kzalloc_phys [OF assms(1), of a] by simp
qed

lemma unat_le_nblocks: "unat n \<le> 4294963200 \<Longrightarrow> unat n \<le> 4096 * nblocks n"
  by (simp add: nblocks_eq)

section \<open>An ELF image as a file\<close>

text \<open>The bytes of a file at address 0, for the headers to be read from.\<close>

definition file_ram :: "cbuf \<Rightarrow> ram" where
  "file_ram bytes a = (if unat a < length bytes then bytes ! unat a else 0)"

definition elf_image :: "cbuf \<Rightarrow> bool" where
  "elf_image bytes \<longleftrightarrow> 52 \<le> length bytes \<and> elf_validate_loaded (elf_header_at (file_ram bytes) 0) = 0
     \<and> unat (e_phoff (elf_header_at (file_ram bytes) 0)) + 32 * unat (e_phnum (elf_header_at (file_ram bytes) 0)) \<le> length bytes
     \<and> (\<forall>p\<in>set (program_headers (file_ram bytes) empty_elf_file). unat (p_offset p) + unat (p_filesz p) \<le> length bytes)"

text \<open>\<open>m\<close> holds the file at \<open>a\<close>.\<close>

definition holds_file :: "ram \<Rightarrow> addr \<Rightarrow> cbuf \<Rightarrow> bool" where
  "holds_file m a bytes \<longleftrightarrow> (\<forall>i<length bytes. m (a + of_nat i) = bytes ! i)"

lemma holds_file_byte:
  assumes "holds_file m a bytes" "unat i < length bytes"
  shows "m (a + i) = file_ram bytes i"
proof -
  have "m (a + of_nat (unat i)) = bytes ! unat i" using assms unfolding holds_file_def by blast
  then show ?thesis using assms(2) by (simp add: file_ram_def)
qed

lemma holds_file_header:
  assumes "holds_file m a bytes" "52 \<le> length bytes"
  shows "elf_header_at m a = elf_header_at (file_ram bytes) 0"
proof -
  have b: "m (a + i) = file_ram bytes i" if "unat i < 52" for i
    by (rule holds_file_byte [OF assms(1)]) (use that assms(2) in simp)
  have "ram_bytes m a 16 = ram_bytes (file_ram bytes) 0 16"
  proof (rule nth_equalityI)
    fix i assume "i < length (ram_bytes m a 16)"
    then have i: "i < 16" by simp
    then have "unat (of_nat i :: u32) < 52" by (simp add: unat_of_nat)
    then show "ram_bytes m a 16 ! i = ram_bytes (file_ram bytes) 0 16 ! i"
      using b i by (simp add: nth_ram_bytes del: ram_bytes.simps)
  qed simp
  moreover have "m a = file_ram bytes 0" using b [of 0] by simp
  ultimately show ?thesis
    using b by (simp add: elf_header_at_def load16_def load32_def add.assoc del: ram_bytes.simps)
qed

lemma valid_has_headers: "elf_validate_loaded h = 0 \<Longrightarrow> e_phoff h \<noteq> 0"
  by (simp add: elf_validate_loaded_def elf_has_program_header_def split: if_splits)

lemma holds_file_phdr:
  assumes "holds_file m a bytes" "length bytes < 2 ^ 31" "unat off + 32 \<le> length bytes"
  shows "elf32_phdr_at m (a + off) = elf32_phdr_at (file_ram bytes) off"
proof -
  have "m (a + off + of_nat j) = file_ram bytes (off + of_nat j)" if j: "j < 32" for j
  proof -
    have "unat (of_nat j :: u32) = j" using j by (simp add: unat_of_nat)
    then have "unat (off + of_nat j) = unat off + j" using assms(2,3) j by (simp add: unat_word_ariths(1))
    then show ?thesis using holds_file_byte [OF assms(1), of "off + of_nat j"] assms(3) j by (simp add: add.assoc)
  qed
  note b = this
  have n: "m (a + off) = file_ram bytes off" using b [of 0] by simp
  have "m (a + off + numeral j) = file_ram bytes (off + numeral j)" if "numeral j < (32 :: nat)" for j
    using b [OF that] by simp
  moreover have "m (a + off + 1) = file_ram bytes (off + 1)" using b [of 1] by simp
  ultimately show ?thesis using n by (simp add: elf32_phdr_at_def load32_def add.assoc)
qed

lemma holds_file_program_headers:
  assumes h: "holds_file m (ef_memory f) bytes" and im: "elf_image bytes" and len: "length bytes < 2 ^ 31"
  shows "elf_validate_loaded (elf_header_at m (elf_header f)) = 0"
    "elf_header_at m (elf_header f) = elf_header_at (file_ram bytes) 0"
    "elf_pheader m (elf_header f) = ef_memory f + e_phoff (elf_header_at (file_ram bytes) 0)"
    "program_headers m f = program_headers (file_ram bytes) empty_elf_file"
proof -
  let ?h = "elf_header_at (file_ram bytes) 0"
  show hd: "elf_header_at m (elf_header f) = ?h"
    using holds_file_header [OF h] im by (simp add: elf_header_def elf_image_def)
  then show "elf_validate_loaded (elf_header_at m (elf_header f)) = 0" using im by (simp add: elf_image_def)
  have nz: "e_phoff ?h \<noteq> 0" by (rule valid_has_headers) (use im in \<open>simp add: elf_image_def\<close>)
  then show ph: "elf_pheader m (elf_header f) = ef_memory f + e_phoff ?h" by (simp add: elf_pheader_def hd) (simp add: elf_header_def)
  have e0: "elf_header empty_elf_file = 0" by (simp add: elf_header_def empty_elf_file_def)
  show "program_headers m f = program_headers (file_ram bytes) empty_elf_file"
    unfolding program_headers_def hd e0
  proof (rule map_cong [OF refl])
    fix i assume "i \<in> set [0..<unat (e_phnum ?h)]"
    then have i: "i < unat (e_phnum ?h)" by simp
    have off: "unat (e_phoff ?h) + 32 * unat (e_phnum ?h) \<le> length bytes" using im by (simp add: elf_image_def)
    have "unat (32 * of_nat i :: u32) = 32 * i" using i off len by (simp add: unat_word_ariths unat_of_nat)
    then have "unat (e_phoff ?h + 32 * of_nat i) = unat (e_phoff ?h) + 32 * i"
      using i off len by (simp add: unat_word_ariths(1))
    then have "unat (e_phoff ?h + 32 * of_nat i) + 32 \<le> length bytes" using i off by simp
    from holds_file_phdr [OF h len this]
    show "elf32_phdr_at m (elf_program_header m (elf_header f) i) = elf32_phdr_at (file_ram bytes) (elf_program_header (file_ram bytes) 0 i)"
      using nz by (simp add: elf_program_header_def ph add.assoc) (simp add: elf_pheader_def)
  qed
qed

text \<open>The loader accepts such a file.\<close>

lemma elf_process_loaded_ok:
  assumes "holds_file m (ef_memory f) bytes" "elf_image bytes" "length bytes < 2 ^ 31"
  obtains f' where "elf_process_loaded m f = (0, f')" "ef_memory f' = ef_memory f"
proof -
  note h = holds_file_program_headers [OF assms]
  have "elf_process_loaded m f = elf_process_pheaders m f" using h(1) by (simp add: elf_process_loaded_def)
  moreover have "ef_memory (fold (\<lambda>p f. snd (elf_process_phdr_pt_load f p)) qs g) = ef_memory g" for qs g
    by (induction qs arbitrary: g) (simp_all add: elf_process_phdr_pt_load_def Let_def)
  ultimately show thesis using that elf_process_pheaders_eq [of m f] by simp
qed

section \<open>The image of a new process\<close>

text \<open>
  What the kernel needs to load its first program: the file on the disk, an ELF image; a free file
  descriptor; no task yet; a free slot; and room on the heap.
\<close>

definition load_room :: "kmem \<Rightarrow> nat \<Rightarrow> bool" where
  "load_room k n \<longleftrightarrow> (\<exists>a. free_blocks k a (27 * n + 28)) \<and> n + 1050 \<le> kheap_avail k"

definition loadable :: "'d ports \<Rightarrow> 'd kernel \<Rightarrow> cbuf \<Rightarrow> cbuf \<Rightarrow> bool" where
  "loadable io k s bytes \<longleftrightarrow> on_disk io (vfs k) s bytes \<and> elf_image bytes \<and> vfs_ok (vfs k)
     \<and> (\<exists>j<511. free_index (file_descriptors (vfs k)) 0 = Some j) \<and> load_room (kmem_of k) (nblocks (of_nat (length bytes)))"

definition image_loaded :: "'d kernel \<Rightarrow> addr \<Rightarrow> nat \<Rightarrow> nat \<Rightarrow> elf_file \<Rightarrow> cbuf \<Rightarrow> bool" where
  "image_loaded k process stack b f bytes \<longleftrightarrow> kheap_ok (kmem_of k)
     \<and> (\<exists>ef. process_store k process = Some (empty_process\<lparr>filetype := PROCESS_FILETYPE_ELF, proc_ptr := ef\<rparr>) \<and> elf_files k ef = Some f)
     \<and> ef_memory f = heap_blk b \<and> holds_file (ram_of k) (heap_blk b) bytes
     \<and> insert process (blocks b (nblocks (of_nat (length bytes))) \<union> blocks stack 4) \<subseteq> kheap_used (kmem_of k)
     \<and> b + nblocks (of_nat (length bytes)) \<le> 25600 \<and> stack + 4 \<le> 25600"

lemma nblocks_process: "nblocks 5280 = 2" "nblocks RASOS_USER_PROGRAM_STACK_SIZE = 4"
  "unat RASOS_USER_PROGRAM_STACK_SIZE = 16384"
  by (simp_all add: nblocks_eq RASOS_USER_PROGRAM_STACK_SIZE_def)

lemma holds_file_frame:
  assumes "holds_file m (heap_blk b) bytes" "b + nblocks (of_nat (length bytes)) \<le> 25600" "length bytes < 2 ^ 31"
    "\<And>a. page_base a \<in> blocks b (nblocks (of_nat (length bytes))) \<Longrightarrow> m' a = m a"
  shows "holds_file m' (heap_blk b) bytes"
  unfolding holds_file_def
proof (intro allI impI)
  fix i assume i: "i < length bytes"
  let ?n = "nblocks (of_nat (length bytes))"
  have "unat (of_nat (length bytes) :: u32) = length bytes" using assms(3) by (simp add: unat_of_nat)
  then have "length bytes \<le> 4096 * ?n" using unat_le_nblocks [of "of_nat (length bytes)"] assms(3) by simp
  moreover have "unat (of_nat i :: u32) = i" using i assms(3) by (simp add: unat_of_nat)
  ultimately have "page_base (heap_blk b + of_nat i) \<in> blocks b ?n"
    by (intro in_blocks [OF assms(2)]) (use i in simp)
  then show "m' (heap_blk b + of_nat i) = bytes ! i" using assms(1,4) i by (simp add: holds_file_def)
qed

lemma load_image_ok:
  assumes ld: "loadable io k s bytes"
  obtains process k1 k3 stack k4 b f where "kernel_zalloc k 5280 = Some (process, k1)" "process \<noteq> 0"
    "process_load_data (fat16_vtable io) (process_init k1 process) (s @ 0 # r) process = Some (0, k3)"
    "kernel_zalloc k3 RASOS_USER_PROGRAM_STACK_SIZE = Some (heap_blk stack, k4)" "image_loaded k4 process stack b f bytes"
    "kheap_used (kmem_of k) \<subseteq> kheap_used (kmem_of k4)" "1028 \<le> kheap_avail (kmem_of k4)"
    "k4 = k\<lparr>vfs := vfs k4, elf_files := elf_files k4, process_store := process_store k4\<rparr>"
proof -
  let ?n = "nblocks (of_nat (length bytes))"
  have disk: "on_disk io (vfs k) s bytes" and im: "elf_image bytes" and v: "vfs_ok (vfs k)"
    using ld by (simp_all add: loadable_def)
  obtain j where j: "free_index (file_descriptors (vfs k)) 0 = Some j" "j < 511" using ld by (auto simp: loadable_def)
  obtain a where room: "free_blocks (kmem_of k) a (27 * ?n + 28)" "?n + 1050 \<le> kheap_avail (kmem_of k)"
    using ld by (auto simp: loadable_def load_room_def)
  have ok: "kheap_ok (kmem_of k)" using v by (simp add: vfs_ok_def fs_ok_def)
  have len: "0 < length bytes" "length bytes < 2 ^ 31" using disk by (simp_all add: on_disk_def)
  have "free_blocks (kmem_of k) a (nblocks 5280)" by (rule free_blocks_part [OF room(1)]) (simp add: nblocks_process)
  then obtain s0 m1 where m1: "kzalloc (kmem_of k) 5280 = Some (heap_blk s0, m1)" "kheap_ok m1"
    "free_blocks (kmem_of k) s0 2" "kheap_used m1 = kheap_used (kmem_of k) \<union> blocks s0 2" "kheap_avail m1 + 2 = kheap_avail (kmem_of k)"
    using kzalloc_run [OF ok, of 5280 a] unfolding nblocks_process(1) by auto
  let ?P = "heap_blk s0"
  have P: "?P \<noteq> 0" "?P \<in> kheap_used m1" using m1(3,4) by (auto simp: free_blocks_def heap_blk_nonzero)
  let ?k1 = "process_init (set_kmem k m1) ?P"
  have v1: "vfs ?k1 = (vfs k)\<lparr>lower := (lower (vfs k))\<lparr>fs_kmem := m1\<rparr>\<rparr>" by (simp add: process_init_def put_process_def)
  have d1: "on_disk io (vfs ?k1) s bytes" unfolding v1 by (rule on_disk_heap [OF disk]) (use m1(4) in \<open>auto simp: fs_used_def\<close>)
  have ok1: "vfs_ok (vfs ?k1)" unfolding v1 by (rule vfs_ok_lower [OF v]) (use m1(2,4) in \<open>auto simp: fs_ok_def fs_used_def\<close>)
  have "free_blocks (kmem_of k) a (Suc 2 * (9 * ?n))" by (rule free_blocks_part [OF room(1)]) simp
  note r1 = this
  obtain a1 where a1: "free_blocks m1 a1 (9 * ?n)"
    by (rule free_blocks_remain [OF ok m1(2) _ _ r1]) (use m1(4,5) in auto)
  obtain ef b k2 res f where e: "elf_load (fat16_vtable io) ?k1 (s @ 0 # r) = Some (res, if res < 0 then None else Some ef, k2)"
    "elf_process_loaded (ram_of k2) (empty_elf_file\<lparr>ef_memory := heap_blk b\<rparr>) = (res, f)"
    "k2 = ?k1\<lparr>vfs := vfs k2, elf_files := (elf_files ?k1)(ef \<mapsto> f)\<rparr>" "vfs_ok (vfs k2)"
    "ef \<noteq> 0" "free_blocks (kmem_of ?k1) b ?n"
    "insert ef (kheap_used (kmem_of ?k1) \<union> blocks b ?n) \<subseteq> kheap_used (kmem_of k2)"
    "kheap_avail (kmem_of k2) + ?n + 4 = kheap_avail (kmem_of ?k1)"
    "\<And>i. i < length bytes \<Longrightarrow> ram_of k2 (heap_blk b + of_nat i) = bytes ! i"
  proof (rule elf_load_ok [OF d1 ok1 _ j(2), where r = r])
    show "free_index (file_descriptors (vfs ?k1)) 0 = Some j" using j(1) by (simp add: v1)
    show "free_blocks (kmem_of ?k1) a1 (9 * ?n)" using a1 by (simp add: v1)
    show "8 \<le> kheap_avail (kmem_of ?k1)" using m1(5) room(2) by (simp add: v1)
  qed (rule that)
  have h2: "holds_file (ram_of k2) (heap_blk b) bytes" using e(9) by (simp add: holds_file_def)
  obtain f' where "elf_process_loaded (ram_of k2) (empty_elf_file\<lparr>ef_memory := heap_blk b\<rparr>) = (0, f')" "ef_memory f' = heap_blk b"
    using elf_process_loaded_ok [of "ram_of k2" "empty_elf_file\<lparr>ef_memory := heap_blk b\<rparr>" bytes] h2 im len(2) by auto
  then have f: "res = 0" "ef_memory f = heap_blk b" using e(2) by simp_all
  let ?p = "empty_process\<lparr>filetype := PROCESS_FILETYPE_ELF, proc_ptr := ef\<rparr>"
  let ?k3 = "put_process k2 ?P ?p"
  have k2: "elf_files k2 = (elf_files k)(ef \<mapsto> f)" "process_store k2 = (process_store k)(?P \<mapsto> empty_process)"
    using arg_cong [OF e(3), of elf_files] arg_cong [OF e(3), of process_store]
    by (simp_all add: process_init_def put_process_def set_kmem_def)
  have ps: "process_store k2 ?P = Some empty_process" by (subst e(3)) (simp add: process_init_def put_process_def)
  have load: "process_load_data (fat16_vtable io) ?k1 (s @ 0 # r) ?P = Some (0, ?k3)"
    using e(1) f(1) ps by (simp add: process_load_data_def process_load_elf_def)
  have u2: "insert ?P (kheap_used (kmem_of k)) \<subseteq> kheap_used (kmem_of ?k1)" using m1(4) P(2) by (auto simp: v1)
  have u3: "insert ?P (kheap_used (kmem_of k) \<union> blocks b ?n) \<subseteq> kheap_used (kmem_of k2)" using u2 e(7) by blast
  have ok2: "kheap_ok (kmem_of k2)" using e(4) by (simp add: vfs_ok_def fs_ok_def)
  have av2: "kheap_avail (kmem_of k2) + ?n + 6 = kheap_avail (kmem_of k)" using e(8) m1(5) by (simp add: v1)
  have "free_blocks (kmem_of k) a (Suc (?n + 6) * 4)" by (rule free_blocks_part [OF room(1)]) simp
  then obtain a3 where a3: "free_blocks (kmem_of k2) a3 4"
    by (rule free_blocks_remain [OF ok ok2, rotated 2]) (use u3 av2 in auto)
  then obtain stack m4 where m4: "kzalloc (kmem_of k2) RASOS_USER_PROGRAM_STACK_SIZE = Some (heap_blk stack, m4)" "kheap_ok m4"
    "free_blocks (kmem_of k2) stack 4" "kheap_used m4 = kheap_used (kmem_of k2) \<union> blocks stack 4" "kheap_avail m4 + 4 = kheap_avail (kmem_of k2)"
    using kzalloc_run [OF ok2, of RASOS_USER_PROGRAM_STACK_SIZE a3] unfolding nblocks_process(2) by auto
  let ?k4 = "set_kmem ?k3 m4"
  have b: "b + ?n \<le> 25600" "stack + 4 \<le> 25600" using e(6) m4(3) by (simp_all add: free_blocks_def)
  have h4: "holds_file (phys m4) (heap_blk b) bytes"
  proof (rule holds_file_frame [OF h2 b(1) len(2)])
    fix x assume "page_base x \<in> blocks b ?n"
    then have "page_base x \<in> kheap_used (kmem_of k2)" using u3 by blast
    then show "phys m4 x = ram_of k2 x"
      using kzalloc_frame [OF m4(1)] m4(3) by (simp add: nblocks_process)
  qed
  have k4: "?k4 = k\<lparr>vfs := vfs ?k4, elf_files := elf_files ?k4, process_store := process_store ?k4\<rparr>"
    using k2 by (subst e(3)) (simp add: put_process_def process_init_def set_kmem_def)
  have km: "kmem_of ?k4 = m4" by (simp add: put_process_def)
  have fs: "elf_files ?k4 ef = Some f" by (simp add: put_process_def set_kmem_def) (subst e(3), simp)
  have img: "image_loaded ?k4 ?P stack b f bytes"
    unfolding image_loaded_def km
  proof (intro conjI)
    show "\<exists>ef. process_store ?k4 ?P = Some (empty_process\<lparr>filetype := PROCESS_FILETYPE_ELF, proc_ptr := ef\<rparr>) \<and> elf_files ?k4 ef = Some f"
      using fs by (intro exI [of _ ef]) (simp add: put_process_def set_kmem_def)
    show "insert ?P (blocks b ?n \<union> blocks stack 4) \<subseteq> kheap_used m4" using m4(4) u3 by blast
  qed (use m4(2) h4 f(2) b km in simp_all)
  show thesis
  proof (rule that [OF _ P(1) load [unfolded e(3) [symmetric]]])
    show "kernel_zalloc k 5280 = Some (?P, set_kmem k m1)" using m1(1) by (simp add: kernel_zalloc_def)
    show "kernel_zalloc ?k3 RASOS_USER_PROGRAM_STACK_SIZE = Some (heap_blk stack, ?k4)"
      using m4(1) by (simp add: kernel_zalloc_def put_process_def)
    show "kheap_used (kmem_of k) \<subseteq> kheap_used (kmem_of ?k4)" using m4(4) u3 by (auto simp: km)
    show "1028 \<le> kheap_avail (kmem_of ?k4)" using room(2) av2 m4(5) by (simp add: km)
  qed (rule img, rule k4)
qed

end
