(* ===== verification/Start.thy ===== *)
theory Start
  imports Images Running
begin

text \<open>
  The first program, from the file on the disk to user mode: its image and its stack in a fresh
  address space, its task, and the state in which \<^verbatim>\<open>task_run_first_ever_task\<close> leaves for it.
\<close>

section \<open>What a task may write\<close>

text \<open>Every page is present, and those a task may write lead into the pages \<open>B\<close>.\<close>

definition writes_within :: "ram \<Rightarrow> addr \<Rightarrow> addr set \<Rightarrow> bool" where
  "writes_within m c B \<longleftrightarrow> (\<forall>wa. page_aligned wa \<longrightarrow> bit (lookup_page m c wa) 0
     \<and> (bit (lookup_page m c wa) 1 \<longrightarrow> page_base (lookup_page m c wa) \<in> B))"

lemma writes_within_pages:
  assumes "writes_within m c B"
  shows "user_pages m (directory_entry m c) \<subseteq> B"
proof
  fix x assume "x \<in> user_pages m (directory_entry m c)"
  then obtain pa va where pa: "x = page_base pa" "user_target m (directory_entry m c) va = Some pa" by (auto simp: user_pages_def)
  let ?e = "lookup_page m c (page_base va)"
  have "bit ?e 1" "pa = page_base ?e + (va AND 0xFFF)"
    using pa(2) by (auto simp: user_target_def Let_def paging_get_table_entry_eq page_base_def [symmetric] split: if_splits)
  moreover have "page_base (page_base ?e + (va AND 0xFFF)) = page_base ?e" by (rule page_base_in_page) simp_all
  ultimately show "x \<in> B" using assms pa(1) by (auto simp: writes_within_def)
qed

lemma writes_within_present:
  "writes_within m c B \<Longrightarrow> present_tables m (directory_entry m c) \<Longrightarrow> all_present m c"
  by (simp add: all_present_eq writes_within_def)

lemma fresh_task_within:
  assumes "identity_mapped m (directory_entry m c) (PAGING_IS_PRESENT OR PAGING_ACCESS_BY_ALL)"
  shows "writes_within m c {}"
  unfolding writes_within_def
proof (intro allI impI)
  fix wa :: addr assume "page_aligned wa"
  then have "lookup_page m c wa = page_base wa OR ucast (PAGING_IS_PRESENT OR PAGING_ACCESS_BY_ALL)"
    using assms unfolding identity_mapped_def by (metis page_base_aligned)
  then show "bit (lookup_page m c wa) 0 \<and> (bit (lookup_page m c wa) 1 \<longrightarrow> page_base (lookup_page m c wa) \<in> {})"
    using page_base_bit [of 1 wa] by (simp add: bit_or_iff PAGING_IS_PRESENT_def PAGING_ACCESS_BY_ALL_def)
qed

lemma in_blocks_offset:
  assumes "s + n \<le> 25600" "page_aligned p" "page_aligned d" "unat (p - heap_blk s) + unat d < 4096 * n"
  shows "page_base (p + d) \<in> blocks s n"
proof (rule in_blocks [OF assms(1)])
  define w where "w = p - heap_blk s"
  have e: "p + d - heap_blk s = w + d" by (simp add: w_def)
  have "unat (w + d) \<le> unat w + unat d" by (simp add: unat_word_ariths(1))
  then show "unat (p + d - heap_blk s) < 4096 * n" unfolding e using assms(4) by (simp flip: w_def)
qed

text \<open>The pages of a segment lie in the blocks that hold the file.\<close>

lemma seg_entry_in_blocks:
  assumes f: "ef_memory f = heap_blk b" "b + n \<le> 25600" "0 < n" and p: "unat (p_offset p) + unat (p_filesz p) \<le> 4096 * n"
    and wa: "page_aligned wa" "seg_covers f p wa"
  shows "page_base (seg_entry f p wa) \<in> blocks b n" "bit (seg_entry f p wa) 0"
proof -
  let ?e = "seg_base f p + p_filesz p" and ?d = "wa - page_base (p_vaddr p)"
  have arith: "y + x < 4096 * n" if "x < 16777216 + 4096 * b + 4096 * n - q" "y = q - h" "h = 16777216 + 4096 * b" "h \<le> q"
    for x y q h :: nat using that by simp
  have b: "unat (heap_blk b) = 16777216 + 4096 * b" using f(2,3) by (simp add: unat_heap_blk)
  have fit: "seg_fits f p" using p f b by (simp add: seg_fits_def)
  note u = seg_fits_unat [OF fit]
  have d: "page_aligned ?d" using wa(1) by (intro page_aligned_minus) simp_all
  have e: "unat ?e = 16777216 + 4096 * b + unat (p_offset p) + unat (p_filesz p)" using u f(1) b by simp
  moreover have "unat ?e + 4095 < (4096 + b + n + 1) * 4096" using e p by simp
  from less_mult_imp_div_less [OF this] have "(unat ?e + 4095) div 4096 \<le> 4096 + b + n" by simp
  ultimately have al: "unat (paging_align_address ?e) \<le> 16777216 + 4096 * b + 4096 * n" "?e \<le> paging_align_address ?e"
    using paging_align_address_eq(1,3) [of ?e] p f(2) by simp_all
  have sb: "unat (page_base (seg_base f p)) = 16777216 + 4096 * (b + unat (p_offset p) div 4096)"
  proof -
    have "unat (seg_base f p) = unat (p_offset p) + (4096 + b) * 4096" using u(1) f(1) b by simp
    then have "unat (seg_base f p) div 4096 = 4096 + b + unat (p_offset p) div 4096" by simp
    then show ?thesis by (simp add: unat_page_base)
  qed
  have "unat ?d < unat (paging_align_address ?e - page_base (seg_base f p))"
    using wa(2) by (simp add: seg_covers_def word_less_nat_alt)
  also have "\<dots> = unat (paging_align_address ?e) - unat (page_base (seg_base f p))"
  proof (rule unat_sub)
    have "unat (page_base (seg_base f p)) \<le> unat ?e" using u(2) by (simp add: unat_page_base)
    then show "page_base (seg_base f p) \<le> paging_align_address ?e" using al(2) by (simp add: word_le_nat_alt)
  qed
  finally have "unat ?d < 16777216 + 4096 * b + 4096 * n - unat (page_base (seg_base f p))" using al(1) by linarith
  moreover have "unat (page_base (seg_base f p) - heap_blk b) = unat (page_base (seg_base f p)) - unat (heap_blk b)"
    by (rule unat_sub) (use sb b in \<open>simp add: word_le_nat_alt\<close>)
  ultimately have "unat (page_base (seg_base f p) - heap_blk b) + unat ?d < 4096 * n"
    by (rule arith) (use sb b in simp_all)
  then have in_b: "page_base (page_base (seg_base f p) + ?d) \<in> blocks b n"
    using in_blocks_offset [OF f(2) _ d] by simp
  obtain fl :: byte where fl: "segment_flags p = ucast fl" using segment_flags_byte by blast
  have "page_aligned (page_base (seg_base f p) + ?d)" using d by (intro page_aligned_add) simp_all
  then show "page_base (seg_entry f p wa) \<in> blocks b n"
    using in_b by (simp add: seg_entry_def fl page_base_flags page_base_aligned)
  show "bit (seg_entry f p wa) 0" using segment_flags_bits(1) by (simp add: seg_entry_def bit_or_iff)
qed

lemma mapped_entry_cases:
  assumes "P e" "\<And>p. p \<in> set ps \<Longrightarrow> seg_covers f p wa \<Longrightarrow> P (seg_entry f p wa)"
  shows "P (mapped_entry f ps wa e)"
  using assms unfolding mapped_entry_def by (induction ps arbitrary: e) auto

text \<open>Mapping the image.\<close>

lemma elf_mapped_within:
  assumes ep: "elf_process k a f c" and w: "writes_within (ram_of k) c B"
    and f: "ef_memory f = heap_blk b" "b + n \<le> 25600" "0 < n"
    and segs: "\<forall>p\<in>set (program_headers (ram_of k) f). unat (p_offset p) + unat (p_filesz p) \<le> 4096 * n"
  obtains m where "process_map_elf k a = Some (0, set_ram k m)" "wf_chunk m c" "tables_only (ram_of k) c m"
    "writes_within m c (B \<union> blocks b n)"
    "\<And>wa. page_aligned wa \<Longrightarrow> lookup_page m c wa = mapped_entry f (program_headers (ram_of k) f) wa (lookup_page (ram_of k) c wa)"
proof -
  obtain m where m: "process_map_elf k a = Some (0, set_ram k m)" "wf_chunk m c" "tables_only (ram_of k) c m"
    and look: "\<And>wa. page_aligned wa \<Longrightarrow> lookup_page m c wa = mapped_entry f (program_headers (ram_of k) f) wa (lookup_page (ram_of k) c wa)"
    using process_map_elf_ok [OF ep] by blast
  have "bit (lookup_page m c wa) 0 \<and> (bit (lookup_page m c wa) 1 \<longrightarrow> page_base (lookup_page m c wa) \<in> B \<union> blocks b n)"
    if wa: "page_aligned wa" for wa
    unfolding look [OF wa]
  proof (rule mapped_entry_cases)
    show "bit (lookup_page (ram_of k) c wa) 0 \<and> (bit (lookup_page (ram_of k) c wa) 1 \<longrightarrow> page_base (lookup_page (ram_of k) c wa) \<in> B \<union> blocks b n)"
      using w wa by (simp add: writes_within_def)
    fix p assume "p \<in> set (program_headers (ram_of k) f)" "seg_covers f p wa"
    with segs seg_entry_in_blocks [OF f _ wa] show "bit (seg_entry f p wa) 0
        \<and> (bit (seg_entry f p wa) 1 \<longrightarrow> page_base (seg_entry f p wa) \<in> B \<union> blocks b n)" by blast
  qed
  then show thesis using that m look by (simp add: writes_within_def)
qed

text \<open>Mapping the stack.\<close>

lemma task_flags_byte: "task_flags = ucast (7 :: byte)"
  by (simp add: task_flags_def PAGING_IS_PRESENT_def PAGING_ACCESS_BY_ALL_def PAGING_IS_WRITABLE_def)

lemma stack_mapped_within:
  assumes wf: "wf_chunk m c" and w: "writes_within m c B" and s: "s + 4 \<le> 25600"
  obtains m' where "paging_map_to m c RASOS_PROGRAM_VIRTUAL_STACK_ADDRESS_TOP (heap_blk s)
      (paging_align_address (heap_blk s + RASOS_USER_PROGRAM_STACK_SIZE)) task_flags = (0, m')"
    "wf_chunk m' c" "tables_only m c m'" "writes_within m' c (B \<union> blocks s 4)"
    "\<And>wa. page_aligned wa \<Longrightarrow> lookup_page m' c wa =
       (if wa - 0x3FB000 < 0x4000 then (heap_blk s + (wa - 0x3FB000)) OR 7 else lookup_page m c wa)"
proof -
  have top: "RASOS_PROGRAM_VIRTUAL_STACK_ADDRESS_TOP = 0x3FB000" "RASOS_USER_PROGRAM_STACK_SIZE = 0x4000"
    by (simp_all add: RASOS_PROGRAM_VIRTUAL_STACK_ADDRESS_TOP_def RASOS_PROGRAM_VIRTUAL_STACK_ADDRESS_BOTTOM_def
        RASOS_USER_PROGRAM_STACK_SIZE_def)
  have b: "unat (heap_blk s) = 16777216 + 4096 * s" using s by (simp add: unat_heap_blk)
  have e: "unat (heap_blk s + 0x4000) = 16777216 + 4096 * s + 16384" using b s by (simp add: unat_word_ariths(1))
  have "unat (paging_align_address (heap_blk s + 0x4000)) = unat (heap_blk s + 0x4000)"
    using paging_align_address_eq(1) [of "heap_blk s + 0x4000"] e s by simp
  then have pe: "paging_align_address (heap_blk s + 0x4000) = heap_blk s + 0x4000" by (simp add: word_unat_eq_iff)
  have al: "page_aligned (0x3FB000 :: addr)" "page_aligned (heap_blk s)" "page_aligned (heap_blk s + 0x4000)"
    using b e by (simp_all add: page_aligned_unat)
  have le: "heap_blk s \<le> heap_blk s + 0x4000" using b e by (simp add: word_le_nat_alt)
  from paging_map_to_ok [OF wf al le, of task_flags] obtain m' where
    m': "paging_map_to m c 0x3FB000 (heap_blk s) (heap_blk s + 0x4000) task_flags = (0, m')" "wf_chunk m' c" "tables_only m c m'"
    and look: "\<And>wa. page_aligned wa \<Longrightarrow> lookup_page m' c wa =
       (if wa - 0x3FB000 < 0x4000 then (heap_blk s + (wa - 0x3FB000)) OR 7 else lookup_page m c wa)"
    by (auto simp: task_flags_byte)
  have "bit (lookup_page m' c wa) 0 \<and> (bit (lookup_page m' c wa) 1 \<longrightarrow> page_base (lookup_page m' c wa) \<in> B \<union> blocks s 4)"
    if wa: "page_aligned wa" for wa
  proof (cases "wa - 0x3FB000 < 0x4000")
    case True
    have d: "page_aligned (wa - 0x3FB000)" by (rule page_aligned_minus [OF wa al(1)])
    have "unat (wa - 0x3FB000) < 16384" using True by (simp add: word_less_nat_alt)
    then have "page_base (heap_blk s + (wa - 0x3FB000)) \<in> blocks s 4"
      by (intro in_blocks_offset [OF s al(2) d]) simp
    moreover have "page_aligned (heap_blk s + (wa - 0x3FB000))" by (rule page_aligned_add [OF al(2) d])
    ultimately show ?thesis
      using True look [OF wa] page_base_flags [of "heap_blk s + (wa - 0x3FB000)" 7]
      by (simp add: page_base_aligned bit_or_iff)
  qed (use look [OF wa] w wa in \<open>simp add: writes_within_def\<close>)
  then show thesis using that m' look by (simp add: writes_within_def top pe)
qed


section \<open>The process before its image is mapped\<close>

text \<open>The blocks of the file and of the stack.\<close>

abbreviation file_blocks :: "nat \<Rightarrow> cbuf \<Rightarrow> addr set" where
  "file_blocks b bytes \<equiv> blocks b (nblocks (of_nat (length bytes)))"

definition process_made :: "'d kernel \<Rightarrow> addr \<Rightarrow> addr \<Rightarrow> addr \<Rightarrow> elf_file \<Rightarrow> nat \<Rightarrow> nat \<Rightarrow> cbuf \<Rightarrow> bool" where
  "process_made k process n c f b stack bytes \<longleftrightarrow> kheap_ok (kmem_of k) \<and> 0 < kheap_avail (kmem_of k)
     \<and> fresh_task k n process (e_entry (elf_header_at (file_ram bytes) 0)) c
     \<and> task_list k [n] \<and> current_task k = n \<and> n \<noteq> 0
     \<and> (\<exists>p. process_store k process = Some p \<and> elf_files k (proc_ptr p) = Some f \<and> filetype p = PROCESS_FILETYPE_ELF
          \<and> proc_task p = n \<and> proc_stack p = heap_blk stack)
     \<and> ef_memory f = heap_blk b \<and> holds_file (ram_of k) (heap_blk b) bytes
     \<and> {n, process, kernel_chunk k} \<union> file_blocks b bytes \<union> blocks stack 4 \<subseteq> kheap_used (kmem_of k)
     \<and> (insert (kernel_chunk k) (file_blocks b bytes \<union> blocks stack 4)) \<inter> chunk_pages (ram_of k) c = {}
     \<and> b + nblocks (of_nat (length bytes)) \<le> 25600 \<and> stack + 4 \<le> 25600"

text \<open>What neither loading nor adding a task touches.\<close>

definition devices_of :: "'d kernel \<Rightarrow> _" where
  "devices_of k = (console k, paging_enabled k, gdt_real k, tss_segment k, idt_descriptors k, idtr_descriptor k,
     interrupt_callbacks k, isr80h_commands k, keyboards k, kernel_chunk k)"

lemma devices_of_simps [simp]:
  "devices_of (set_kmem k m) = devices_of k" "devices_of (set_ram k r) = devices_of k"
  "devices_of (put_task k a t) = devices_of k" "devices_of (put_process k a p) = devices_of k"
  "devices_of (k\<lparr>task_head := h\<rparr>) = devices_of k" "devices_of (k\<lparr>task_tail := h\<rparr>) = devices_of k"
  "devices_of (k\<lparr>current_task := h\<rparr>) = devices_of k" "devices_of (k\<lparr>current_process := h\<rparr>) = devices_of k"
  "devices_of (k\<lparr>processes := ps\<rparr>) = devices_of k" "devices_of (k\<lparr>vfs := v\<rparr>) = devices_of k"
  by (simp_all add: devices_of_def set_kmem_def set_ram_def put_task_def put_process_def)

lemma task_devices:
  "task_list_remove k n = Some k' \<Longrightarrow> devices_of k' = devices_of k"
  "task_list_add k n = Some k' \<Longrightarrow> devices_of k' = devices_of k"
  "kernel_free k n = Some k' \<Longrightarrow> devices_of k' = devices_of k"
  "kernel_zalloc k m = Some (n, k') \<Longrightarrow> devices_of k' = devices_of k"
  by (auto simp: task_list_remove_def task_list_add_def kernel_free_def kernel_zalloc_def put_task_def set_kmem_def Let_def devices_of_def split: if_splits bind_splits)

lemma task_free_devices: "task_free k n = Some (r, k') \<Longrightarrow> devices_of k' = devices_of k"
  by (auto simp: task_free_def task_devices(1,3) split: bind_splits dest!: task_devices(1,3))

lemma task_init_devices: "task_init k n p = Some (r, k') \<Longrightarrow> devices_of k' = devices_of k"
  by (auto simp: task_init_def Let_def split: if_splits bind_splits)

lemma task_new_devices:
  assumes "task_new k process = Some (n, k')"
  shows "devices_of k' = devices_of k"
proof -
  obtain a k1 where a: "kernel_zalloc k 64 = Some (a, k1)" using assms by (auto simp: task_new_def split: bind_splits)
  then show ?thesis using assms
    by (auto simp: task_new_def task_devices(4) split: if_splits bind_splits dest!: task_free_devices task_init_devices task_devices(2))
qed

lemma load_for_slot_made:
  assumes ld: "loadable io k s bytes" and slot: "processes k ! nat i = 0" "0 \<le> i" "i < 12"
    and l: "task_head k = 0" and kc: "kernel_chunk k \<in> kheap_used (kmem_of k)"
  obtains process n c f b stack k' where "process_made k' process n c f b stack bytes" "processes k' = processes k" "devices_of k' = devices_of k"
    "load_for_slot_body (fat16_vtable io) k (s @ 0 # r) i = do {
       (res, k') \<leftarrow> process_map_memory k' process;
       if res < 0 then Some (res, Some process, None, k')
       else Some (res, Some process, Some process, k'\<lparr>processes := (processes k')[nat i := process]\<rparr>) }"
proof -
  obtain P k1 k3 stack k4 b f where i: "kernel_zalloc k 5280 = Some (P, k1)" "P \<noteq> 0"
    "process_load_data (fat16_vtable io) (process_init k1 P) (s @ 0 # r) P = Some (0, k3)"
    "kernel_zalloc k3 RASOS_USER_PROGRAM_STACK_SIZE = Some (heap_blk stack, k4)" and img: "image_loaded k4 P stack b f bytes"
    and u: "kheap_used (kmem_of k) \<subseteq> kheap_used (kmem_of k4)" "1028 \<le> kheap_avail (kmem_of k4)"
    and k4: "k4 = k\<lparr>vfs := vfs k4, elf_files := elf_files k4, process_store := process_store k4\<rparr>"
    by (rule load_image_ok [OF ld, of r]) (rule that)
  let ?n = "nblocks (of_nat (length bytes))" and ?h = "elf_header_at (file_ram bytes) 0"
  obtain ef where ef: "process_store k4 P = Some (empty_process\<lparr>filetype := PROCESS_FILETYPE_ELF, proc_ptr := ef\<rparr>)" "elf_files k4 ef = Some f"
    and ok: "kheap_ok (kmem_of k4)" and f: "ef_memory f = heap_blk b" "holds_file (ram_of k4) (heap_blk b) bytes"
    and used: "insert P (file_blocks b bytes \<union> blocks stack 4) \<subseteq> kheap_used (kmem_of k4)"
    and le: "b + ?n \<le> 25600" "stack + 4 \<le> 25600"
    using img by (auto simp: image_loaded_def)
  have im: "elf_image bytes" and len: "length bytes < 2 ^ 31" using ld by (simp_all add: loadable_def on_disk_def)
  let ?p = "empty_process\<lparr>filetype := PROCESS_FILETYPE_ELF, proc_ptr := ef\<rparr>"
  have glob: "task_head k4 = 0" "kernel_chunk k4 = kernel_chunk k" "processes k4 = processes k"
    using l arg_cong [OF k4, of task_head] arg_cong [OF k4, of kernel_chunk] arg_cong [OF k4, of processes] by simp_all
  have tl: "task_list k4 []" by (simp add: task_list_def glob)
  have kept: "holds_file m (heap_blk b) bytes" if "\<And>a. page_base a \<in> kheap_used (kmem_of k4) \<Longrightarrow> m a = ram_of k4 a" for m
    by (rule holds_file_frame [OF f(2) le(1) len]) (use that used in blast)
  have entry: "entry_of k4 m ?p = Some (e_entry ?h)" if "\<And>a. page_base a \<in> kheap_used (kmem_of k4) \<Longrightarrow> m a = ram_of k4 a" for m
    using holds_file_header [OF kept [OF that]] im ef(2) f(1) by (simp add: entry_of_def elf_header_def elf_image_def)
  have av: "1027 \<le> kheap_avail (kmem_of k4)" using u(2) by simp
  have e: "set [] \<subseteq> kheap_used (kmem_of k4)" by simp
  obtain n c k5 where t: "task_new k4 P = Some (n, k5)" "task_list k5 ([] @ [n])" "n \<notin> kheap_used (kmem_of k4)" "n \<noteq> 0"
    "fresh_task k5 n P (e_entry ?h) c" "kheap_ok (kmem_of k5)" "kheap_avail (kmem_of k5) + 1027 = kheap_avail (kmem_of k4)"
    "\<And>x. x \<in> kheap_used (kmem_of k4) \<Longrightarrow> x \<notin> set [] \<Longrightarrow> task_store k5 x = task_store k4 x"
    "current_task k5 = (if [] = ([] :: addr list) then n else current_task k4)"
    "insert n (kheap_used (kmem_of k4)) \<subseteq> kheap_used (kmem_of k5)" "chunk_pages (ram_of k5) c \<inter> kheap_used (kmem_of k4) = {}"
    "\<And>a. page_base a \<in> kheap_used (kmem_of k4) \<Longrightarrow> ram_of k5 a = ram_of k4 a" "n \<notin> chunk_pages (ram_of k5) c"
    "process_store k5 = process_store k4" "elf_files k5 = elf_files k4" "kernel_chunk k5 = kernel_chunk k4" "processes k5 = processes k4"
    by (rule task_new_ok [OF ok av tl e ef(1) entry]) (assumption, rule that)
  have nz: "ERROR_I n \<noteq> 0" using t(4) by (simp add: ERROR_I_def signed_eq_0_iff)
  obtain name where name: "strncpy (replicate 128 0) (s @ 0 # r) 128 = Some name"
    using strncpy_loop_eq [of 127 "replicate 128 0" "s @ 0 # r"] by (simp add: strncpy_def)
  let ?p' = "?p\<lparr>proc_filename := name, proc_stack := heap_blk stack, proc_id := word_of_int i, proc_task := n\<rparr>"
  let ?k6 = "put_process k5 P ?p'"
  have km: "kmem_of ?k6 = kmem_of k5" by (simp add: put_process_def)
  show thesis
  proof (rule that [of ?k6 P n c f b stack])
    show "devices_of ?k6 = devices_of k" using task_new_devices [OF t(1)] arg_cong [OF k4, of devices_of] by (simp add: devices_of_def put_process_def)
    show "processes ?k6 = processes k" by (simp add: put_process_def t(17) glob(3))
    show "load_for_slot_body (fat16_vtable io) k (s @ 0 # r) i = do {
       (res, k') \<leftarrow> process_map_memory ?k6 P;
       if res < 0 then Some (res, Some P, None, k')
       else Some (res, Some P, Some P, k'\<lparr>processes := (processes k')[nat i := P]\<rparr>) }"
      using i slot t(1,14) ef(1) nz name le(2)
      by (simp add: load_for_slot_body_def process_get_def empty_process_def heap_blk_nonzero)
    have kc: "kernel_chunk ?k6 \<in> kheap_used (kmem_of k4)" "current_task ?k6 = n"
      using kc u(1) t(9,16) glob by (auto simp: put_process_def)
    show "process_made ?k6 P n c f b stack bytes"
      unfolding process_made_def km
    proof (intro conjI)
      show "\<exists>p. process_store ?k6 P = Some p \<and> elf_files ?k6 (proc_ptr p) = Some f \<and> filetype p = PROCESS_FILETYPE_ELF
          \<and> proc_task p = n \<and> proc_stack p = heap_blk stack"
        using ef(2) t(15) by (simp add: put_process_def)
      show "task_list ?k6 [n]" using t(2) by (simp add: task_list_def put_process_def)
      show "fresh_task ?k6 n P (e_entry ?h) c" using t(5) by (simp add: fresh_task_def put_process_def)
      show "holds_file (phys (kmem_of k5)) (heap_blk b) bytes" by (rule kept [OF t(12)])
      show "{n, P, kernel_chunk ?k6} \<union> file_blocks b bytes \<union> blocks stack 4 \<subseteq> kheap_used (kmem_of k5)"
        using t(10) used kc(1) by blast
      show "insert (kernel_chunk ?k6) (file_blocks b bytes \<union> blocks stack 4) \<inter> chunk_pages (phys (kmem_of k5)) c = {}"
        using t(11) used kc(1) by blast
      show "0 < kheap_avail (kmem_of k5)" using t(7) u(2) by simp
    qed (rule t(6) kc(2) t(4) f(1) le)+
  qed
qed


section \<open>The bytes of the image\<close>

text \<open>
  The file puts the byte \<open>x\<close> at the virtual address \<open>v\<close>: a program header, whose offset agrees with
  its address modulo the page size, covers \<open>v\<close>, and no later one takes its page.
\<close>

definition image_byte :: "cbuf \<Rightarrow> addr \<Rightarrow> byte \<Rightarrow> bool" where
  "image_byte bytes v x \<longleftrightarrow> (\<exists>us p vs. program_headers (file_ram bytes) empty_elf_file = us @ p # vs
     \<and> p_vaddr p AND 0xFFF = p_offset p AND 0xFFF \<and> unat (v - p_vaddr p) < unat (p_filesz p)
     \<and> (\<forall>q\<in>set vs. \<not> seg_covers empty_elf_file q (page_base v))
     \<and> x = bytes ! (unat (p_offset p) + unat (v - p_vaddr p)))"

lemma paging_align_shift:
  assumes "page_aligned h"
  shows "paging_align_address (h + a) = h + paging_align_address a"
proof -
  have m: "(a :: addr) mod 4096 = a AND 0xFFF" for a
  proof -
    have "a mod 4096 = take_bit 12 a" by (simp add: take_bit_eq_mod)
    then show ?thesis by (simp add: take_bit_eq_mask mask_eq_exp_minus_1)
  qed
  show ?thesis using page_base_shift(2) [OF assms, of a] by (simp add: paging_align_address_def m add.commute)
qed

lemma seg_covers_shift:
  assumes "page_aligned (ef_memory f)"
  shows "seg_covers f p wa = seg_covers empty_elf_file p wa"
proof -
  have b: "seg_base f p = ef_memory f + p_offset p" "seg_base empty_elf_file p = p_offset p"
    by (simp_all add: seg_base_def elf_phdr_phys_address_def elf_memory_def empty_elf_file_def)
  have "page_base (ef_memory f + p_offset p) = ef_memory f + page_base (p_offset p)"
    using page_base_shift(1) [OF assms, of "p_offset p"] by (simp add: add.commute)
  then show ?thesis
    using paging_align_shift [OF assms, of "p_offset p + p_filesz p"]
    by (simp add: seg_covers_def b add.assoc)
qed

section \<open>The process with its image\<close>

lemma process_made_mapped:
  assumes made: "process_made k P n c f b stack bytes" and im: "elf_image bytes" and len: "length bytes < 2 ^ 31"
  obtains m where "process_map_memory k P = Some (0, set_ram k m)" "wf_chunk m c" "tables_only (ram_of k) c m"
    "writes_within m c (file_blocks b bytes)"
    "\<And>wa. page_aligned wa \<Longrightarrow> lookup_page m c wa =
       mapped_entry f (program_headers (file_ram bytes) empty_elf_file) wa (lookup_page (ram_of k) c wa)"
    "\<And>p. p \<in> set (program_headers (file_ram bytes) empty_elf_file) \<Longrightarrow> seg_fits f p"
proof -
  let ?n = "nblocks (of_nat (length bytes))" and ?h = "elf_header_at (file_ram bytes) 0"
  let ?ps = "program_headers (file_ram bytes) empty_elf_file"
  obtain p where p: "process_store k P = Some p" "elf_files k (proc_ptr p) = Some f" "filetype p = PROCESS_FILETYPE_ELF" "proc_task p = n"
    and fr: "fresh_task k n P (e_entry ?h) c" and f: "ef_memory f = heap_blk b" "holds_file (ram_of k) (heap_blk b) bytes"
    and out: "file_blocks b bytes \<inter> chunk_pages (ram_of k) c = {}" and le: "b + ?n \<le> 25600"
    using made unfolding process_made_def by blast
  have n: "length bytes \<le> 4096 * ?n" "unat (of_nat (length bytes) :: u32) = length bytes"
    using unat_le_nblocks [of "of_nat (length bytes)"] len by (simp_all add: unat_of_nat)
  have len0: "52 \<le> length bytes" and segs: "\<forall>p\<in>set ?ps. unat (p_offset p) + unat (p_filesz p) \<le> length bytes"
    and hin: "unat (e_phoff ?h) + 32 * unat (e_phnum ?h) \<le> length bytes" using im by (simp_all add: elf_image_def)
  have n0: "0 < ?n" using n len0 by (cases ?n) auto
  have b: "unat (heap_blk b) = 16777216 + 4096 * b" using le n0 by (simp add: unat_heap_blk)
  note hp = holds_file_program_headers [of "ram_of k" f bytes, OF _ im len, unfolded f(1), OF f(2)]
  have fit: "seg_fits f p" if "p \<in> set ?ps" for p
    using segs that n le b by (fastforce simp: seg_fits_def f(1))
  have apart: "page_base x \<notin> chunk_pages (ram_of k) c" if "unat (x - elf_pheader (ram_of k) (elf_header f)) < 32 * length ?ps" for x
  proof -
    define w where "w = x - elf_pheader (ram_of k) (elf_header f)"
    have "x - heap_blk b = e_phoff ?h + w" by (simp add: w_def hp(3))
    moreover have "unat (e_phoff ?h + w) \<le> unat (e_phoff ?h) + unat w" by (simp add: unat_word_ariths(1))
    moreover have "unat w < 32 * unat (e_phnum ?h)" using that by (simp add: w_def program_headers_def elf_header_def empty_elf_file_def)
    ultimately have "unat (x - heap_blk b) < 4096 * ?n" using hin n by simp
    from in_blocks [OF le this] show ?thesis using out by blast
  qed
  have "elf_process k P f c"
    unfolding elf_process_def hp(4)
    using p fr fit apart by (auto simp: fresh_task_def owns_chunk_def)
  then obtain m where "process_map_elf k P = Some (0, set_ram k m)" "wf_chunk m c" "tables_only (ram_of k) c m"
    "writes_within m c ({} \<union> file_blocks b bytes)"
    "\<And>wa. page_aligned wa \<Longrightarrow> lookup_page m c wa = mapped_entry f (program_headers (ram_of k) f) wa (lookup_page (ram_of k) c wa)"
  proof (rule elf_mapped_within [OF _ _ f(1) le n0])
    show "writes_within (ram_of k) c {}" by (rule fresh_task_within) (use fr in \<open>simp add: fresh_task_def\<close>)
    show "\<forall>p\<in>set (program_headers (ram_of k) f). unat (p_offset p) + unat (p_filesz p) \<le> 4096 * ?n"
      unfolding hp(4) using segs n(1) by fastforce
  qed (rule that)
  then show thesis using that fit p by (simp add: process_map_memory_def hp(4))
qed


lemma program_mapped:
  assumes made: "process_made k P n c f b stack bytes" and im: "elf_image bytes" and len: "length bytes < 2 ^ 31"
  obtains m m' where "process_map_memory k P = Some (0, set_ram k m)"
    "paging_map_to m c RASOS_PROGRAM_VIRTUAL_STACK_ADDRESS_TOP (heap_blk stack)
      (paging_align_address (heap_blk stack + RASOS_USER_PROGRAM_STACK_SIZE)) task_flags = (0, m')"
    "wf_chunk m' c" "tables_only (ram_of k) c m'" "writes_within m' c (file_blocks b bytes \<union> blocks stack 4)"
    "\<And>v x. image_byte bytes v x \<Longrightarrow> \<not> page_base v - 0x3FB000 < 0x4000 \<Longrightarrow> virt_read m' (directory_entry m' c) v = Some x"
    "\<And>va. va - 0x3FB000 < 0x4000 \<Longrightarrow> user_target m' (directory_entry m' c) va \<noteq> None"
proof -
  let ?n = "nblocks (of_nat (length bytes))" and ?h = "elf_header_at (file_ram bytes) 0"
  let ?ps = "program_headers (file_ram bytes) empty_elf_file"
  have f: "ef_memory f = heap_blk b" and hf: "holds_file (ram_of k) (heap_blk b) bytes" and fr: "fresh_task k n P (e_entry ?h) c"
    and out: "file_blocks b bytes \<inter> chunk_pages (ram_of k) c = {}" and le: "b + ?n \<le> 25600" "stack + 4 \<le> 25600"
    using made by (simp_all add: process_made_def) blast+
  obtain m where m: "process_map_memory k P = Some (0, set_ram k m)" "wf_chunk m c" "tables_only (ram_of k) c m"
    "writes_within m c (file_blocks b bytes)"
    and look: "\<And>wa. page_aligned wa \<Longrightarrow> lookup_page m c wa = mapped_entry f ?ps wa (lookup_page (ram_of k) c wa)"
    and fit: "\<And>p. p \<in> set ?ps \<Longrightarrow> seg_fits f p"
    by (rule process_made_mapped [OF made im len]) (rule that)
  obtain m' where m': "paging_map_to m c RASOS_PROGRAM_VIRTUAL_STACK_ADDRESS_TOP (heap_blk stack)
      (paging_align_address (heap_blk stack + RASOS_USER_PROGRAM_STACK_SIZE)) task_flags = (0, m')"
    "wf_chunk m' c" "tables_only m c m'" "writes_within m' c (file_blocks b bytes \<union> blocks stack 4)"
    and look': "\<And>wa. page_aligned wa \<Longrightarrow> lookup_page m' c wa =
       (if wa - 0x3FB000 < 0x4000 then (heap_blk stack + (wa - 0x3FB000)) OR 7 else lookup_page m c wa)"
    by (rule stack_mapped_within [OF m(2,4) le(2)]) (rule that)
  have t: "tables_only (ram_of k) c m'" by (rule tables_only_trans [OF m(3) m'(3)])
  have pt: "present_tables m' (directory_entry m' c)" "user_tables m' (directory_entry m' c)"
    using tables_only_present [OF t] tables_only_user [OF t] fr by (simp_all add: fresh_task_def)
  have h': "holds_file m' (heap_blk b) bytes"
    by (rule holds_file_frame [OF hf le(1) len]) (use tables_only_pages(2) [OF t] out in blast)
  show thesis
  proof (rule that [OF m(1) m'(1,2) t m'(4)])
    fix v x assume ib: "image_byte bytes v x" and st: "\<not> page_base v - 0x3FB000 < 0x4000"
    obtain us p vs where p: "?ps = us @ p # vs" "p_vaddr p AND 0xFFF = p_offset p AND 0xFFF" "unat (v - p_vaddr p) < unat (p_filesz p)"
      "\<forall>q\<in>set vs. \<not> seg_covers empty_elf_file q (page_base v)" "x = bytes ! (unat (p_offset p) + unat (v - p_vaddr p))"
      using ib unfolding image_byte_def by blast
    have ha: "page_aligned (ef_memory f)" using le(1) by (simp add: f page_aligned_heap_blk)
    have sb: "seg_base f p = heap_blk b + p_offset p" by (simp add: seg_base_def elf_phdr_phys_address_def elf_memory_def f)
    have al: "p_vaddr p AND 0xFFF = seg_base f p AND 0xFFF"
      using page_base_shift(2) [OF ha, of "p_offset p"] p(2) by (simp add: sb f add.commute)
    have ft: "seg_fits f p" using fit p(1) by simp
    note s = seg_byte [OF ft al p(3)]
    have "lookup_page m' c (page_base v) = seg_entry f p (page_base v)"
      using look' [of "page_base v"] look [of "page_base v"] st mapped_entry_last [OF p(1) s(1)] p(4) by (simp add: seg_covers_shift [OF ha])
    then have tr: "translate m' (directory_entry m' c) v = Some (seg_base f p + (v - p_vaddr p))"
      using s(2,3) by (simp add: translate_eq [OF pt(1)] Let_def)
    have off: "unat (p_offset p + (v - p_vaddr p)) = unat (p_offset p) + unat (v - p_vaddr p)"
      "unat (p_offset p) + unat (v - p_vaddr p) < length bytes"
    proof -
      have "unat (p_offset p) + unat (p_filesz p) \<le> length bytes" using im p(1) by (simp add: elf_image_def)
      then show "unat (p_offset p) + unat (v - p_vaddr p) < length bytes" using p(3) by simp
      then show "unat (p_offset p + (v - p_vaddr p)) = unat (p_offset p) + unat (v - p_vaddr p)"
        using len by (simp add: unat_word_ariths(1))
    qed
    have "m' (heap_blk b + (p_offset p + (v - p_vaddr p))) = x"
      using holds_file_byte [OF h', of "p_offset p + (v - p_vaddr p)"] off p(5) by (simp add: file_ram_def)
    then show "virt_read m' (directory_entry m' c) v = Some x" by (simp add: virt_read_def tr sb add.assoc)
  next
    fix va :: addr assume va: "va - 0x3FB000 < 0x4000"
    define d where "d = va - 0x3FB000"
    have "page_base va = page_base d + 0x3FB000"
      using page_base_shift(1) [of "0x3FB000" d] by (simp add: d_def page_aligned_unat)
    moreover have "page_base d < 0x4000" using va by (simp add: d_def [symmetric] word_less_nat_alt unat_page_base)
    ultimately have "page_base va - 0x3FB000 < 0x4000" by simp
    then have e: "lookup_page m' c (page_base va) = (heap_blk stack + (page_base va - 0x3FB000)) OR 7" using look' [of "page_base va"] by simp
    show "user_target m' (directory_entry m' c) va \<noteq> None"
      using e pt by (simp add: user_target_def paging_get_table_entry_eq page_base_def [symmetric] present_tables_def user_tables_def Let_def bit_or_iff)
  qed
qed


section \<open>The first program\<close>

text \<open>
  The current task runs, cannot get stuck in a system call, finds its image where the file puts it,
  and can write to its stack.
\<close>

definition program_ready :: "'d kernel \<Rightarrow> addr \<Rightarrow> cbuf \<Rightarrow> bool" where
  "program_ready k c bytes \<longleftrightarrow> running k c \<and> alive k c
     \<and> (\<forall>v x. image_byte bytes v x \<and> \<not> page_base v - 0x3FB000 < 0x4000 \<longrightarrow> virt_read (ram_of k) (cr3 (mmu_regs k)) v = Some x)
     \<and> (\<forall>va. va - 0x3FB000 < 0x4000 \<longrightarrow> user_target (ram_of k) (cr3 (mmu_regs k)) va \<noteq> None)"

lemma program_ready_ok:
  assumes made: "process_made k P n c f b stack bytes"
    and m: "wf_chunk m c" "tables_only (ram_of k) c m" "writes_within m c (file_blocks b bytes \<union> blocks stack 4)"
    "\<And>v x. image_byte bytes v x \<Longrightarrow> \<not> page_base v - 0x3FB000 < 0x4000 \<Longrightarrow> virt_read m (directory_entry m c) v = Some x"
    "\<And>va. va - 0x3FB000 < 0x4000 \<Longrightarrow> user_target m (directory_entry m c) va \<noteq> None"
    and k': "kmem_of k' = (kmem_of k)\<lparr>phys := m\<rparr>" "current_task k' = n" "task_store k' = task_store k" "process_store k' = process_store k"
    "kernel_chunk k' = kernel_chunk k" "cr3 (mmu_regs k') = directory_entry m c"
  shows "program_ready k' c bytes"
proof -
  let ?B = "file_blocks b bytes \<union> blocks stack 4"
  have fr: "fresh_task k n P (e_entry (elf_header_at (file_ram bytes) 0)) c" and ok: "kheap_ok (kmem_of k)" "0 < kheap_avail (kmem_of k)"
    using made by (simp_all add: process_made_def)
  have used: "{n, P, kernel_chunk k} \<union> ?B \<subseteq> kheap_used (kmem_of k)" and out: "insert (kernel_chunk k) ?B \<inter> chunk_pages (ram_of k) c = {}"
    and ps: "\<exists>p. process_store k P = Some p"
    using made unfolding process_made_def by blast+
  obtain t where t: "task_store k n = Some t" "task_process t = P" "page_directory t = c" using fr by (auto simp: fresh_task_def)
  note pg = tables_only_pages(1) [OF m(2)]
  have pt: "present_tables m (directory_entry m c)" using tables_only_present [OF m(2)] fr by (simp add: fresh_task_def)
  have own: "chunk_pages (ram_of k) c \<subseteq> kheap_used (kmem_of k)" using fr by (simp add: fresh_task_def owns_chunk_def)
  have sp: "task_space k' n c"
    using ok(1) used t(1,3) m(1) own pt out by (simp add: task_space_def k' owns_chunk_def pg)
  have "user_pages m (directory_entry m c) \<subseteq> ?B" by (rule writes_within_pages [OF m(3)])
  then have "user_pages m (directory_entry m c) \<inter> (chunk_pages m c \<union> free_pages (kmem_of k)) = {}"
    using used out unfolding pg free_pages_def by blast
  then have "running k' c" using sp k' by (simp add: running_def free_pages_def)
  moreover have "alive k' c"
    using writes_within_present [OF m(3) pt] ok(2) used ps t by (auto simp: alive_def k' runs_process_def)
  ultimately show ?thesis using m(4,5) k' by (simp add: program_ready_def)
qed

lemma program_starts:
  assumes ld: "loadable io k s bytes" and slot: "free_index (processes k) 0 = Some i" "i < 12"
    and l: "task_head k = 0" and kc: "kernel_chunk k \<in> kheap_used (kmem_of k)"
  obtains P k1 k2 c where "process_load_switch (fat16_vtable io) k (s @ 0 # r) = Some (0, Some P, k1)"
    "task_run_first_ever_task k1 = Some (start_registers (e_entry (elf_header_at (file_ram bytes) 0)), k2)"
    "program_ready k2 c bytes" "current_process k2 = P" "processes k2 = (processes k)[i := P]" "devices_of k2 = devices_of k"
proof -
  have im: "elf_image bytes" and len: "length bytes < 2 ^ 31" using ld by (simp_all add: loadable_def on_disk_def)
  have sl: "processes k ! nat (int i) = 0" "0 \<le> int i" "int i < 12" "process_get_free_slot k = int i"
    using slot by (simp_all add: process_get_free_slot_def) (simp add: free_index_Some)
  obtain P n c f b stack k0 where made: "process_made k0 P n c f b stack bytes" and g: "processes k0 = processes k" "devices_of k0 = devices_of k"
    and body: "load_for_slot_body (fat16_vtable io) k (s @ 0 # r) (int i) = do {
       (res, k') \<leftarrow> process_map_memory k0 P;
       if res < 0 then Some (res, Some P, None, k')
       else Some (res, Some P, Some P, k'\<lparr>processes := (processes k')[nat (int i) := P]\<rparr>) }"
    by (rule load_for_slot_made [OF ld sl(1-3) l kc, of r]) (rule that)
  obtain m m' where m: "process_map_memory k0 P = Some (0, set_ram k0 m)"
    "paging_map_to m c RASOS_PROGRAM_VIRTUAL_STACK_ADDRESS_TOP (heap_blk stack)
      (paging_align_address (heap_blk stack + RASOS_USER_PROGRAM_STACK_SIZE)) task_flags = (0, m')"
    "wf_chunk m' c" "tables_only (ram_of k0) c m'" "writes_within m' c (file_blocks b bytes \<union> blocks stack 4)"
    "\<And>v x. image_byte bytes v x \<Longrightarrow> \<not> page_base v - 0x3FB000 < 0x4000 \<Longrightarrow> virt_read m' (directory_entry m' c) v = Some x"
    "\<And>va. va - 0x3FB000 < 0x4000 \<Longrightarrow> user_target m' (directory_entry m' c) va \<noteq> None"
    by (rule program_mapped [OF made im len]) (rule that)
  obtain p where p: "process_store k0 P = Some p" "proc_task p = n" "proc_stack p = heap_blk stack"
    and fr: "fresh_task k0 n P (e_entry (elf_header_at (file_ram bytes) 0)) c" and tl: "task_list k0 [n]" and cur: "current_task k0 = n" "n \<noteq> 0"
    using made by (auto simp: process_made_def)
  obtain t where t: "task_store k0 n = Some t" "page_directory t = c" "regs t = start_registers (e_entry (elf_header_at (file_ram bytes) 0))"
    using fr by (auto simp: fresh_task_def)
  have hd: "task_head k0 = n" using tl by (simp add: task_list_def)
  have c0: "c \<noteq> 0"
    using fr made kheap_used_range(2) [of "kmem_of k0" c] by (auto simp: fresh_task_def owns_chunk_def chunk_pages_def process_made_def)
  let ?k = "(set_ram k0 m)\<lparr>processes := (processes k)[i := P]\<rparr>"
  have slot: "process_load_for_slot (fat16_vtable io) k (s @ 0 # r) (int i) = Some (0, Some P, ?k)"
    using body m(1) g(1) by (simp add: process_load_for_slot_def set_ram_def set_kmem_def)
  let ?k1 = "(set_ram ?k m')\<lparr>current_process := P\<rparr>"
  have load: "process_load_switch (fat16_vtable io) k (s @ 0 # r) = Some (0, Some P, ?k1)"
    using slot sl(4) p t(1,2) m(2) by (simp add: process_load_switch_def process_load_def process_switch_def)
  let ?k2 = "with_pages (?k1\<lparr>current_task := n\<rparr>) (data_segment ?k1) c"
  have run: "task_run_first_ever_task ?k1 = Some (start_registers (e_entry (elf_header_at (file_ram bytes) 0)), ?k2)"
    using cur hd t c0 by (simp add: task_run_first_ever_task_def task_switch_def kernel_paging_switch_def with_pages_def)
  show thesis
  proof (rule that [OF load run])
    show "program_ready ?k2 c bytes"
      by (rule program_ready_ok [OF made m(3-7)]) simp_all
  qed (use g in \<open>simp_all add: with_pages_def devices_of_def set_ram_def set_kmem_def\<close>)
qed

end
