(* ===== verification/KernelMain.thy ===== *)
theory KernelMain
  imports Boot Start
begin

text \<open>
  The whole of \<^verbatim>\<open>kernel_main\<close>: from a disk with a FAT16 volume that holds \<^verbatim>\<open>blank.elf\<close> to the first
  program in user mode.
\<close>

section \<open>A file of the volume\<close>

text \<open>What mounting reads from the volume, apart from the addresses of its objects.\<close>

definition volume_private :: "(nat \<Rightarrow> u16 list) \<Rightarrow> nat \<Rightarrow> fat_private" where
  "volume_private img n = \<lparr>header = boot_header img, root_directory = root_of img (primary_header (boot_header img)) n 0,
     cluster_read_stream = 0, fat_read_stream = 0, directory_stream = 0\<rparr>"

text \<open>
  Among the items of the root directory, item \<open>i\<close> is the only one with this name; it is no
  directory, its clusters are on the disk, and \<open>bytes\<close> is what they hold up to the size of the file.
\<close>

definition volume_entry :: "(nat \<Rightarrow> u16 list) \<Rightarrow> nat \<Rightarrow> cbuf \<Rightarrow> nat \<Rightarrow> cbuf \<Rightarrow> bool" where
  "volume_entry img n name i entry \<longleftrightarrow>
     (let ph = primary_header (boot_header img);
          arr = img_bytes img (512 * root_sector ph) (root_size ph);
          t = used_items img (512 * root_sector ph) n
      in items_ok arr t \<and> i < t \<and> named_item arr name i \<and> (\<forall>j<t. named_item arr name j \<longrightarrow> j = i)
         \<and> entry = take 32 (drop (32 * i) arr))"

definition volume_file :: "(nat \<Rightarrow> u16 list) \<Rightarrow> nat \<Rightarrow> cbuf \<Rightarrow> cbuf \<Rightarrow> bool" where
  "volume_file img n name bytes \<longleftrightarrow> 0 < length bytes \<and> length bytes < 2 ^ 31 \<and> 0 < cluster_size (volume_private img n)
     \<and> (\<exists>i entry. volume_entry img n name i entry
        \<and> attribute (item_of_bytes entry) AND FAT_FILE_SUBDIRECTORY = 0 \<and> first_cluster entry < 65536
        \<and> filesize (item_of_bytes entry) = of_nat (length bytes)
        \<and> file_extent img (volume_private img n) (first_cluster entry) (length bytes)
        \<and> bytes = file_bytes img (volume_private img n) (first_cluster entry) 0 (length bytes))"

lemma volume_private_same:
  assumes "header priv = boot_header img" "root_directory priv = root_of img (primary_header (boot_header img)) n p"
  shows "cluster_size priv = cluster_size (volume_private img n)"
    "file_extent img priv = file_extent img (volume_private img n)" "file_bytes img priv = file_bytes img (volume_private img n)"
proof -
  let ?v = "volume_private img n"
  show s: "cluster_size priv = cluster_size ?v" using assms(1) by (simp add: cluster_size_def volume_private_def)
  have e: "fat_entry img priv = fat_entry img ?v" using assms(1) by (simp add: fun_eq_iff fat_entry_def volume_private_def)
  have c: "chain img priv m c = chain img ?v m c" for m c
    by (induction m arbitrary: c) (simp_all add: e Let_def)
  have p: "cluster_pos priv = cluster_pos ?v" using assms by (simp add: fun_eq_iff cluster_pos_def volume_private_def root_of_def)
  have o: "cluster_ok priv = cluster_ok ?v" by (simp add: fun_eq_iff cluster_ok_def p s)
  show "file_extent img priv = file_extent img ?v" by (intro ext) (unfold file_extent_def c s o, rule refl)
  show "file_bytes img priv = file_bytes img ?v" by (intro ext) (unfold file_bytes_def file_byte_def c s p, rule refl)
qed

lemma volume_on_disk:
  assumes vf: "volume_file img n name bytes" and m: "mounted io img pend priv (lower v)"
    and v: "disk_filesystem (the_disk (lower v)) = Some Fat16_fs" "header priv = boot_header img"
      "root_directory priv = root_of img (primary_header (boot_header img)) n p" "p \<in> fs_used (lower v)"
      "item_arrays (lower v) p = Some (img_bytes img (512 * root_sector (primary_header (boot_header img)))
         (root_size (primary_header (boot_header img))))"
    and s: "0 \<notin> set s" "valid_path s" "s ! 0 = 48" "components (drop 3 s) = [name]"
  shows "on_disk io v s bytes"
proof -
  note same = volume_private_same [OF v(2,3)]
  obtain i entry where e: "volume_entry img n name i entry"
    "attribute (item_of_bytes entry) AND FAT_FILE_SUBDIRECTORY = 0" "first_cluster entry < 65536"
    "filesize (item_of_bytes entry) = of_nat (length bytes)"
    "file_extent img priv (first_cluster entry) (length bytes)"
    "bytes = file_bytes img priv (first_cluster entry) 0 (length bytes)"
    using vf unfolding volume_file_def same by blast
  have "private_of (lower v) = Some priv" using m by (simp add: mounted_def)
  then have "root_file (lower v) name i entry"
    unfolding root_file_def using e(1) v by (intro exI [of _ priv]) (simp add: volume_entry_def root_of_def Let_def)
  moreover have "0 < cluster_size priv" "0 < length bytes" "length bytes < 2 ^ 31" using vf by (simp_all add: volume_file_def same(1))
  ultimately show ?thesis
    unfolding on_disk_def using e(2-5) m v(1) s e(6) [symmetric]
    by (intro conjI exI [of _ img] exI [of _ pend] exI [of _ priv] exI [of _ name] exI [of _ i] exI [of _ entry]) simp_all
qed

section \<open>\<^verbatim>\<open>kernel_main\<close>\<close>

definition blank_name :: cbuf where
  "blank_name = map of_char ''blank.elf''"

lemma blank_path:
  fixes s :: cbuf
  defines "s \<equiv> map of_char ''0:/blank.elf''"
  shows "c_string ''0:/blank.elf'' = s @ 0 # []" "0 \<notin> set s" "valid_path s" "s ! 0 = 48" "components (drop 3 s) = [blank_name]"
proof -
  show "c_string ''0:/blank.elf'' = s @ 0 # []" by (simp add: c_string_def s_def)
  show "0 \<notin> set s" "valid_path s" "s ! 0 = 48" by (simp_all add: s_def) code_simp+
  show "components (drop 3 s) = [blank_name]"
    unfolding s_def blank_name_def by (simp add: components.simps Let_def)
qed

text \<open>The statics of the kernel that the loader of the kernel zeroes.\<close>

definition zeroed :: "'d kernel \<Rightarrow> bool" where
  "zeroed k \<longleftrightarrow> isr80h_commands k = replicate 1024 None \<and> interrupt_callbacks k = replicate 512 None
     \<and> task_head k = 0 \<and> processes k = replicate 12 0"

lemma on_disk_dev:
  assumes "on_disk io v s bytes"
  shows "on_disk io (v\<lparr>lower := (lower v)\<lparr>fs_dev := d\<rparr>\<rparr>) s bytes"
proof -
  have "root_file ((lower v)\<lparr>fs_dev := d\<rparr>) name i e = root_file (lower v) name i e" for name i e
    by (simp add: root_file_def private_of_def fs_used_def)
  moreover have "mounted io img pend priv (lower v) \<Longrightarrow> mounted io img pend priv ((lower v)\<lparr>fs_dev := d\<rparr>)" for img pend priv
    by (rule mounted_cong(2))
  ultimately show ?thesis using assms unfolding on_disk_def by simp blast
qed

text \<open>After the heap and the file system are up, the file is on the mounted disk and the heap is nearly empty.\<close>

lemma kernel_memory_ready:
  assumes io: "drive_serves io img pend" and vol: "fat16_volume img n" and vf: "volume_file img n name bytes"
    and s: "0 \<notin> set s" "valid_path s" "s ! 0 = 48" "components (drop 3 s) = [name]"
  obtains k' a where "kernel_init_memory (fat16_vtable io) addrs k = Some k'" "on_disk io (vfs k') s bytes" "vfs_ok (vfs k')"
    "file_descriptors (vfs k') = replicate 512 0" "kheap_avail (kmem_of k') = 25595" "free_blocks (kmem_of k') a 4266"
    "isr80h_commands k' = isr80h_commands k" "interrupt_callbacks k' = interrupt_callbacks k"
    "task_head k' = task_head k" "processes k' = processes k"
proof -
  let ?ph = "primary_header (boot_header img)"
  obtain k1 priv p where k1: "kernel_init_memory (fat16_vtable io) addrs k = Some k1" "mounted io img pend priv (lower (vfs k1))"
    "disk_filesystem (the_disk (lower (vfs k1))) = Some Fat16_fs" "header priv = boot_header img"
    "root_directory priv = root_of img ?ph n p" "p \<in> kheap_used (kmem_of k1)"
    "item_arrays (lower (vfs k1)) p = Some (img_bytes img (512 * root_sector ?ph) (root_size ?ph))"
    "vfs_ok (vfs k1)" "file_descriptors (vfs k1) = replicate 512 0" "kheap_avail (kmem_of k1) = 25595"
    "isr80h_commands k1 = isr80h_commands k" "interrupt_callbacks k1 = interrupt_callbacks k"
    "task_head k1 = task_head k" "processes k1 = processes k"
    by (rule kernel_init_memory_ok [OF io vol]) (rule that)
  have ok1: "kheap_ok (kmem_of k1)" using k1(8) by (simp add: vfs_ok_def fs_ok_def)
  obtain a where a: "free_blocks (kmem_of k1) a 4266"
  proof (rule free_blocks_remain [of "boot_kmem (\<lambda>_. 0)" "kmem_of k1" 5 0 4266])
    show "free_blocks (boot_kmem (\<lambda>_. 0)) 0 (Suc 5 * 4266)" by (simp add: free_blocks_def)
  qed (use ok1 k1(10) in simp_all)
  have "on_disk io (vfs k1) s bytes"
    by (rule volume_on_disk [OF vf k1(2,3,4,5) _ k1(7) s]) (use k1(6) in \<open>simp add: fs_used_def\<close>)
  with that [OF k1(1) _ k1(8-10) a k1(11-14)] show thesis .
qed

lemma kernel_main_ok:
  assumes io: "drive_serves io img pend" and vol: "fat16_volume img n" and vf: "volume_file img n blank_name bytes"
    and elf: "elf_image bytes" "length bytes \<le> 483328" and z: "zeroed k"
  obtains k' c where "kernel_main io addrs k = Some (start_registers (e_entry (elf_header_at (file_ram bytes) 0)), k')"
    "program_ready k' c bytes" "handlers_up addrs k'"
proof -
  let ?s = "map of_char ''0:/blank.elf'' :: cbuf" and ?n = "nblocks (of_nat (length bytes))"
  obtain k1 a where k1: "kernel_init_memory (fat16_vtable io) addrs k = Some k1" "on_disk io (vfs k1) ?s bytes" "vfs_ok (vfs k1)"
    "file_descriptors (vfs k1) = replicate 512 0" "kheap_avail (kmem_of k1) = 25595" "free_blocks (kmem_of k1) a 4266"
    "isr80h_commands k1 = isr80h_commands k" "interrupt_callbacks k1 = interrupt_callbacks k"
    "task_head k1 = task_head k" "processes k1 = processes k"
    by (rule kernel_memory_ready [OF io vol vf blank_path(2-5)]) (rule that)
  have ok1: "kheap_ok (kmem_of k1)" using k1(3) by (simp add: vfs_ok_def fs_ok_def)
  have z1: "isr80h_commands k1 = replicate 1024 None" "interrupt_callbacks k1 = replicate 512 None" "1026 \<le> kheap_avail (kmem_of k1)"
    using z k1(5,7,8) by (simp_all add: zeroed_def)
  obtain k2 where k2: "kernel_init_devices io addrs k1 = Some k2" "devices_up addrs k2"
    "kheap_avail (kmem_of k2) + 1026 = kheap_avail (kmem_of k1)" "kheap_used (kmem_of k1) \<subseteq> kheap_used (kmem_of k2)"
    "console k2 = console k1" "task_head k2 = task_head k1" "processes k2 = processes k1"
    "\<exists>d m. vfs k2 = (vfs k1)\<lparr>lower := (lower (vfs k1))\<lparr>fs_kmem := m, fs_dev := d\<rparr>\<rparr>"
    "\<And>a n. free_blocks (kmem_of k1) a (1026 + n) \<Longrightarrow> free_blocks (kmem_of k2) (a + 1026) n"
    by (rule kernel_init_devices_ok [OF ok1 z1(3,1,2)]) (rule that)
  obtain d m where dm: "vfs k2 = (vfs k1)\<lparr>lower := (lower (vfs k1))\<lparr>fs_kmem := m, fs_dev := d\<rparr>\<rparr>" using k2(8) by blast
  have ok2: "kheap_ok m" "kernel_chunk k2 \<in> kheap_used (kmem_of k2)" "handlers_up addrs k2"
    using k2(2) dm by (simp_all add: devices_up_def owns_chunk_def chunk_pages_def)
  have len: "length bytes < 2 ^ 31" using vf by (simp add: volume_file_def)
  have nb: "?n \<le> 118"
  proof -
    have "unat (of_nat (length bytes) :: u32) = length bytes" using len by (simp add: unat_of_nat)
    moreover have "length bytes + 4095 < 119 * 4096" using elf(2) by simp
    from less_mult_imp_div_less [OF this] have "(length bytes + 4095) div 4096 \<le> 118" by simp
    ultimately show ?thesis by (simp add: nblocks_eq)
  qed
  have v2: "vfs_ok (vfs k2)"
    unfolding dm by (rule vfs_ok_lower [OF k1(3)]) (use ok2(1) k2(4) dm in \<open>simp_all add: fs_ok_def fs_used_def\<close>)
  have disk: "on_disk io (vfs k2) ?s bytes"
    using on_disk_dev [OF on_disk_heap [OF k1(2), of m], of d] k2(4) by (simp add: dm fs_used_def)
  have "free_blocks (kmem_of k2) (a + 1026) 3240" using k2(9) [of a 3240] k1(6) by simp
  from free_blocks_part [OF this, of "27 * ?n + 28"] have "load_room (kmem_of k2) ?n"
    using nb k2(3) k1(5) by (auto simp: load_room_def)
  then have ld: "loadable io k2 ?s bytes"
    using disk elf(1) v2 k1(4) by (auto simp: loadable_def dm free_index_Some intro!: exI [of _ "0 :: nat"])
  have fi: "free_index (processes k2) 0 = Some 0" using z k1(10) k2(7) by (simp add: zeroed_def free_index_Some)
  have hd: "task_head k2 = 0" using z k1(9) k2(6) by (simp add: zeroed_def)
  obtain P k3 k4 c where st: "process_load_switch (fat16_vtable io) k2 (?s @ 0 # []) = Some (0, Some P, k3)"
    "task_run_first_ever_task k3 = Some (start_registers (e_entry (elf_header_at (file_ram bytes) 0)), k4)"
    "program_ready k4 c bytes" "current_process k4 = P" "processes k4 = (processes k2)[0 := P]" "devices_of k4 = devices_of k2"
    by (rule program_starts [OF ld fi _ hd ok2(2), where r = "[]"]) (simp, rule that)
  have "kernel_main io addrs k = Some (start_registers (e_entry (elf_header_at (file_ram bytes) 0)), k4)"
    using k1(1) k2(1) st(1,2) by (simp add: kernel_main_def blank_path(1))
  moreover have "handlers_up addrs k4" using ok2(3) st(6) by (simp add: handlers_up_def devices_of_def)
  ultimately show thesis using that st(3) by blast
qed

end
