(* ===== verification/Example.thy ===== *)
theory Example
  imports Vfs
begin

text \<open>
  A concrete machine on which the theorems can be instantiated: a drive in PIO mode, a small
  FAT16 volume with one file, kernel heaps with the first blocks taken, and the state of a
  kernel that has mounted the volume and opened the file.
\<close>

section \<open>A drive\<close>

text \<open>The device state: the registers written, and the words still to be delivered.\<close>

type_synonym drive = "(u16 \<Rightarrow> byte) \<times> u16 list"

definition reg_lba :: "(u16 \<Rightarrow> byte) \<Rightarrow> nat" where
  "reg_lba r = unat (r 0x1F3) + 256 * unat (r 0x1F4) + 65536 * unat (r 0x1F5) + 16777216 * (unat (r 0x1F6) mod 16)"

definition pio_drive :: "(nat \<Rightarrow> u16 list) \<Rightarrow> drive ports" where
  "pio_drive img = \<lparr>
     outb = (\<lambda>p v (r, q). let r = r(p := v) in
       (r, if p = 0x1F7 \<and> v = 0x20
           then concat (map img [reg_lba r..<reg_lba r + unat (r 0x1F2)]) else q)),
     insb = (\<lambda>p d. (0x08, d)),
     insw = (\<lambda>p (r, q). case q of [] \<Rightarrow> (0, (r, [])) | w # ws \<Rightarrow> (w, (r, ws)))\<rparr>"

lemma unat_low_byte: "unat (ucast (w :: u32) :: byte) = unat w mod 256"
  by (simp add: unsigned_ucast_eq take_bit_eq_mod)

lemma reg_lba_issue:
  assumes "lba < 2 ^ 28" "n < 256"
  shows "snd (issue_read (pio_drive img) (word_of_nat lba) (int n) d) = concat (map img [lba..<lba + n])"
proof -
  let ?w = "word_of_nat lba :: u32"
  have w: "unat ?w = lba" using assms(1) by (simp add: unat_of_nat)
  have a: "unat (ucast (?w AND 0xFF) :: byte) = lba mod 256"
  proof -
    have m: "?w AND 0xFF = take_bit 8 ?w" by (simp add: take_bit_eq_mask mask_eq_exp_minus_1)
    have "unat (take_bit 8 ?w) = take_bit 8 lba" by (simp only: unsigned_take_bit_eq w)
    then show ?thesis unfolding m unat_low_byte by (simp add: take_bit_eq_mod)
  qed
  have b: "unat (ucast (drop_bit 8 ?w) :: byte) = lba div 256 mod 256"
    by (simp only: unat_low_byte unat_drop_bit_eq w) (simp add: drop_bit_eq_div)
  have c: "unat (ucast (drop_bit 16 ?w) :: byte) = lba div 65536 mod 256"
    by (simp only: unat_low_byte unat_drop_bit_eq w) (simp add: drop_bit_eq_div)
  have e: "unat (ucast (drop_bit 24 ?w OR 0xE0) :: byte) mod 16 = lba div 16777216"
  proof -
    have "take_bit 4 (ucast (drop_bit 24 ?w OR 0xE0) :: byte) = take_bit 4 (ucast (drop_bit 24 ?w))"
    proof -
      have m: "(0xE0 :: u32) = push_bit 5 (mask 3)" by (simp add: mask_eq_exp_minus_1)
      show ?thesis unfolding m by (rule bit_word_eqI) (auto simp: bit_simps)
    qed
    then have "unat (take_bit 4 (ucast (drop_bit 24 ?w OR 0xE0) :: byte)) = unat (take_bit 4 (ucast (drop_bit 24 ?w) :: byte))"
      by simp
    then have "unat (ucast (drop_bit 24 ?w OR 0xE0) :: byte) mod 16 = unat (ucast (drop_bit 24 ?w) :: byte) mod 16"
      by (simp add: take_bit_eq_mod unat_mod_distrib)
    also have "\<dots> = lba div 16777216 mod 256 mod 16"
      by (simp only: unat_low_byte unat_drop_bit_eq w) (simp add: drop_bit_eq_div)
    also have "\<dots> = lba div 16777216" using assms(1) by simp
    finally show ?thesis .
  qed
  have s: "lba mod 256 + 256 * (lba div 256 mod 256) + 65536 * (lba div 65536 mod 256)
      + 16777216 * (lba div 16777216) = lba"
  proof -
    have "lba div 256 div 256 = lba div 65536" "lba div 65536 div 256 = lba div 16777216"
      by (simp_all add: div_mult2_eq [symmetric])
    then show ?thesis
      using div_mult_mod_eq [of lba 256] div_mult_mod_eq [of "lba div 256" 256]
        div_mult_mod_eq [of "lba div 65536" 256] by linarith
  qed
  have u: "unat (word_of_int (int n) :: byte) = n" using assms(2) by (simp add: unat_of_nat)
  obtain r q where d: "d = (r, q)" by (cases d)
  show ?thesis
    unfolding d by (simp add: issue_read_def pio_drive_def Let_def reg_lba_def a b c e s u del: upt_Suc of_int_of_nat_eq)
qed

lemma pio_drive_serves:
  assumes "\<And>s. length (img s) = 256"
  shows "drive_serves (pio_drive img) img snd"
  unfolding drive_serves_def
proof (intro conjI allI impI)
  fix d :: drive and lba n :: nat
  assume "0 < n" "n < 256" "lba + n \<le> 2 ^ 28"
  then show "snd (issue_read (pio_drive img) (word_of_nat lba) (int n) d) = concat (map img [lba..<lba + n])"
    by (intro reg_lba_issue) simp_all
next
  fix d :: drive
  have "wait_drq (pio_drive img) d = Some d" by (subst wait_drq.simps) (simp add: pio_drive_def)
  then show "\<exists>d'. wait_drq (pio_drive img) d = Some d' \<and> snd d' = snd d" by blast
next
  fix d :: drive and w ws
  assume "snd d = w # ws"
  then show "\<exists>d'. insw (pio_drive img) 0x1F0 d = (w, d') \<and> snd d' = ws"
    by (cases d) (simp add: pio_drive_def)
qed (rule assms)

text \<open>The sectors of a byte image.\<close>

definition byte_image :: "(nat \<Rightarrow> byte) \<Rightarrow> nat \<Rightarrow> u16 list" where
  "byte_image f s = map (\<lambda>i. ucast (f (512 * s + 2 * i)) OR push_bit 8 (ucast (f (512 * s + 2 * i + 1)))) [0..<256]"

lemma length_byte_image [simp]: "length (byte_image f s) = 256"
  by (simp add: byte_image_def)

lemma word_bytes:
  "ucast (ucast a OR push_bit 8 (ucast b) :: u16) = (a :: byte)"
  "ucast (drop_bit 8 (ucast a OR push_bit 8 (ucast b) :: u16)) = (b :: byte)"
  by (rule bit_word_eqI; auto simp: bit_simps dest: bit_imp_le_length)+

lemma le_bytes_map:
  "le_bytes (map (\<lambda>i. ucast (g (2 * i)) OR push_bit 8 (ucast (g (2 * i + 1)))) [0..<n]) = map g [0..<2 * n]"
  by (induction n) (simp_all add: word_bytes word_bytes(2) [unfolded drop_bit_or])

lemma img_byte_image [simp]: "img_byte (byte_image f) p = f p"
proof -
  have "le_bytes (byte_image f s) = map (\<lambda>j. f (512 * s + j)) [0..<512]" for s
    using le_bytes_map [of "\<lambda>j. f (512 * s + j)" 256] by (simp add: byte_image_def add.assoc)
  then show ?thesis by (simp add: img_byte_def)
qed

lemma img_bytes_image [simp]: "img_bytes (byte_image f) p n = map f [p..<p + n]"
  by (simp add: img_bytes_def)

lemma byte_image_serves: "drive_serves (pio_drive (byte_image f)) (byte_image f) snd"
  by (rule pio_drive_serves) simp

section \<open>Kernel heaps with the first \<open>n\<close> blocks taken\<close>

definition example_kmem :: "nat \<Rightarrow> kmem" where
  "example_kmem n = \<lparr>kernel_heap = \<lparr>hp_table = \<lparr>ht_addr = 0x7E00,
     ht_entries = replicate n HEAP_BLOCK_ENTRY_TAKEN @ replicate (25600 - n) 0, ht_total = 25600\<rparr>,
     hp_start = 0x01000000\<rparr>, phys = (\<lambda>a. 0)\<rparr>"

definition blk :: "nat \<Rightarrow> addr" where
  "blk i = 0x01000000 + 4096 * of_nat i"

lemma example_kmem_ok [simp]:
  assumes "n \<le> 25600"
  shows "kheap_ok (example_kmem n)" "kheap_used (example_kmem n) = blk ` {..<n}"
    "kheap_avail (example_kmem n) = 25600 - n"
proof -
  have e: "entries_of (kernel_heap (example_kmem n)) = replicate n HEAP_BLOCK_ENTRY_TAKEN @ replicate (25600 - n) 0"
    by (simp add: example_kmem_def)
  show "kheap_ok (example_kmem n)"
    using assms by (simp add: kheap_ok_def heap_wf_def e) (simp add: example_kmem_def page_aligned_def RASOS_HEAP_ADDRESS_def)
  have "taken_blocks (kernel_heap (example_kmem n)) = {..<n}"
  proof (rule set_eqI)
    fix x
    show "x \<in> taken_blocks (kernel_heap (example_kmem n)) \<longleftrightarrow> x \<in> {..<n}"
      using assms unfolding taken_blocks_def e by (cases "x < n") (simp_all add: nth_append is_block_taken_def)
  qed
  moreover have "block_addr (kernel_heap (example_kmem n)) = blk"
    by (simp add: fun_eq_iff block_addr_def blk_def example_kmem_def)
  ultimately show "kheap_used (example_kmem n) = blk ` {..<n}" by (simp add: kheap_used_def)
  show "kheap_avail (example_kmem n) = 25600 - n"
    unfolding kheap_avail_def free_count_def e by (simp add: is_block_taken_def)
qed

lemma blk_numeral: "blk (numeral k) = 0x01000000 + 4096 * numeral k" "blk 0 = 0x01000000" "blk 1 = 0x01001000"
  by (simp_all add: blk_def)

section \<open>A small volume\<close>

text \<open>
  Boot sector, one sector of FAT, one sector of root directory with the single entry
  \<^verbatim>\<open>HELLO.TXT\<close>, then the clusters of one sector each.  The file has 600 bytes in the clusters 2
  and 4; cluster 3, between them on the disk, belongs to something else.
\<close>

definition example_boot :: cbuf where
  "example_boot = [0xEB, 0x3C, 0x90, 82, 65, 83, 79, 83, 32, 32, 32, 0, 2, 1, 1, 0, 1, 16, 0, 0, 0, 0xF8, 1, 0,
     0x20, 0, 0x40, 0, 0, 0, 0, 0, 100, 0, 0, 0, 0x80, 0, 0x29, 5, 0xD1, 0, 0,
     82, 65, 83, 79, 83, 32, 66, 79, 79, 84, 76, 70, 65, 84, 49, 54, 32, 32, 32]"

definition hello_entry :: cbuf where
  "hello_entry = [72, 69, 76, 76, 79, 32, 32, 32, 84, 88, 84, 0x20, 0, 0, 0, 0, 0, 0, 0, 0,
     0, 0, 0, 0, 0, 0, 2, 0, 88, 2, 0, 0]"

definition volume_bytes :: "nat \<Rightarrow> byte" where
  "volume_bytes p =
     (if p < 62 then example_boot ! p
      else if p = 516 then 4 else if p = 520 \<or> p = 521 then 0xFF
      else if 1024 \<le> p \<and> p < 1056 then hello_entry ! (p - 1024)
      else if 1536 \<le> p \<and> p < 2048 then 65
      else if 2048 \<le> p \<and> p < 2560 then 66
      else if 2560 \<le> p \<and> p < 3072 then 67 else 0)"

definition example_img :: "nat \<Rightarrow> u16 list" where
  "example_img = byte_image volume_bytes"
definition example_io :: "drive ports" where
  "example_io = pio_drive example_img"

lemma example_serves: "drive_serves example_io example_img snd"
  unfolding example_io_def example_img_def by (rule byte_image_serves)

lemma example_boot_bytes: "img_bytes example_img 0 62 = example_boot"
proof -
  have l: "length example_boot = 62" by (simp add: example_boot_def)
  show ?thesis
  proof (rule nth_equalityI)
    fix i assume "i < length (img_bytes example_img 0 62)"
    then have "i < 62" by simp
    then show "img_bytes example_img 0 62 ! i = example_boot ! i"
      by (simp add: example_img_def volume_bytes_def del: upt_Suc)
  qed (simp add: l)
qed

definition example_header :: fat_h where
  "example_header = fat_h_of_bytes example_boot"

lemma example_boot_header: "boot_header example_img = example_header"
  by (simp add: boot_header_def example_boot_bytes example_header_def)

lemma example_header_fields [simp]:
  "signature (extended_header example_header) = 0x29"
  "sectors_per_cluster (primary_header example_header) = 1"
  "reserved_sectors (primary_header example_header) = 1"
  "fat_copies (primary_header example_header) = 1"
  "root_dir_entries (primary_header example_header) = 16"
  "sectors_per_fat (primary_header example_header) = 1"
  by (simp_all add: example_header_def fat_h_of_bytes_def example_boot_def le16_def)

lemma example_root [simp]:
  "root_sector (primary_header example_header) = 2" "root_size (primary_header example_header) = 512"
  by (simp_all add: root_sector_def root_size_def)

lemma example_dir_end: "dir_end example_img 1024 1"
  by (simp add: dir_end_def example_img_def volume_bytes_def hello_entry_def)

lemma example_used_items: "used_items example_img 1024 1 = 1"
  by (simp add: used_items_def example_img_def volume_bytes_def hello_entry_def)

lemma hello_fields [simp]:
  "length hello_entry = 32" "attribute (item_of_bytes hello_entry) = 0x20"
  "filesize (item_of_bytes hello_entry) = 600" "first_cluster hello_entry = 2"
  "display_name (item_of_bytes hello_entry) = [72, 69, 76, 76, 79, 46, 84, 88, 84]"
  by (simp_all add: hello_entry_def item_of_bytes_def le16_def le32_def first_cluster_def
      fat16_get_first_cluster_def display_name_def is_pad_def)

section \<open>Kernel states\<close>

text \<open>Before mounting: the disk initialised, the heap empty.\<close>

definition blank_fs :: "kmem \<Rightarrow> drive fs_state" where
  "blank_fs k = \<lparr>fs_kmem = k, fs_dev = (\<lambda>p. 0, []),
     the_disk = \<lparr>disk_type = 0, sector_size = 512, disk_id = 0, disk_filesystem = None, fs_private = 0\<rparr>,
     streams = (\<lambda>p. None), item_arrays = (\<lambda>p. None), directories = (\<lambda>p. None),
     fat_items = (\<lambda>p. None), descriptors = (\<lambda>p. None), privates = (\<lambda>p. None)\<rparr>"

text \<open>Mounted: the private data in block 0, its streams in 1 to 3, the root directory in 4.\<close>

definition example_private :: fat_private where
  "example_private = \<lparr>header = example_header, root_directory = root_of example_img (primary_header example_header) 1 (blk 4),
     cluster_read_stream = blk 1, fat_read_stream = blk 2, directory_stream = blk 3\<rparr>"

definition root_array :: cbuf where
  "root_array = img_bytes example_img 1024 512"

definition mounted_fs :: "drive fs_state" where
  "mounted_fs = (blank_fs (example_kmem 5))\<lparr>
     the_disk := \<lparr>disk_type = 0, sector_size = 512, disk_id = 0, disk_filesystem = Some Fat16_fs, fs_private = blk 0\<rparr>,
     streams := [blk 1 \<mapsto> new_stream, blk 2 \<mapsto> new_stream, blk 3 \<mapsto> new_stream],
     item_arrays := [blk 4 \<mapsto> root_array], privates := [blk 0 \<mapsto> example_private]\<rparr>"

text \<open>The file open: descriptor, item and directory entry in the blocks 5 to 7.\<close>

definition open_fs :: "drive fs_state" where
  "open_fs = mounted_fs\<lparr>fs_kmem := example_kmem 8,
     descriptors := [blk 5 \<mapsto> \<lparr>desc_item = blk 6, desc_pos = 0\<rparr>],
     fat_items := [blk 6 \<mapsto> \<lparr>item_ptr = blk 7, item_type = FAT_ITEM_TYPE_FILE\<rparr>],
     item_arrays := [blk 4 \<mapsto> root_array, blk 7 \<mapsto> hello_entry]\<rparr>"

lemma blk_inject: "i < 1000 \<Longrightarrow> j < 1000 \<Longrightarrow> blk i = blk j \<longleftrightarrow> i = j"
proof -
  assume ij: "i < 1000" "j < 1000"
  have "unat (blk k) = 16777216 + 4096 * k" if "k < 1000" for k
    using that by (simp add: blk_def unat_word_ariths unat_of_nat)
  then show ?thesis using ij by (metis add_left_cancel mult_left_cancel zero_neq_numeral)
qed

lemma blk_nonzero: "i < 1000 \<Longrightarrow> blk i \<noteq> 0"
proof
  assume "i < 1000" "blk i = 0"
  moreover have "unat (blk i) = 16777216 + 4096 * i"
    using \<open>i < 1000\<close> by (simp add: blk_def unat_word_ariths unat_of_nat)
  ultimately show False by simp
qed

lemma blk_in: "i < 1000 \<Longrightarrow> n \<le> 1000 \<Longrightarrow> blk i \<in> blk ` {..<n} \<longleftrightarrow> i < n"
  using blk_inject by auto

lemmas blk_simps [simp] = blk_inject blk_nonzero blk_in

lemma fs_examples [simp]:
  "fs_ok (blank_fs (example_kmem 0))" "fs_avail (blank_fs (example_kmem 0)) = 25600"
  "fs_used (blank_fs (example_kmem 0)) = {}"
  "fs_ok mounted_fs" "fs_avail mounted_fs = 25595" "fs_used mounted_fs = blk ` {..<5}"
  "fs_ok open_fs" "fs_avail open_fs = 25592" "fs_used open_fs = blk ` {..<8}"
  by (simp_all add: fs_ok_def fs_avail_def fs_used_def blank_fs_def mounted_fs_def open_fs_def)

lemma mounted_examples:
  "mounted example_io example_img snd example_private mounted_fs"
  "mounted example_io example_img snd example_private open_fs"
  using example_serves
  by (simp_all add: mounted_def private_of_def open_stream_def mounted_fs_def open_fs_def blank_fs_def example_private_def)

lemma stores_in_use_mounted: "stores_in_use mounted_fs"
  unfolding stores_in_use_def fs_examples(6) by (auto simp: mounted_fs_def blank_fs_def)

lemma open_file_example: "open_file open_fs (blk 5) (blk 6) (blk 7) hello_entry 0"
  by (simp add: open_file_def) (simp add: open_fs_def)

lemma nth_padded: "i < length xs + n \<Longrightarrow> (xs @ replicate n 0) ! i = (if i < length xs then xs ! i else 0)"
  by (simp add: nth_append)

lemma root_array_eq: "root_array = hello_entry @ replicate 480 0"
proof (rule nth_equalityI)
  fix i assume "i < length root_array"
  then have i: "i < 512" by (simp add: root_array_def)
  then have "root_array ! i = volume_bytes (1024 + i)"
    unfolding root_array_def by (simp only: img_bytes_nth) (simp add: example_img_def)
  also have "\<dots> = (if i < 32 then hello_entry ! i else 0)" using i by (simp add: volume_bytes_def)
  also have "\<dots> = (hello_entry @ replicate 480 0) ! i" using nth_padded [of i hello_entry 480] i by simp
  finally show "root_array ! i = (hello_entry @ replicate 480 0) ! i" .
qed (simp add: root_array_def)

lemma root_file_example: "root_file mounted_fs [104, 101, 108, 108, 111, 46, 116, 120, 116] 0 hello_entry"
proof -
  have w: "well_named root_array"
  proof -
    have "is_pad (root_array ! 5)" "is_pad (root_array ! 11)"
      by (simp_all add: root_array_eq nth_append) (simp_all add: hello_entry_def is_pad_def)
    then show ?thesis by (auto simp: well_named_def root_array_eq intro: exI [of _ "5::nat"])
  qed
  have d: "display_name (item_of_bytes root_array) = [72, 69, 76, 76, 79, 46, 84, 88, 84]"
  proof -
    have "item_of_bytes root_array = item_of_bytes hello_entry"
      using item_of_bytes_take [of root_array] by (simp add: root_array_eq)
    then show ?thesis by simp
  qed
  have n: "nat (dir_total (root_directory example_private)) = 1" "dir_item (root_directory example_private) = blk 4"
    using example_used_items by (simp_all add: example_private_def root_of_def)
  have f: "private_of mounted_fs = Some example_private" "item_arrays mounted_fs (blk 4) = Some root_array"
    by (simp_all add: private_of_def mounted_fs_def blank_fs_def)
  have m: "named_item root_array [104, 101, 108, 108, 111, 46, 116, 120, 116] 0"
    by (simp add: named_item_def d tolower_def)
  have "items_ok root_array 1" using w by (simp add: items_ok_def root_array_eq)
  then show ?thesis
    unfolding root_file_def using f n m
    by (intro exI [of _ example_private] exI [of _ root_array]) (simp add: root_array_eq)
qed

lemma example_private_fields [simp]:
  "header example_private = example_header" "cluster_size example_private = 512"
  "cluster_pos example_private c = 512 * (int c + 1)"
  by (simp_all add: example_private_def cluster_size_def cluster_pos_def root_of_def)

lemma example_entry [simp]:
  "fat_entry example_img example_private 2 = 4" "fat_entry example_img example_private 4 = 65535"
proof -
  have b: "img_bytes example_img a 2 = [volume_bytes a, volume_bytes (a + 1)]" for a
    by (simp add: example_img_def upt_rec)
  have "volume_bytes 516 = 4" "volume_bytes 517 = 0" "volume_bytes 520 = 0xFF" "volume_bytes 521 = 0xFF"
    by (simp_all add: volume_bytes_def)
  then show "fat_entry example_img example_private 2 = 4" "fat_entry example_img example_private 4 = 65535"
    by (simp_all add: fat_entry_def b le16_def)
qed

lemma example_chain [simp]: "4 \<notin> chain_stops"
   "chain example_img example_private 0 2 = Some 2" "chain example_img example_private (Suc 0) 2 = Some 4"
  by (simp_all add: chain_stops_def)

lemma example_piece: "i < (1024::nat) \<Longrightarrow> i div 512 = (if i < 512 then 0 else Suc 0)"
  by (cases "i < 512") (simp_all add: div_if)

lemma example_extent: "n \<le> 1024 \<Longrightarrow> file_extent example_img example_private 2 n"
  unfolding file_extent_def by (simp add: example_piece cluster_ok_def)

lemma example_bytes:
  "i < 1024 \<Longrightarrow> file_byte example_img example_private 2 i = (if i < 512 then 65 else 67)"
proof -
  assume i: "i < 1024"
  define c where "c = (if i < 512 then 2 else 4 :: nat)"
  have "chain example_img example_private (i div 512) 2 = Some c"
    using i by (simp add: example_piece c_def)
  then have "file_byte example_img example_private 2 i = img_byte example_img (nat (512 * (int c + 1)) + i mod 512)"
    by (simp add: file_byte_def)
  also have "\<dots> = volume_bytes (512 * (c + 1) + i mod 512)"
    by (simp only: example_img_def img_byte_image) (simp add: nat_mult_distrib nat_add_distrib add.commute)
  also have "\<dots> = (if i < 512 then 65 else 67)"
  proof -
    have "i mod 512 < 512" by simp
    then show ?thesis by (simp add: volume_bytes_def c_def del: mod_less_divisor)
  qed
  finally show ?thesis .
qed

text \<open>The file layer over the mounted volume, with an empty descriptor table.\<close>

definition example_vfs :: "drive vfs_state" where
  "example_vfs = \<lparr>filesystems = Some Fat16_fs # replicate 11 None, file_descriptors = replicate 512 0,
     fd_store = (\<lambda>p. None), lower = mounted_fs\<rparr>"

lemma example_vfs_simps [simp]:
  "vfs_ok example_vfs" "lower example_vfs = mounted_fs" "disk_filesystem (the_disk mounted_fs) = Some Fat16_fs"
  "free_index (file_descriptors example_vfs) 0 = Some 0"
  "file_get_descriptor example_vfs fd = 0" "fd_store example_vfs 0 = None"
proof -
  show "disk_filesystem (the_disk mounted_fs) = Some Fat16_fs" by (simp add: mounted_fs_def)
  show "file_get_descriptor example_vfs fd = 0"
    unfolding file_get_descriptor_def by (simp add: example_vfs_def nat_less_iff)
qed (simp_all add: example_vfs_def vfs_ok_def free_index_Some)

text \<open>A heap at the kernel's address whose table holds the given entries.\<close>

definition small_heap :: "byte list \<Rightarrow> heap" where
  "small_heap es = \<lparr>hp_table = \<lparr>ht_addr = 0x7E00, ht_entries = es, ht_total = length es\<rparr>, hp_start = 0x01000000\<rparr>"

end
