(* ===== verification/ExampleProgram.thy ===== *)
theory ExampleProgram
  imports KernelMain Example
begin

text \<open>
  A disk for the whole boot: the small volume of the other examples with \<^verbatim>\<open>BLANK.ELF\<close> in place of its
  text file, an ELF file of 112 bytes that asks for keys forever.
\<close>

definition blank_elf :: cbuf where
  "blank_elf = [0x7F, 69, 76, 70, 1, 1, 1, 0, 0, 0, 0, 0, 0, 0, 0, 0,
     2, 0, 3, 0, 1, 0, 0, 0, 0x60, 0, 0x40, 0, 52, 0, 0, 0, 0, 0, 0, 0, 0, 0, 0, 0, 52, 0, 32, 0, 1, 0, 0, 0, 0, 0, 0, 0,
     1, 0, 0, 0, 0x60, 0, 0, 0, 0x60, 0, 0x40, 0, 0x60, 0, 0x40, 0, 0x10, 0, 0, 0, 0x10, 0, 0, 0, 5, 0, 0, 0, 0, 0x10, 0, 0,
     0, 0, 0, 0, 0, 0, 0, 0, 0, 0, 0, 0,
     0xB8, 2, 0, 0, 0, 0xCD, 0x80, 0xEB, 0xF7, 0x90, 0x90, 0x90, 0x90, 0x90, 0x90, 0x90]"

definition blank_entry :: cbuf where
  "blank_entry = [66, 76, 65, 78, 75, 32, 32, 32, 69, 76, 70, 0x20, 0, 0, 0, 0, 0, 0, 0, 0,
     0, 0, 0, 0, 0, 0, 2, 0, 112, 0, 0, 0]"

definition program_volume :: "nat \<Rightarrow> byte" where
  "program_volume p =
     (if p < 62 then example_boot ! p
      else if 1024 \<le> p \<and> p < 1056 then blank_entry ! (p - 1024)
      else if 1536 \<le> p \<and> p < 1648 then blank_elf ! (p - 1536) else 0)"

definition program_img :: "nat \<Rightarrow> u16 list" where
  "program_img = byte_image program_volume"
definition program_io :: "drive ports" where
  "program_io = pio_drive program_img"

lemma program_serves: "drive_serves program_io program_img snd"
  unfolding program_io_def program_img_def by (rule byte_image_serves)

lemma program_boot_header: "boot_header program_img = example_header"
proof -
  have l: "length example_boot = 62" by (simp add: example_boot_def)
  have "img_bytes program_img 0 62 = example_boot"
  proof (rule nth_equalityI)
    fix i assume "i < length (img_bytes program_img 0 62)"
    then have "i < 62" by simp
    then show "img_bytes program_img 0 62 ! i = example_boot ! i"
      by (simp add: program_img_def program_volume_def del: upt_Suc)
  qed (simp add: l)
  then show ?thesis by (simp add: boot_header_def example_header_def)
qed

lemma program_dir_end: "dir_end program_img 1024 1"
  by (simp add: dir_end_def program_img_def program_volume_def blank_entry_def)

lemma program_used_items: "used_items program_img 1024 1 = 1"
  by (simp add: used_items_def program_img_def program_volume_def blank_entry_def)

lemmas program_items = program_dir_end program_used_items

lemma program_fat16: "fat16_volume program_img 1"
  by (simp add: fat16_volume_def program_boot_header program_items del: One_nat_def)

lemma blank_fields [simp]:
  "length blank_entry = 32" "attribute (item_of_bytes blank_entry) = 0x20"
  "filesize (item_of_bytes blank_entry) = 112" "first_cluster blank_entry = 2"
  "display_name (item_of_bytes blank_entry) = [66, 76, 65, 78, 75, 46, 69, 76, 70]" "length blank_elf = 112"
  by (simp_all add: blank_entry_def item_of_bytes_def le16_def le32_def first_cluster_def
      fat16_get_first_cluster_def display_name_def is_pad_def blank_elf_def)

lemma program_root: "img_bytes program_img 1024 512 = blank_entry @ replicate 480 0"
proof (rule nth_equalityI)
  fix i assume "i < length (img_bytes program_img 1024 512)"
  then have i: "i < 512" by simp
  then have "img_bytes program_img 1024 512 ! i = program_volume (1024 + i)"
    by (simp only: img_bytes_nth) (simp add: program_img_def)
  also have "\<dots> = (if i < 32 then blank_entry ! i else 0)" using i by (simp add: program_volume_def)
  also have "\<dots> = (blank_entry @ replicate 480 0) ! i" using nth_padded [of i blank_entry 480] i by simp
  finally show "img_bytes program_img 1024 512 ! i = (blank_entry @ replicate 480 0) ! i" .
qed simp

lemma program_entry: "volume_entry program_img 1 blank_name 0 blank_entry"
proof -
  let ?a = "blank_entry @ replicate 480 0"
  have "is_pad (?a ! 5)" "is_pad (?a ! 11)" by (simp_all add: nth_append) (simp_all add: blank_entry_def is_pad_def)
  then have "well_named ?a" by (auto simp: well_named_def intro: exI [of _ "5::nat"])
  then have "items_ok ?a 1" by (simp add: items_ok_def)
  moreover have "item_of_bytes ?a = item_of_bytes blank_entry" using item_of_bytes_take [of ?a] by simp
  then have "named_item ?a blank_name 0" by (simp add: named_item_def tolower_def blank_name_def)
  ultimately show ?thesis
    by (simp add: volume_entry_def program_boot_header program_items program_root Let_def del: One_nat_def)
qed

lemma program_file: "volume_file program_img 1 blank_name blank_elf"
proof -
  let ?v = "volume_private program_img 1"
  have c: "cluster_size ?v = 512" "cluster_pos ?v 2 = 1536"
    by (simp_all add: cluster_size_def cluster_pos_def volume_private_def program_boot_header root_of_def)
  have b: "img_byte program_img p = program_volume p" for p by (simp add: program_img_def)
  have "file_extent program_img ?v 2 112" by (simp add: file_extent_def c cluster_ok_def del: One_nat_def)
  moreover have "file_bytes program_img ?v 2 0 112 = blank_elf"
  proof (rule nth_equalityI)
    fix i assume "i < length (file_bytes program_img ?v 2 0 112)"
    then have "i < 112" by simp
    then show "file_bytes program_img ?v 2 0 112 ! i = blank_elf ! i"
      by (simp add: file_bytes_def file_byte_def c b program_volume_def del: upt_Suc One_nat_def)
  qed simp
  ultimately show ?thesis
    unfolding volume_file_def using program_entry c(1)
    by (intro conjI exI [of _ "0 :: nat"] exI [of _ blank_entry]) (simp_all add: FAT_FILE_SUBDIRECTORY_def del: One_nat_def)
qed

lemma blank_header:
  "e_entry (elf_header_at (file_ram blank_elf) 0) = 0x400060" "e_phoff (elf_header_at (file_ram blank_elf) 0) = 52"
  "e_phnum (elf_header_at (file_ram blank_elf) 0) = 1" "elf_validate_loaded (elf_header_at (file_ram blank_elf) 0) = 0"
  by code_simp+

lemma blank_program_headers: "program_headers (file_ram blank_elf) empty_elf_file =
   [\<lparr>p_type = 1, p_offset = 0x60, p_vaddr = 0x400060, p_paddr = 0x400060, p_filesz = 0x10, p_memsz = 0x10,
     p_flags = 5, p_align = 0x1000\<rparr>]"
  by code_simp

lemma blank_image: "elf_image blank_elf"
  by (simp add: elf_image_def blank_header blank_program_headers)

lemma blank_code: "image_byte blank_elf 0x400060 0xB8"
  unfolding image_byte_def blank_program_headers
  by (intro exI [of _ "[]"] exI) (auto simp: blank_elf_def)


lemma zeroed_kernel: "\<exists>k :: 'd kernel. zeroed k"
  by (rule exI [of _ "undefined\<lparr>isr80h_commands := replicate 1024 None, interrupt_callbacks := replicate 512 None,
    task_head := 0, processes := replicate 12 0\<rparr>"]) (simp add: zeroed_def)

end
