(* ===== verification/NoProgram.thy ===== *)
theory NoProgram
  imports Images
begin

text \<open>
  A disk without a filesystem: \<^verbatim>\<open>fopen\<close> returns 0, which \<^verbatim>\<open>elf_load\<close> hands on as success.
\<close>

lemma elf_load_no_filesystem:
  assumes "kheap_ok (kmem_of k)" "2 * length (components (drop 3 s)) + 4 < kheap_avail (kmem_of k)" "0 \<notin> set s"
    "disk_filesystem (the_disk (lower (vfs k))) = None"
  obtains k' where "elf_load vt k (s @ 0 # r) = Some (0, None, k')" "process_store k' = process_store k"
    "kheap_ok (kmem_of k')" "kheap_avail (kmem_of k) \<le> kheap_avail (kmem_of k') + 2 * length (components (drop 3 s)) + 2"
    "\<And>a. a = 0 \<Longrightarrow> elf_files k' a = elf_files k a"
proof -
  obtain ef m1 where m1: "kzalloc (kmem_of k) 152 = Some (ef, m1)" "kheap_ok m1" "ef \<noteq> 0" "Suc (kheap_avail m1) = kheap_avail (kmem_of k)"
    using kpage.alloc_page [OF assms(1), of 152] assms(2) by (auto simp: page_request_def)
  let ?v = "(vfs k)\<lparr>lower := (lower (vfs k))\<lparr>fs_kmem := m1\<rparr>\<rparr>"
  have "2 * length (components (drop 3 s)) + 3 < fs_avail (lower ?v)" using assms(2) m1(4) by (simp add: fs_avail_def)
  then obtain m2 where m2: "fopen vt ?v (s @ 0 # r) [114, 0] = Some (0, ?v\<lparr>lower := (lower ?v)\<lparr>fs_kmem := m2\<rparr>\<rparr>)" "kheap_ok m2"
    "kheap_avail m1 \<le> kheap_avail m2 + 2 * length (components (drop 3 s)) + 1"
    using fopen_no_filesystem [of ?v s vt r "[114, 0]"] m1(2) assms(3,4) by (auto simp: fs_avail_def)
  let ?k = "k\<lparr>vfs := ?v\<lparr>lower := (lower ?v)\<lparr>fs_kmem := m2\<rparr>\<rparr>, elf_files := (elf_files k)(ef \<mapsto> empty_elf_file)\<rparr>"
  have "elf_load vt k (s @ 0 # r) = Some (0, None, ?k)"
    using m1(1,3) m2(1)
    by (simp add: elf_load_def elf_load_body_def kernel_zalloc_def c_string_def set_kmem_def fclose_def file_get_descriptor_def)
  from that [OF this] show thesis using m1(3,4) m2(2,3) by simp
qed

lemma load_no_filesystem:
  assumes "kheap_ok (kmem_of k)" "2 * length (components (drop 3 s)) + 1029 \<le> kheap_avail (kmem_of k)" "0 \<notin> set s"
    "disk_filesystem (the_disk (lower (vfs k))) = None" "elf_files k 0 = None"
  obtains k' where "process_load_data vt (process_init k a) (s @ 0 # r) a = Some (0, k')"
    "process_store k' a = Some (empty_process\<lparr>filetype := PROCESS_FILETYPE_ELF, proc_ptr := 0\<rparr>)" "task_new k' a = None"
proof -
  let ?k = "process_init k a"
  have v: "vfs ?k = vfs k" "elf_files ?k = elf_files k" by (simp_all add: process_init_def put_process_def)
  obtain k1 where k1: "elf_load vt ?k (s @ 0 # r) = Some (0, None, k1)" "process_store k1 = process_store ?k"
    "kheap_ok (kmem_of k1)" "kheap_avail (kmem_of ?k) \<le> kheap_avail (kmem_of k1) + 2 * length (components (drop 3 s)) + 2"
    "\<And>a. a = 0 \<Longrightarrow> elf_files k1 a = elf_files ?k a"
    by (rule elf_load_no_filesystem [of ?k s vt r]) (use assms v that in auto)
  let ?p = "empty_process\<lparr>filetype := PROCESS_FILETYPE_ELF, proc_ptr := 0\<rparr>"
  let ?k' = "put_process k1 a ?p"
  have load: "process_load_data vt ?k (s @ 0 # r) a = Some (0, ?k')"
    using k1(1,2) by (simp add: process_load_data_def process_load_elf_def process_init_def put_process_def)
  have av: "1027 \<le> kheap_avail (kmem_of k1)" using k1(4) assms(2) v by simp
  obtain n m1 where m1: "kzalloc (kmem_of k1) 64 = Some (n, m1)" "kheap_ok m1" "n \<noteq> 0" "Suc (kheap_avail m1) = kheap_avail (kmem_of k1)"
    using kpage.alloc_page [OF k1(3), of 64] av by (auto simp: page_request_def)
  have "1026 \<le> kheap_avail m1" using m1(4) av by simp
  then obtain c m2 where m2: "paging_new_4gb m1 (PAGING_IS_PRESENT OR PAGING_ACCESS_BY_ALL) = Some (c, m2)" "c \<noteq> 0"
    using paging_new_4gb_ok [OF m1(2)] by blast
  have "elf_files k1 0 = None" using k1(5) v(2) assms(5) by simp
  then have "task_new ?k' a = None"
    using m1(1,3) m2 by (simp add: task_new_def task_init_def kernel_zalloc_def put_process_def put_task_def set_kmem_def Let_def)
  with that [OF load] show thesis by (simp add: put_process_def)
qed

end
