(* ===== verification/Spec2Isabelle.thy ===== *)
theory Spec2Isabelle
  imports ExampleKernel ExampleProgram NoProgram
begin

text \<open>
  rasOS, a small 32-bit kernel for the PC in protected mode: a block heap, paging, an ATA driver, a
  read-only FAT16 file system behind a file layer, an ELF loader, tasks and processes, system
  calls through interrupt 0x80, a PS/2 keyboard and a text terminal.  All paths below are relative
  to \<^verbatim>\<open>src/src/\<close>.

  The parts and how they interact.  \<^verbatim>\<open>kernel_main\<close> (\<^verbatim>\<open>kernel.c\<close>) clears the screen, loads the segment
  descriptors, creates the heap, mounts the disk, fills the interrupt table, enters a 4 GiB identity
  mapping, registers the system calls and the keyboard, and starts one program.  Everything that is
  allocated comes from the block heap (\<^verbatim>\<open>memory/heap\<close>), page tables included
  (\<^verbatim>\<open>memory/paging\<close>).  A program is loaded by \<^verbatim>\<open>task/process.c\<close>: \<^verbatim>\<open>fopen\<close> and \<^verbatim>\<open>fread\<close>
  (\<^verbatim>\<open>fs/file.c\<close>) reach \<^verbatim>\<open>fs/fat/fat16.c\<close> through a table of function pointers, which reads through
  the streams of \<^verbatim>\<open>disk/streamer.c\<close> the sectors that \<^verbatim>\<open>disk/disk.c\<close> takes from the drive; the ELF
  headers are read by \<^verbatim>\<open>loader/formats\<close>, and \<^verbatim>\<open>process_map_memory\<close> enters the image in the address
  space that \<^verbatim>\<open>task/task.c\<close> made for the task.  A running program comes back through
  \<^verbatim>\<open>isr80h_handler\<close> and \<^verbatim>\<open>interrupt_handler\<close> (\<^verbatim>\<open>idt/idt.c\<close>), which switch to the pages of the kernel,
  save the registers, run a command of \<^verbatim>\<open>isr80h/\<close> or a callback, and switch back.

  Theories, in the order of their imports.
  \<^item> \<open>Prelude\<close>: the status codes of \<^verbatim>\<open>status.h\<close>, options as results, arithmetic of words; \<open>CString\<close>:
    \<^verbatim>\<open>memory/memory.c\<close> and \<^verbatim>\<open>string/string.c\<close>.
  \<^item> \<open>Heap\<close>: the block table of \<^verbatim>\<open>memory/heap/heap.c\<close> (record \<open>heap\<close>); \<open>KHeap\<close>: \<^verbatim>\<open>memory/heap/kheap.c\<close>,
    the heap together with the bytes of memory (record \<open>kmem\<close>).
  \<^item> \<open>Paging\<close>: \<^verbatim>\<open>memory/paging/paging.c\<close>; directories and tables are 32-bit entries in memory, a
    \<^verbatim>\<open>struct paging_4gb_chunk\<close> is the address of its one field.
  \<^item> \<open>PathParser\<close>: \<^verbatim>\<open>fs/pparser.c\<close>; \<open>Disk\<close>: \<^verbatim>\<open>disk/disk.c\<close> and \<^verbatim>\<open>disk/streamer.c\<close>.
  \<^item> \<open>Fat16\<close> and \<open>Fat16Files\<close>: \<^verbatim>\<open>fs/fat/fat16.c\<close> (record \<open>fs_state\<close>); \<open>Fat16Proofs\<close> and \<open>Fat16Mount\<close>:
    what its operations do on a mounted volume, and mounting.
  \<^item> \<open>Vfs\<close>: \<^verbatim>\<open>fs/file.c\<close> and \<^verbatim>\<open>disk_search_and_init\<close>.
  \<^item> \<open>Gdt\<close>, \<open>Display\<close>, \<open>Keyboard\<close>: \<^verbatim>\<open>gdt/gdt.c\<close>, \<^verbatim>\<open>display/display.c\<close>, the ring buffer and scan codes of
    \<^verbatim>\<open>keyboard/\<close>.
  \<^item> \<open>KernelState\<close>: the state of the whole kernel (record \<open>kernel\<close>, which contains those of the
    parts), the structures of \<^verbatim>\<open>task/task.h\<close>, \<^verbatim>\<open>task/process.h\<close> and \<^verbatim>\<open>idt/idt.h\<close>, and the parts'
    operations on this state.
  \<^item> \<open>Elf\<close>: \<^verbatim>\<open>loader/formats/\<close>; \<open>Task\<close>: \<^verbatim>\<open>task/task.c\<close>; \<open>Process\<close>: \<^verbatim>\<open>task/process.c\<close>; \<open>Input\<close>: the
    drivers of \<^verbatim>\<open>keyboard/keyboard.c\<close> and \<^verbatim>\<open>keyboard/qwerty.c\<close>; \<open>Syscalls\<close>: \<^verbatim>\<open>isr80h/\<close> and \<^verbatim>\<open>idt/idt.c\<close>;
    \<open>Kernel\<close>: \<^verbatim>\<open>kernel.c\<close>.
  \<^item> \<open>AddressSpace\<close>: what the processor reads through the page tables; \<open>UserCopy\<close>: the copy of a
    string of a task through a bounce buffer; \<open>Calls\<close>: a system call
    from the trap to the return; \<open>ElfProofs\<close>: the bounds and the mapping of an ELF image; \<open>TaskList\<close>:
    the list of tasks.  \<open>Running\<close>: a step relation for a running program.
  \<^item> \<open>Loading\<close>: \<^verbatim>\<open>elf_load\<close> through the file layer, the driver and the drive; \<open>Images\<close>: an ELF image as
    the content of a file, and the new process with its image and its stack; \<open>Start\<close>: the image and the stack
    in the address space of the task, and the departure to user mode; \<open>NoProgram\<close>: the same without a
    filesystem.
  \<^item> \<open>Boot\<close>: the two halves of \<^verbatim>\<open>kernel_main\<close> before the first program; \<open>KernelMain\<close>: all of it.
  \<^item> \<open>Example\<close>, \<open>ExampleKernel\<close> and \<open>ExampleProgram\<close>: a drive, a small volume with a text file, a kernel,
    and a volume with a program, on which the properties are instantiated.

  Conventions.
  \<^item> An operation returns an option.  \<open>None\<close> is a behaviour C leaves undefined (a NULL or dangling
    pointer, an access outside of an object, an uninitialised value that is used) or a call that
    never returns (\<^verbatim>\<open>panic\<close>, a jump to user mode that is not followed).  An error the code reports is a value: the negative status codes of
    \<^verbatim>\<open>status.h\<close>, a null address, or \<open>Inl\<close> of the message of \<^verbatim>\<open>gdt_structured_to_gdt\<close>'s \<^verbatim>\<open>panic\<close>.
  \<^item> A structure that only C code looks at (a descriptor, a task, a process, an opened ELF file) is
    an element of a store keyed by its address on the heap, removed when it is freed.  What the
    hardware or other code reads as bytes (page tables, loaded programs, stacks, strings of a task)
    are bytes of physical memory.
  \<^item> The kernel runs with physical addresses first and then in an identity mapping, so its own
    accesses are physical.  Accesses made while the tables of a task are in force go through
    \<open>translate\<close>, the two-level translation of the processor.
  \<^item> Video memory is a function from cells to characters, apart from the bytes of memory.  The terminal
    tests no bound, so far below the screen its cells are addresses of other memory (0xB8000 + 2 i for
    cell i): \<open>terminal_leaves_the_screen\<close> shows how it gets there, and what is said of the bytes a run leaves as
    they were holds as long as it does not.
  \<^item> Widths are those of the code: addresses and sizes are 32-bit words, table entries of the FAT
    16-bit words, buffers lists of bytes.  An \<^verbatim>\<open>int\<close> that the code keeps far from its limits is an
    integer.
  \<^item> Parameters: the port instructions and the device behind them (\<open>ports\<close>, with \<open>drive_serves\<close> as
    the documented behaviour of a drive in PIO mode), and the addresses of the assembly entry points.

  What the lemmas show.  Heap: the allocator refines a map from the first block to the number of
  blocks of each live allocation (\<open>heap_rep\<close>), the search a reference search; the kernel heap gives
  the laws of the locale \<open>page_allocator\<close> on which its clients rest (interpreted on \<^verbatim>\<open>kzalloc\<close> and
  on the heap as the file system sees it).  Paging: an address space refines a
  function from pages to entries (\<open>lookup_page\<close>), and building, mapping and freeing one are functions
  on it.  FAT16: reading follows a reference walk of the table on the disk; opening, seeking, reading and closing
  act on the abstract open file \<open>fat16_view\<close> of the locale \<open>file_driver\<close>.  Keyboard: the ring is the
  queue of the locale \<open>byte_queue\<close>.  Tasks: the linked list is a list (\<open>task_list\<close>).  System calls: what a
  trap does to the task that made it.  A running program is a step relation (\<open>user_step\<close>) of stores,
  system calls and interrupts; \<open>running\<close> is its invariant.  Programs: where each byte of an ELF image appears.  From
  power-on: on a drive with a FAT16 volume that holds the program, \<^verbatim>\<open>kernel_main\<close> reaches user mode in a
  state that is \<open>running\<close> and \<open>alive\<close>, so that what is shown of runs and of system calls holds from
  there on.  The last section collects the places where the code does not do what it should, each with a proof.

  Loops and bounds.  A loop that counts is recursive on what is left to count, with its termination
  proof where that is not structural, and no model runs on fuel.  Three loops may run for ever and
  are \<open>partial_function\<close>, so that not returning is \<open>None\<close>: the wait for the drive (\<open>wait_drq\<close>),
  the scan of a directory for its zero byte (\<open>total_items_loop\<close>), and the turns of a FAT16 read
  (\<open>fat16_read_internal_from_stream\<close>); the properties about them prove that they return, and
  for the first exactly when it does.  For the boot, the heap has 25600 blocks: mounting takes 5, which leaves 4266 free
  ones in a row; the address space of the kernel takes 1026 off the front of them (first fit), and a
  program of \<open>n\<close> blocks needs a row of \<open>27 n + 28\<close> to be sure of its image and its stack whatever the rest
  of the load has taken in between.  That is enough for 118 blocks, a file of 472 KiB.

  Not modelled.  The boot sector and the assembly of the kernel (\<^verbatim>\<open>boot/boot.asm\<close>, \<^verbatim>\<open>kernel.asm\<close>,
  \<^verbatim>\<open>idt.asm\<close>, \<^verbatim>\<open>task.asm\<close>, \<^verbatim>\<open>io.asm\<close>, \<^verbatim>\<open>gdt.asm\<close>, \<^verbatim>\<open>tss.asm\<close>): their effects on registers the C
  code relies on are definitions of \<open>KernelState\<close>, the rest is outside.  The
  sample program (\<^verbatim>\<open>programs/blank\<close>, a loop around the assembly of its library) is not modelled on its
  own: what the properties say of a running program is said of all stores and all system calls.  Of \<^verbatim>\<open>elf.h\<close> the constants and structures that no code uses, and everywhere
  prototypes, include guards and comments.
\<close>

section \<open>From power-on to user mode\<close>





text \<open>
  C3: elf_load of a file on the mounted disk reads all of it: the file lies byte for byte in fresh blocks of the heap, the result is what the validation of that image gives, and of the heap only the image and the four blocks of the ELF object and the parsed path, which fopen leaks, stay in use.
\<close>

theorem elf_file_loads:
  assumes "on_disk io (vfs k) s bytes" "vfs_ok (vfs k)" "free_index (file_descriptors (vfs k)) 0 = Some j" "j < 511"
    "free_blocks (kmem_of k) a (9 * nblocks (of_nat (length bytes)))" "8 \<le> kheap_avail (kmem_of k)"
  shows "\<exists>ef b k' res f.
     elf_load (fat16_vtable io) k (s @ 0 # r) = Some (res, if res < 0 then None else Some ef, k')
     \<and> elf_process_loaded (ram_of k') (empty_elf_file\<lparr>ef_memory := heap_blk b\<rparr>) = (res, f) \<and> elf_files k' ef = Some f
     \<and> free_blocks (kmem_of k) b (nblocks (of_nat (length bytes))) \<and> vfs_ok (vfs k')
     \<and> kheap_avail (kmem_of k') + nblocks (of_nat (length bytes)) + 4 = kheap_avail (kmem_of k)
     \<and> (\<forall>i<length bytes. ram_of k' (heap_blk b + of_nat i) = bytes ! i)"
proof -
  obtain ef b k' res f where e:
    "elf_load (fat16_vtable io) k (s @ 0 # r) = Some (res, if res < 0 then None else Some ef, k')"
    "elf_process_loaded (ram_of k') (empty_elf_file\<lparr>ef_memory := heap_blk b\<rparr>) = (res, f)"
    "k' = k\<lparr>vfs := vfs k', elf_files := (elf_files k)(ef \<mapsto> f)\<rparr>" "vfs_ok (vfs k')"
    "ef \<noteq> 0" "ef \<notin> kheap_used (kmem_of k)" "free_blocks (kmem_of k) b (nblocks (of_nat (length bytes)))"
    "insert ef (kheap_used (kmem_of k) \<union> blocks b (nblocks (of_nat (length bytes)))) \<subseteq> kheap_used (kmem_of k')"
    "kheap_avail (kmem_of k') + nblocks (of_nat (length bytes)) + 4 = kheap_avail (kmem_of k)"
    "\<And>i. i < length bytes \<Longrightarrow> ram_of k' (heap_blk b + of_nat i) = bytes ! i"
    by (rule elf_load_ok [OF assms, of r]) (rule that)
  have "elf_files k' ef = Some f" using arg_cong [OF e(3), of elf_files] by simp
  with e show ?thesis by blast
qed

theorem elf_file_loads_witness:
  "\<exists>(k :: drive kernel) ef k'. elf_load (fat16_vtable program_io) k (c_string ''0:/blank.elf'') = Some (0, Some ef, k')"
proof -
  let ?s = "map of_char ''0:/blank.elf'' :: cbuf"
  obtain k1 :: "drive kernel" and a where k1: "on_disk program_io (vfs k1) ?s blank_elf" "vfs_ok (vfs k1)"
    "file_descriptors (vfs k1) = replicate 512 0" "kheap_avail (kmem_of k1) = 25595" "free_blocks (kmem_of k1) a 4266"
    by (rule kernel_memory_ready [OF program_serves program_fat16 program_file blank_path(2-5)]) (rule that)
  have n: "nblocks (of_nat (length blank_elf)) = 1" by (simp add: nblocks_eq)
  have j: "free_index (file_descriptors (vfs k1)) 0 = Some 0" by (simp add: k1(3) free_index_Some)
  obtain ef b k' res f where e: "elf_load (fat16_vtable program_io) k1 (?s @ 0 # []) = Some (res, if res < 0 then None else Some ef, k')"
    "elf_process_loaded (ram_of k') (empty_elf_file\<lparr>ef_memory := heap_blk b\<rparr>) = (res, f)"
    "\<forall>i<length blank_elf. ram_of k' (heap_blk b + of_nat i) = blank_elf ! i"
    using elf_file_loads [OF k1(1,2) j, of a "[]"] free_blocks_part [OF k1(5), of 9] k1(4) n by auto
  have "holds_file (ram_of k') (ef_memory (empty_elf_file\<lparr>ef_memory := heap_blk b\<rparr>)) blank_elf"
    using e(3) by (simp add: holds_file_def)
  then have "res = 0"
    by (rule elf_process_loaded_ok [OF _ blank_image]) (use e(2) in auto)
  then show ?thesis using e(1) blank_path(1) by auto
qed

text \<open>
  C4: Reading a sector returns exactly when the drive, after the command has been issued, raises its DRQ bit at some poll of the status register: the wait has no limit, so a drive that never answers hangs the kernel.
\<close>

theorem disk_read_terminates:
  assumes "512 \<le> length buffer"
  shows "(\<exists>r. disk_read_sector io lba 1 buffer d = Some r)
     \<longleftrightarrow> (\<exists>n. raises_drq io (polled io n (issue_read io lba 1 d)))"
proof -
  have "(\<exists>r. disk_read_sector io lba 1 buffer d = Some r) \<longleftrightarrow> (\<exists>d'. wait_drq io (issue_read io lba 1 d) = Some d')"
  proof
    assume "\<exists>d'. wait_drq io (issue_read io lba 1 d) = Some d'"
    then obtain d' where w: "wait_drq io (issue_read io lba 1 d) = Some d'" by blast
    obtain bs d'' where r: "read_words io 256 d' = (bs, d'')" by fastforce
    have "length bs = 512" using length_read_words [of io 256 d'] r by simp
    then show "\<exists>r. disk_read_sector io lba 1 buffer d = Some r" using w r assms by (simp add: disk_read_sector_def)
  qed (auto simp: disk_read_sector_def split: bind_splits)
  then show ?thesis by (simp only: wait_drq_returns)
qed

theorem disk_read_terminates_witness:
  "(\<exists>r. disk_read_sector example_io 0 1 (replicate 512 0) (\<lambda>_. 0, []) = Some r)
     \<and> disk_read_sector (example_io\<lparr>insb := \<lambda>p d. (0, d)\<rparr>) 0 1 (replicate 512 0) (\<lambda>_. 0, []) = None"
proof -
  have "raises_drq example_io d" for d by (simp add: raises_drq_def example_io_def pio_drive_def)
  moreover have "\<not> raises_drq (example_io\<lparr>insb := \<lambda>p d. (0, d)\<rparr>) d" for d by (simp add: raises_drq_def)
  ultimately show ?thesis
    using disk_read_terminates [of "replicate 512 0" example_io 0 "(\<lambda>_. 0, [])"]
      disk_read_terminates [of "replicate 512 0" "example_io\<lparr>insb := \<lambda>p d. (0, d)\<rparr>" 0 "(\<lambda>_. 0, [])"]
    by (simp only: length_replicate le_refl not_Some_eq simp_thms flip: not_ex) (simp only: not_ex not_Some_eq)
qed

section \<open>The kernel heap\<close>

text \<open>
  C5: In every state a client reaches from an empty heap by heap_malloc and by heap_free of live pointers, any two live allocations lie inside the table, are marked taken and do not overlap.
\<close>

theorem heap_live_disjoint:
  assumes "heap_reach h0 (h, live)" "heap_wf h0" "live s = Some n" "live t = Some m" "s \<noteq> t"
  shows "{s..<s + n} \<inter> {t..<t + m} = {} \<and> {s..<s + n} \<subseteq> taken_blocks h \<and> s + n \<le> length (entries_of h)"
proof -
  have rep: "heap_rep h live" using heap_reach_rep [OF assms(1,2)] by simp
  then show ?thesis using heap_rep_disjoint [OF rep assms(3-5)] heap_rep_run [OF rep assms(3)] by blast
qed

theorem heap_live_disjoint_witness:
  "heap_reach (small_heap [0, 0, 0, 0]) (small_heap [0xC1, 0x01, 0x41, 0], [0 \<mapsto> 2, 2 \<mapsto> 1])
     \<and> {0..<0 + 2} \<inter> {2..<2 + 1} = ({} :: nat set)"
proof -
  have m: "heap_malloc (small_heap [0, 0, 0, 0]) 5000 = Some (block_addr (small_heap [0, 0, 0, 0]) 0, small_heap [0xC1, 0x01, 0, 0])"
    "heap_malloc (small_heap [0xC1, 0x01, 0, 0]) 4096 = Some (block_addr (small_heap [0xC1, 0x01, 0, 0]) 2, small_heap [0xC1, 0x01, 0x41, 0])"
    by code_simp+
  have "nblocks 5000 = 2" "nblocks 4096 = 1" by (simp_all add: nblocks_eq)
  then have r: "heap_reach (small_heap [0, 0, 0, 0]) (small_heap [0xC1, 0x01, 0x41, 0], [0 \<mapsto> 2, 2 \<mapsto> 1])"
    using heap_reach.step [OF heap_reach.step [OF heap_reach.start heap_step.malloc_ok [OF m(1)]] heap_step.malloc_ok [OF m(2)]]
    by (simp add: small_heap_def)
  have "heap_wf (small_heap [0, 0, 0, 0])" by (simp add: small_heap_def heap_wf_def page_aligned_def)
  from r heap_live_disjoint [OF r this, of 0 2 2 1] show ?thesis by simp
qed

text \<open>
  C6: The search loop of heap_get_start_block, with its two running variables, returns the first run of the requested number of free blocks of the reference search first_fit, or -ENOMEM.
\<close>

theorem heap_first_fit:
  assumes "ht_total (hp_table h) = length (entries_of h)"
  shows "heap_get_start_block h nb =
     (case first_fit (entries_of h) (unat nb) of None \<Rightarrow> - ENOMEM | Some s \<Rightarrow> int s)"
  by (rule heap_get_start_block_eq [OF assms])

theorem heap_first_fit_witness:
  "heap_get_start_block (small_heap [0x41, 0, 0x41, 0, 0]) 2 = 3"
proof -
  have "first_fit [0x41, 0, 0x41, 0, 0] 2 = Some 3" by code_simp
  then show ?thesis using heap_first_fit [of "small_heap [0x41, 0, 0x41, 0, 0]" 2] by (simp add: small_heap_def)
qed

text \<open>
  C7: heap_free of a fresh allocation of n blocks frees its first block only: heap_mark_blocks_free tests the entry it has just cleared, so n - 1 blocks stay taken for ever.
\<close>

theorem heap_free_leaks:
  assumes "heap_wf h" "heap_malloc h n = Some (p, h1)" "p \<noteq> 0"
  shows "\<exists>h2. heap_free h1 p = Some h2 \<and> free_count h2 + nblocks n = free_count h + 1"
  by (rule heap_malloc_free_blocks [OF assms]) blast

theorem heap_free_leaks_witness:
  "\<exists>h2. heap_free (small_heap [0xC1, 0x81, 0x01, 0]) 0x01000000 = Some h2 \<and> free_count h2 = 2"
proof -
  have "heap_malloc (small_heap [0, 0, 0, 0]) 10000 = Some (0x01000000, small_heap [0xC1, 0x81, 0x01, 0])" by code_simp
  moreover have "heap_wf (small_heap [0, 0, 0, 0])" by (simp add: small_heap_def heap_wf_def page_aligned_def)
  moreover have "nblocks 10000 = 3" "free_count (small_heap [0, 0, 0, 0]) = 4"
    by (simp_all add: nblocks_eq free_count_def small_heap_def)
  ultimately show ?thesis using heap_free_leaks [of "small_heap [0, 0, 0, 0]" 10000] by fastforce
qed

section \<open>Paging\<close>

text \<open>
  C8: With 1026 free blocks paging_new_4gb builds a directory and 1024 tables in fresh blocks that map every page of the 4 GiB address space to itself with the given flags.
\<close>

theorem paging_new_identity:
  assumes "kheap_ok k" "1026 \<le> kheap_avail k"
  shows "\<exists>c k'. paging_new_4gb k flags = Some (c, k') \<and> c \<noteq> 0 \<and> owns_chunk k' c
     \<and> (\<forall>va. lookup_page (phys k') c (page_base va) = page_base va OR ucast flags)
     \<and> chunk_pages (phys k') c \<inter> kheap_used k = {} \<and> kheap_avail k' + 1026 = kheap_avail k"
  using paging_new_4gb_ok [OF assms, of flags] unfolding identity_mapped_def by blast

theorem paging_new_identity_witness:
  "\<exists>c k'. paging_new_4gb (example_kmem 0) 7 = Some (c, k') \<and> lookup_page (phys k') c (page_base 0xB8123) = 0xB8007"
proof -
  have "page_base 0xB8123 OR ucast (7 :: byte) = (0xB8007 :: u32)" by (simp add: page_base_def)
  then show ?thesis using paging_new_identity [of "example_kmem 0" 7] by fastforce
qed

text \<open>
  C9: paging_map_to maps every page of the virtual range to the page of the physical range at the same offset, with the flags, and leaves every other page as it was.
\<close>

theorem paging_map_to_range:
  assumes "wf_chunk m c" "page_aligned va" "page_aligned pa" "page_aligned pe" "pa \<le> pe"
  shows "\<exists>m'. paging_map_to m c va pa pe flags = (0, m') \<and> wf_chunk m' c
     \<and> (\<forall>wa. page_aligned wa \<longrightarrow> lookup_page m' c wa =
          (if wa - va < pe - pa then (pa + (wa - va)) OR flags else lookup_page m c wa))"
  using paging_map_to_ok [OF assms] by blast

theorem paging_map_to_range_witness:
  "\<exists>m c m'. paging_map_to m c 0x400000 0x1200000 0x1203000 7 = (0, m') \<and> lookup_page m' c 0x402000 = 0x1202007
     \<and> lookup_page m' c 0x403000 = 0x403007"
proof -
  obtain c k where c: "owns_chunk k c" "identity_mapped (phys k) (directory_entry (phys k) c) 7"
    using paging_new_4gb_ok [of "example_kmem 0" 7] by auto
  have wf: "wf_chunk (phys k) c" using c(1) by (simp add: owns_chunk_def)
  have al: "page_aligned (0x400000 :: addr)" "page_aligned (0x1200000 :: addr)" "page_aligned (0x1203000 :: addr)"
    "page_aligned (0x402000 :: addr)" "page_aligned (0x403000 :: addr)" by (simp_all add: page_aligned_def)
  have id: "lookup_page (phys k) c 0x403000 = 0x403007"
    using spec [OF c(2) [unfolded identity_mapped_def], where x = "0x403000"] by (simp add: page_base_def)
  from paging_map_to_range [OF wf al(1-3), of 7] obtain m' where
    "paging_map_to (phys k) c 0x400000 0x1200000 0x1203000 7 = (0, m')"
    and l: "\<And>wa. page_aligned wa \<Longrightarrow> lookup_page m' c wa =
      (if wa - 0x400000 < 0x1203000 - 0x1200000 then (0x1200000 + (wa - 0x400000)) OR 7 else lookup_page (phys k) c wa)"
    by auto
  then show ?thesis using l [OF al(4)] l [OF al(5)] id by auto
qed

text \<open>
  C10: paging_free_4gb gives back exactly the 1026 blocks of the address space it frees and leaves physical memory alone.
\<close>

theorem paging_free_restores:
  assumes "owns_chunk k c" "kheap_ok k"
  shows "\<exists>k'. paging_free_4gb k c = Some k' \<and> kheap_ok k' \<and> phys k' = phys k
     \<and> kheap_used k' = kheap_used k - chunk_pages (phys k) c \<and> kheap_avail k' = kheap_avail k + 1026"
  by (rule paging_free_4gb_ok [OF assms])

theorem paging_free_restores_witness:
  "\<exists>c k k'. paging_new_4gb (example_kmem 0) 7 = Some (c, k) \<and> paging_free_4gb k c = Some k' \<and> kheap_used k' = {}"
proof -
  obtain c k where c: "paging_new_4gb (example_kmem 0) 7 = Some (c, k)" "kheap_ok k" "owns_chunk k c"
    "kheap_used k = {} \<union> chunk_pages (phys k) c"
    using paging_new_4gb_ok [of "example_kmem 0" 7] by auto
  with paging_free_restores [OF c(3,2)] show ?thesis by auto
qed

section \<open>A running program\<close>





section \<open>System calls\<close>



text \<open>
  C14: System call 0 returns the sum of the two words on top of the stack of the task, modulo 2 to the 32, and changes neither memory nor the screen.
\<close>

theorem sum_system_call:
  assumes "task_space k (current_task k) c" "isr80h_commands k ! 0 = Some Isr80h_command0_sum"
    "stack_word k c frame 0 = Some v1" "stack_word k c frame 1 = Some v2"
  shows "\<exists>k'. isr80h_handler buf k 0 frame = Some (v1 + v2, k') \<and> resumed k c frame k'
     \<and> vfs k' = vfs k \<and> console k' = console k \<and> process_store k' = process_store k"
  by (rule sum_call [OF assms])

theorem sum_system_call_witness:
  "\<exists>(k :: unit kernel) c k'. isr80h_handler [] k 0 example_frame = Some (0x2A, k') \<and> resumed k c example_frame k'"
proof -
  let ?mem = "(\<lambda>_. 0)(0x3FE000 := 0x28, 0x3FE004 := 2) :: ram"
  obtain k :: "unit kernel" and c a where k: "task_space k (current_task k) c"
    "isr80h_commands k ! 0 = Some Isr80h_command0_sum"
    "\<And>va. translate (ram_of k) (directory_entry (ram_of k) c) va = Some va"
    "\<And>x. unat x < 16777216 \<Longrightarrow> ram_of k x = ?mem x"
    using example_kernel [of ?mem] by (metis nth_Cons_0 append_Cons)
  have "stack_word k c example_frame 0 = Some 0x28" "stack_word k c example_frame 1 = Some 2"
    using k(3,4) by (simp_all add: stack_word_def virt_load32_def virt_read_def example_frame_def)
  from sum_system_call [OF k(1,2) this, of "[]"] show ?thesis by auto
qed



section \<open>Programs\<close>





section \<open>Tasks\<close>

text \<open>
  C18: task_new of a process with a flat binary appends a new task to the list of tasks and takes 1027 blocks for it: its address space maps every page to itself, present and open to user mode, it starts at 0x400000 with an empty stack in user segments, and the first task becomes the current one.
\<close>

theorem task_created:
  assumes "kheap_ok (kmem_of k)" "1027 \<le> kheap_avail (kmem_of k)" "task_list k ts" "set ts \<subseteq> kheap_used (kmem_of k)"
    "process_store k process = Some p" "filetype p \<noteq> PROCESS_FILETYPE_ELF"
  shows "\<exists>n k' t. task_new k process = Some (n, k') \<and> task_list k' (ts @ [n]) \<and> n \<notin> kheap_used (kmem_of k)
     \<and> task_store k' n = Some t \<and> task_process t = process
     \<and> regs t = start_registers RASOS_PROGRAM_VIRTUAL_ADDRESS \<and> owns_chunk (kmem_of k') (page_directory t)
     \<and> identity_mapped (ram_of k') (directory_entry (ram_of k') (page_directory t)) (PAGING_IS_PRESENT OR PAGING_ACCESS_BY_ALL)
     \<and> kheap_avail (kmem_of k') + 1027 = kheap_avail (kmem_of k)
     \<and> current_task k' = (if ts = [] then n else current_task k)"
proof -
  have ip: "entry_of k m p = Some RASOS_PROGRAM_VIRTUAL_ADDRESS" for m using assms(6) by (simp add: entry_of_def)
  obtain n c k' where n: "task_new k process = Some (n, k')" "task_list k' (ts @ [n])" "n \<notin> kheap_used (kmem_of k)"
    "fresh_task k' n process RASOS_PROGRAM_VIRTUAL_ADDRESS c" "kheap_avail (kmem_of k') + 1027 = kheap_avail (kmem_of k)"
    "current_task k' = (if ts = [] then n else current_task k)"
    by (rule task_new_ok [OF assms(1-5) ip])
  then obtain t where "task_store k' n = Some t" "task_process t = process" "page_directory t = c"
    "regs t = start_registers RASOS_PROGRAM_VIRTUAL_ADDRESS" by (auto simp: fresh_task_def)
  then show ?thesis using n by (intro exI [of _ n] exI [of _ k'] exI [of _ t]) (simp add: fresh_task_def)
qed

theorem task_created_witness:
  "\<exists>(k :: unit kernel) n k'. task_new k 0x1000 = Some (n, k') \<and> task_list k' [n]
     \<and> kheap_avail (kmem_of k') = 24573 \<and> current_task k' = n"
proof -
  let ?k = "(set_kmem undefined (boot_kmem (\<lambda>_. 0)))\<lparr>task_head := 0,
    process_store := [0x1000 \<mapsto> empty_process\<lparr>filetype := PROCESS_FILETYPE_BINARY\<rparr>]\<rparr> :: unit kernel"
  have "kmem_of ?k = boot_kmem (\<lambda>_. 0)" by (simp add: set_kmem_def)
  then have "kheap_ok (kmem_of ?k)" "kheap_avail (kmem_of ?k) = 25600" by simp_all
  moreover have "task_list ?k []" by (simp add: task_list_def)
  moreover have "process_store ?k 0x1000 = Some (empty_process\<lparr>filetype := PROCESS_FILETYPE_BINARY\<rparr>)" by simp
  ultimately have "\<exists>n k'. task_new ?k 0x1000 = Some (n, k') \<and> task_list k' [n] \<and> kheap_avail (kmem_of k') = 24573 \<and> current_task k' = n"
    using task_created [of ?k "[]" "0x1000" "empty_process\<lparr>filetype := PROCESS_FILETYPE_BINARY\<rparr>"] by auto
  then show ?thesis by blast
qed

text \<open>
  C19: task_get_next walks the list of tasks in a circle: after the last task comes the first.
\<close>

theorem task_round_robin:
  assumes "task_list k ts" "i < length ts" "current_task k = ts ! i"
  shows "task_get_next k = Some (ts ! (Suc i mod length ts))"
  by (rule task_get_next_ok [OF assms])

theorem task_round_robin_witness:
  "task_get_next ((undefined :: unit kernel)\<lparr>task_head := 0x1000, task_tail := 0x2000, current_task := 0x2000,
     task_store := [0x1000 \<mapsto> zero_task\<lparr>task_next := 0x2000\<rparr>, 0x2000 \<mapsto> zero_task\<lparr>task_prev := 0x1000\<rparr>]\<rparr>) = Some 0x1000"
  (is "task_get_next ?k = _")
proof -
  have "task_list ?k [0x1000, 0x2000]" by (simp add: task_list_def zero_task_def)
  from task_round_robin [OF this, of 1] show ?thesis by simp
qed

section \<open>Paths\<close>

text \<open>
  C20: pathparser_parse accepts exactly the strings of 3 to 128 bytes that start with a digit, a colon and a slash, and returns the drive digit and the components up to the first empty one in zero-padded buffers; a path without a component gives NULL and loses the block of the root.
\<close>

theorem path_parse_components:
  assumes "kheap_ok k" "2 * length (components (drop 3 s)) + 3 < kheap_avail k" "0 \<notin> set s"
  shows "\<exists>res k'. pathparser_parse k (s @ 0 # r) = Some (res, k') \<and>
     (if \<not> valid_path s then res = None \<and> k' = k
      else if components (drop 3 s) = [] then res = None \<and> Suc (kheap_avail k') = kheap_avail k
      else \<exists>root. res = Some root \<and> drive_number root = sint (s ! 0) - 48
        \<and> map part (first_parts root) = map name_buffer (components (drop 3 s)))"
  using pathparser_parse_ok [OF assms, of r] by (auto split: if_splits)

theorem path_parse_components_witness:
  "\<exists>root k'. pathparser_parse (example_kmem 0) [49, 58, 47, 97, 47, 98, 99, 0] = Some (Some root, k')
     \<and> drive_number root = 1 \<and> map part (first_parts root) = [name_buffer [97], name_buffer [98, 99]]"
proof -
  have "components [97, 47, 98, 99] = [[97], [98, 99]]" by code_simp
  moreover have "valid_path [49, 58, 47, 97, 47, 98, 99]" by (simp add: valid_path_def is_digit_def)
  ultimately show ?thesis
    using path_parse_components [of "example_kmem 0" "[49, 58, 47, 97, 47, 98, 99]" "[]"] by auto
qed

section \<open>The disk and its streams\<close>

text \<open>
  C21: diskstreamer_read from any position and for any length, however they straddle sectors, delivers the bytes of the disk image at the stream position and advances it, over a drive that answers the commands issued to its ports with the sectors of the image.
\<close>

theorem stream_reads_image:
  assumes "drive_serves io img pend" "sdisk s = TheDisk" "0 \<le> pos s" "0 \<le> n" "pos s + n < 2 ^ 31"
  shows "\<exists>d'. diskstreamer_read io s n d = Some (0, img_bytes img (nat (pos s)) (nat n), s\<lparr>pos := pos s + n\<rparr>, d')"
  by (rule diskstreamer_read_ok [OF assms])

theorem stream_reads_image_witness:
  "\<exists>s d. diskstreamer_read example_io \<lparr>pos = 1535, sdisk = TheDisk\<rparr> 2 (\<lambda>p. 0, []) = Some (0, [0, 65], s, d) \<and> pos s = 1537"
proof -
  have "img_bytes example_img 1535 2 = [0, 65]" by (simp add: example_img_def upt_rec volume_bytes_def)
  then show ?thesis
    using stream_reads_image [OF example_serves, of "\<lparr>pos = 1535, sdisk = TheDisk\<rparr>" 2 "(\<lambda>p. 0, [])"] by auto
qed

section \<open>FAT16\<close>

text \<open>
  C22: fat16_get_cluster_for_offset follows the file allocation table on the disk exactly as the reference chain does: the cluster that many links ahead, or -EIO when one of the six values it takes for the end of a chain comes up.
\<close>

theorem fat_chain_walk:
  assumes "mounted io img pend priv st" "c < 65536" "0 < cluster_size priv"
  shows "\<exists>st'. fat16_get_cluster_for_offset io st (int c) (int off) =
    Some (case chain img priv (off div cluster_size priv) c of None \<Rightarrow> - EIO | Some c' \<Rightarrow> int c', st') \<and> moved st st'"
  by (rule fat16_get_cluster_for_offset_ok [OF assms])

theorem fat_chain_walk_witness:
  "\<exists>st'. fat16_get_cluster_for_offset example_io mounted_fs 2 599 = Some (4, st')"
  using fat_chain_walk [OF mounted_examples(1), of 2 599] by auto

text \<open>
  C23: The end-of-chain mark 0xFFFF of FAT16 is not among the marks fat16_get_cluster_for_offset knows (they are those of FAT12): one cluster past the end it returns cluster 65535 instead of an error.
\<close>

theorem fat16_end_mark_followed:
  assumes "mounted io img pend priv st" "c < 65536" "fat_entry img priv c = 0xFFFF"
    "0 < cluster_size priv" "off div cluster_size priv = 1"
  shows "\<exists>st'. fat16_get_cluster_for_offset io st (int c) (int off) = Some (65535, st')"
proof -
  have "chain img priv 1 c = Some 65535"
    using assms(3) by (simp add: chain_stops_def)
  then show ?thesis using fat16_get_cluster_for_offset_ok [OF assms(1,2,4), of off] assms(5) by auto
qed

theorem fat16_end_mark_followed_witness:
  "\<exists>st'. fat16_get_cluster_for_offset example_io mounted_fs 4 512 = Some (65535, st')"
  using fat16_end_mark_followed [OF mounted_examples(1), of 4 512] by auto

text \<open>
  C24: fat16_read of nmemb items of an open file returns nmemb and the bytes of the file at the position of the descriptor, taken from the clusters of its chain, when no item crosses a cluster boundary and the chain covers them.
\<close>

theorem fat16_read_contents:
  assumes "mounted io img pend priv st" "open_file st d f p entry ofs"
    "first_cluster entry < 65536" "0 < cluster_size priv" "0 < unat sz"
    "unat ofs + unat nmemb * unat sz < 2 ^ 31"
    "file_extent img priv (first_cluster entry) (unat ofs + unat nmemb * unat sz)"
    "pieces_aligned (cluster_size priv) (unat ofs) (unat sz) (unat nmemb)"
  shows "\<exists>st'. fat16_read io st d sz nmemb =
    Some (int (unat nmemb), file_bytes img priv (first_cluster entry) (unat ofs) (unat nmemb * unat sz), st')
    \<and> moved st st'"
  by (rule fat16_read_ok [OF assms])

theorem fat16_read_contents_witness:
  "\<exists>out st'. fat16_read example_io open_fs (blk 5) 8 75 = Some (75, out, st') \<and> out ! 511 = 65 \<and> out ! 512 = 67"
proof -
  have "i * 8 mod 512 + 8 \<le> 512" for i :: nat
  proof -
    have "i * 8 mod 512 = (i mod 64) * 8" using mod_mult_mult2 [of i 8 64] by simp
    moreover have "i mod 64 < 64" by simp
    ultimately show ?thesis by linarith
  qed
  then have "pieces_aligned 512 0 8 75" by (simp add: pieces_aligned_def)
  moreover have "file_bytes example_img example_private 2 0 600 ! i = (if i < 512 then 65 else 67)" if "i < 600" for i
    using that example_bytes [of i] by (simp add: file_bytes_def)
  ultimately show ?thesis
    using fat16_read_contents [OF mounted_examples(2) open_file_example, of 8 75] example_extent [of 600] by auto
qed

text \<open>
  C25: For a directory entry whose name and extension both end in padding within reach, combine_filename_and_ext writes the name, a dot if there is an extension, and the extension into the zeroed buffer.
\<close>

theorem fat16_name_shown:
  assumes "well_named item"
  shows "combine_filename_and_ext item (replicate 128 0) 128 = Some (name_buffer (display_name (item_of_bytes item)))"
  by (rule combine_filename_and_ext_ok [OF assms])

theorem fat16_name_shown_witness:
  "combine_filename_and_ext hello_entry (replicate 128 0) 128 = Some (name_buffer [72, 69, 76, 76, 79, 46, 84, 88, 84])"
proof -
  have "is_pad (hello_entry ! 5)" "is_pad (hello_entry ! 11)" by (simp_all add: hello_entry_def is_pad_def)
  then have "well_named hello_entry" by (auto simp: well_named_def intro: exI [of _ "5::nat"])
  then show ?thesis using fat16_name_shown [of hello_entry] by simp
qed



text \<open>
  C27: On a disk whose boot sector lacks the FAT16 signature fat16_resolve returns -EFSNOTUS, leaves the disk without filesystem or private data, and loses the three blocks of its streams.
\<close>

theorem fat16_resolve_other:
  assumes "drive_serves io img pend" "fs_ok st" "4 < fs_avail st" "disk_id (the_disk st) = 0"
    "signature (extended_header (boot_header img)) \<noteq> 0x29"
  shows "\<exists>st'. fat16_resolve io st = Some (- EFSNOTUS, st') \<and> fs_private (the_disk st') = 0
    \<and> disk_filesystem (the_disk st') = None \<and> fs_ok st' \<and> fs_avail st' + 3 = fs_avail st"
  by (rule fat16_resolve_not_fat16 [OF assms])

theorem fat16_resolve_other_witness:
  "\<exists>st'. fat16_resolve (pio_drive (byte_image (\<lambda>p. 0))) (blank_fs (example_kmem 0)) = Some (- EFSNOTUS, st')
     \<and> fs_avail st' = 25597"
proof -
  have d: "disk_id (the_disk (blank_fs k)) = 0" for k by (simp add: blank_fs_def)
  have "boot_header (byte_image (\<lambda>p. 0)) = fat_h_of_bytes (replicate 62 0)"
    by (simp add: boot_header_def map_replicate_const)
  then have "signature (extended_header (boot_header (byte_image (\<lambda>p. 0)))) \<noteq> 0x29"
    by (simp add: fat_h_of_bytes_def)
  then show ?thesis
    using fat16_resolve_other [OF byte_image_serves, of "blank_fs (example_kmem 0)" "\<lambda>p. 0"] d by auto
qed

text \<open>
  C28: Opening a file of the root directory for reading and closing it again returns the driver to the state it was in, every heap object of the descriptor released.
\<close>

theorem fat16_open_then_close:
  assumes "fs_ok st" "2 < fs_avail st" "root_file st s i entry" "0 \<notin> set s" "length s < 128"
    "part pp = name_buffer s" "attribute (item_of_bytes entry) AND FAT_FILE_SUBDIRECTORY = 0" "stores_in_use st"
  shows "\<exists>d st1 k. fat16_open io st [pp] FILE_MODE_READ = Some (d, st1) \<and> d \<noteq> 0
     \<and> fat16_close st1 d = Some (0, st\<lparr>fs_kmem := k\<rparr>) \<and> kheap_ok k \<and> kheap_used k = fs_used st
     \<and> kheap_avail k = fs_avail st"
  by (rule fat16_open_close [OF assms])

theorem fat16_open_then_close_witness:
  "\<exists>d st1 k. fat16_open example_io mounted_fs
       [\<lparr>pp_addr = 0, part_addr = 0, part = name_buffer [104, 101, 108, 108, 111, 46, 116, 120, 116]\<rparr>] FILE_MODE_READ
         = Some (d, st1)
     \<and> fat16_close st1 d = Some (0, mounted_fs\<lparr>fs_kmem := k\<rparr>) \<and> kheap_avail k = 25595"
proof -
  have "attribute (item_of_bytes hello_entry) AND FAT_FILE_SUBDIRECTORY = 0"
    by (simp add: FAT_FILE_SUBDIRECTORY_def)
  with fat16_open_then_close [OF _ _ root_file_example _ _ _ _ stores_in_use_mounted,
      of "\<lparr>pp_addr = 0, part_addr = 0, part = name_buffer [104, 101, 108, 108, 111, 46, 116, 120, 116]\<rparr>" example_io]
  show ?thesis by fastforce
qed

text \<open>
  C29: After any run of absolute seeks on an open file, failed ones included, fat16_stat still reports its size and the handle is open at the last offset that was inside the file.
\<close>

theorem seeks_keep_the_file:
  assumes "fat16_view st h len ofs"
  shows "\<exists>st' fl. fat16_files.seeks st h offs = Some st'
     \<and> fat16_stat st' h b = Some (0, \<lparr>stat_flags = fl, stat_filesize = len\<rparr>)
     \<and> fat16_view st' h len (last (ofs # filter (\<lambda>off. off < len) offs))"
  using fat16_files.seeks_view [OF assms, of offs] fat16_files.stat_len [of _ h len _ b] by metis

theorem seeks_keep_the_file_witness:
  "\<exists>st' fl. fat16_files.seeks open_fs (blk 5) [10, 700, 20, 600] = Some st'
     \<and> fat16_stat st' (blk 5) \<lparr>stat_flags = 9, stat_filesize = 9\<rparr> = Some (0, \<lparr>stat_flags = fl, stat_filesize = 600\<rparr>) \<and> fat16_view st' (blk 5) 600 20"
proof -
  have "fat16_view open_fs (blk 5) 600 0" using open_file_example by (fastforce simp: fat16_view_def)
  from seeks_keep_the_file [OF this, of "[10, 700, 20, 600]"] show ?thesis by simp
qed

section \<open>Files\<close>

text \<open>
  C30: fopen of the path of a file in the root directory of drive 0, in read mode, takes the lowest free slot and returns its number, open at position 0 on the directory entry of that name; it costs seven blocks.
\<close>

theorem fopen_finds_the_file:
  assumes "vfs_ok v" "7 \<le> fs_avail (lower v)" "disk_filesystem (the_disk (lower v)) = Some Fat16_fs"
    "0 \<notin> set s" "valid_path s" "s ! 0 = 48" "components (drop 3 s) = [name]" "root_file (lower v) name i entry"
    "attribute (item_of_bytes entry) AND FAT_FILE_SUBDIRECTORY = 0" "free_index (file_descriptors v) 0 = Some j"
  shows "\<exists>v' h f p. fopen (fat16_vtable io) v (s @ 0 # r) (114 # m) = Some (int j + 1, v') \<and> vfs_ok v'
     \<and> (j < 511 \<longrightarrow> fd_open v' (int j + 1) h) \<and> open_file (lower v') h f p entry 0
     \<and> fs_avail (lower v') + 7 = fs_avail (lower v)"
  using fopen_ok [OF assms, of io r m] by blast

theorem fopen_finds_the_file_witness:
  "\<exists>v' h. fopen (fat16_vtable example_io) example_vfs [48, 58, 47, 104, 101, 108, 108, 111, 46, 116, 120, 116, 0] [114, 0]
     = Some (1, v') \<and> fd_open v' 1 h"
proof -
  have "components [104, 101, 108, 108, 111, 46, 116, 120, 116] = [[104, 101, 108, 108, 111, 46, 116, 120, 116]]"
    by code_simp
  moreover have "valid_path [48, 58, 47, 104, 101, 108, 108, 111, 46, 116, 120, 116]"
    by (simp add: valid_path_def is_digit_def)
  ultimately show ?thesis
    using fopen_finds_the_file [of example_vfs "[48, 58, 47, 104, 101, 108, 108, 111, 46, 116, 120, 116]"
        "[104, 101, 108, 108, 111, 46, 116, 120, 116]" 0 hello_entry 0 example_io "[]" "[0]"] root_file_example
    by (auto simp: FAT_FILE_SUBDIRECTORY_def)
qed

text \<open>
  C31: fclose of a file that fopen opened succeeds, empties its slot and gives back the four objects of the open file; the three blocks of the parsed path are never freed.
\<close>

theorem fopen_then_fclose:
  assumes "vfs_ok v" "7 \<le> fs_avail (lower v)" "disk_filesystem (the_disk (lower v)) = Some Fat16_fs"
    "0 \<notin> set s" "valid_path s" "s ! 0 = 48" "components (drop 3 s) = [name]" "root_file (lower v) name i entry"
    "attribute (item_of_bytes entry) AND FAT_FILE_SUBDIRECTORY = 0" "free_index (file_descriptors v) 0 = Some j" "j < 511"
  shows "\<exists>v1 v2. fopen (fat16_vtable io) v (s @ 0 # r) (114 # m) = Some (int j + 1, v1)
     \<and> fclose (fat16_vtable io) v1 (int j + 1) = Some (0, v2) \<and> file_get_descriptor v2 (int j + 1) = 0 \<and> vfs_ok v2
     \<and> fs_avail (lower v2) + 3 = fs_avail (lower v)"
  by (rule fopen_fclose [OF assms])

theorem fopen_then_fclose_witness:
  "\<exists>v1 v2. fopen (fat16_vtable example_io) example_vfs [48, 58, 47, 104, 101, 108, 108, 111, 46, 116, 120, 116, 0] [114, 0]
     = Some (1, v1) \<and> fclose (fat16_vtable example_io) v1 1 = Some (0, v2) \<and> fs_avail (lower v2) = 25592"
proof -
  have "components [104, 101, 108, 108, 111, 46, 116, 120, 116] = [[104, 101, 108, 108, 111, 46, 116, 120, 116]]"
    by code_simp
  moreover have "valid_path [48, 58, 47, 104, 101, 108, 108, 111, 46, 116, 120, 116]"
    by (simp add: valid_path_def is_digit_def)
  ultimately show ?thesis
    using fopen_then_fclose [of example_vfs "[48, 58, 47, 104, 101, 108, 108, 111, 46, 116, 120, 116]"
        "[104, 101, 108, 108, 111, 46, 116, 120, 116]" 0 hello_entry 0 example_io "[]" "[0]"] root_file_example
    by (auto simp: FAT_FILE_SUBDIRECTORY_def)
qed

text \<open>
  C32: A number that leads to no descriptor is refused by fstat and fclose, but fseek tests the number instead of the descriptor and dereferences NULL; the last slot, handed out as 512, leads to no descriptor.
\<close>

theorem descriptor_numbers:
  assumes "file_get_descriptor v fd = 0" "fd_store v 0 = None" "fd \<noteq> 0"
  shows "fstat vt v fd stat = Some (- EINVARG, stat) \<and> fclose vt v fd = Some (- EINVARG, v)
    \<and> fseek vt v fd off whence = None \<and> file_get_descriptor v 512 = 0"
  using closed_fd [OF assms(1,2)] assms(3) file_get_descriptor_512 by blast

theorem descriptor_numbers_witness:
  "fseek (fat16_vtable example_io) example_vfs 3 0 SEEK_SET = None
     \<and> fclose (fat16_vtable example_io) example_vfs 512 = Some (- EINVARG, example_vfs)"
  using descriptor_numbers [of example_vfs 3 "fat16_vtable example_io"]
    descriptor_numbers [of example_vfs 512 "fat16_vtable example_io"] by simp

section \<open>Segment descriptors\<close>

text \<open>
  C33: gdt_structured_to_gdt encodes every segment whose limit it accepts into eight bytes from which the processor reads back the base, the limit in bytes, the access byte and the 32-bit flag.
\<close>

theorem gdt_roundtrip:
  assumes "\<forall>g \<in> set gs. representable (gs_limit g)"
  shows "\<exists>bs. gdt_structured_to_gdt gs = Inr bs \<and> length bs = 8 * length gs
    \<and> (\<forall>i<length gs. gdt_entry_ok (gs ! i) (take 8 (drop (8 * i) bs)))"
  by (rule gdt_structured_to_gdt_ok [OF assms])

theorem gdt_roundtrip_witness:
  "\<exists>bs. gdt_structured_to_gdt (kernel_gdt 0x1234) = Inr bs \<and> gdt_entry_ok (kernel_gdt 0x1234 ! 5) (take 8 (drop 40 bs))"
proof -
  have "length (kernel_gdt 0x1234) = 6" "\<forall>g \<in> set (kernel_gdt 0x1234). representable (gs_limit g)"
    by (simp_all add: kernel_gdt_def representable_def)
  with gdt_roundtrip [of "kernel_gdt 0x1234"] obtain bs where
    bs: "gdt_structured_to_gdt (kernel_gdt 0x1234) = Inr bs"
    "\<forall>i<6. gdt_entry_ok (kernel_gdt 0x1234 ! i) (take 8 (drop (8 * i) bs))" by auto
  then show ?thesis using spec [OF bs(2), of 5] by simp
qed

section \<open>The terminal\<close>



section \<open>The keyboard buffer\<close>



section \<open>Limits and defects\<close>

text \<open>
  C36: On a disk without a filesystem loading a program reports success: fopen turns its error into 0, elf_load returns that 0, the process gets a NULL image, and creating its task then dereferences NULL instead of failing.
\<close>

theorem missing_filesystem_accepted:
  assumes "kheap_ok (kmem_of k)" "2 * length (components (drop 3 s)) + 1029 \<le> kheap_avail (kmem_of k)" "0 \<notin> set s"
    "disk_filesystem (the_disk (lower (vfs k))) = None" "elf_files k 0 = None"
  shows "\<exists>k'. process_load_data vt (process_init k a) (s @ 0 # r) a = Some (0, k')
     \<and> process_store k' a = Some (empty_process\<lparr>filetype := PROCESS_FILETYPE_ELF, proc_ptr := 0\<rparr>) \<and> task_new k' a = None"
  by (rule load_no_filesystem [OF assms, where vt = vt and a = a and r = r]) blast

theorem missing_filesystem_accepted_witness:
  "\<exists>(k :: drive kernel) k'. process_load_data (fat16_vtable example_io) (process_init k 0x1000) (c_string ''0:/blank.elf'') 0x1000 = Some (0, k')
     \<and> task_new k' 0x1000 = None"
proof -
  let ?s = "map of_char ''0:/blank.elf'' :: cbuf"
  let ?k = "(undefined :: drive kernel)\<lparr>vfs := example_vfs\<lparr>lower := blank_fs (example_kmem 0)\<rparr>, elf_files := (\<lambda>_. None)\<rparr>"
  have "kheap_ok (kmem_of ?k)" "kheap_avail (kmem_of ?k) = 25600" "disk_filesystem (the_disk (lower (vfs ?k))) = None"
    by (simp_all add: blank_fs_def)
  moreover have "length (components (drop 3 ?s)) = 1" using blank_path(5) by simp
  ultimately show ?thesis
    using missing_filesystem_accepted [where k = ?k and s = ?s and vt = "fat16_vtable example_io" and a = "0x1000" and r = "[]"] blank_path(1,2) by auto
qed

text \<open>
  C37: The terminal neither scrolls nor tests a bound: after n line breaks a character goes to the first cell of the line n below the cursor, however far that is below the last line of the screen. The cell of line 1844 lies at 1 MiB, where the kernel has been loaded.
\<close>

theorem terminal_leaves_the_screen:
  assumes "plain c" "c \<noteq> 0" "0 < n" "unat (terminal_current_row t) + n < 65535"
  shows "\<exists>t'. terminal_print t (replicate n 0x0A @ c # 0 # r) = Some t' \<and>
     video_mem t' = (video_mem t)((unat (terminal_current_row t) + n) * 80 := terminal_make_char c 15)"
proof -
  let ?t = "t\<lparr>terminal_current_row := terminal_current_row t + of_nat n, terminal_current_col := 0\<rparr>"
  have row: "unat (terminal_current_row t + of_nat n) = unat (terminal_current_row t) + n"
    using assms(4) by (simp add: unat_word_ariths(1) unat_of_nat)
  have len: "strlen (replicate n 0x0A @ c # 0 # r) = Some (n + 1)"
    using strlen_cstring [of "replicate n 0x0A @ [c]" r] assms(2) by simp
  have "print_loop t (replicate n 0x0A @ c # 0 # r) (n + 1) = terminal_default_putchar ?t c 15"
    using assms(3) by (simp only: print_loop_newlines) simp
  moreover have "video_mem (terminal_default_putchar ?t c 15) = (video_mem ?t)(cursor ?t := terminal_make_char c 15)"
    by (rule putchar_plain(1)) (use assms row in \<open>simp_all add: cursor_ok_def\<close>)
  ultimately show ?thesis using len row by (simp add: terminal_print_def cursor_def)
qed

theorem terminal_leaves_the_screen_witness:
  "\<exists>cell t'. terminal_print \<lparr>video_mem = \<lambda>_. 0, terminal_current_row = 0, terminal_current_col = 0\<rparr> (replicate 1844 0x0A @ [65, 0]) = Some t'
     \<and> video_mem t' cell = 0x0F41 \<and> (0x100000 :: nat) \<le> 0xB8000 + 2 * cell"
proof -
  have c: "terminal_make_char 65 15 = 0x0F41" by code_simp
  show ?thesis
    using terminal_leaves_the_screen [of 65 1844 "\<lparr>video_mem = \<lambda>_. 0, terminal_current_row = 0, terminal_current_col = 0\<rparr>" "[]"]
    by (intro exI [of _ "147520 :: nat"]) (auto simp: plain_def c)
qed



text \<open>
  C39: Freeing the last of several tasks leaves task_tail pointing to it: the next task_list_add writes through the freed task.
\<close>

theorem task_tail_dangles:
  assumes "task_list k (ts @ [b])" "ts \<noteq> []" "task_free k b = Some (r, k')"
  shows "task_list_add k' n = None"
  by (rule task_free_last [OF assms])

theorem task_tail_dangles_witness:
  "\<exists>(k :: unit kernel) a b k'. task_list k [a, b] \<and> task_free k b = Some (0, k') \<and> task_list_add k' a = None"
proof -
  obtain k :: "unit kernel" and a b k' where k: "task_list k [a, b]" "task_free k b = Some (0, k')"
    by (rule example_two_tasks)
  then have "task_list k ([a] @ [b])" by simp
  from task_tail_dangles [OF this _ k(2), of a] k show ?thesis by auto
qed

text \<open>
  C40: A name that fills its eight bytes runs into the extension, which then follows once more behind the dot: remove_padded_spaces looks for a terminator that the entry does not have.
\<close>

theorem fat16_full_name_overruns:
  assumes "32 \<le> length item" "\<forall>i<11. \<not> is_pad (item ! i)" "is_pad (item ! 11)"
  shows "combine_filename_and_ext item (replicate 128 0) 128 =
    Some (name_buffer (take 11 item @ 46 # take 3 (drop 8 item)))"
  by (rule combine_filename_and_ext_full [OF assms])

theorem fat16_full_name_overruns_witness:
  "combine_filename_and_ext (replicate 8 65 @ replicate 3 66 @ replicate 21 0) (replicate 128 0) 128
     = Some (name_buffer (replicate 8 65 @ replicate 3 66 @ 46 # replicate 3 66))"
proof -
  have "\<not> is_pad ((replicate 8 65 @ replicate 3 66 @ replicate 21 0) ! i)" if "i < 11" for i
    using that by (cases "i < 8") (simp_all add: is_pad_def nth_append less_diff_conv2)
  moreover have "is_pad ((replicate 8 65 @ replicate 3 66 @ replicate 21 0) ! 11)" by (simp add: is_pad_def nth_append)
  ultimately show ?thesis
    using fat16_full_name_overruns [of "replicate 8 65 @ replicate 3 66 @ replicate 21 0"] by simp
qed

end
